(* ===== verification/Prelude.thy ===== *)
theory Prelude
  imports
    Main
    "HOL-Library.Word"
    "HOL-Library.List_Lexorder"
    "HOL-Library.Product_Lexorder"
    "HOL-Library.Finite_Map"
begin

section \<open>Shared types, byte encodings and list lemmas\<close>

text \<open>
  What every component of the indexer uses: the machine integers at their width, the Rust
  array type \<^verbatim>\<open>[u8; N]\<close> as the type \<open>'n bytes\<close> of byte lists of
  length \<open>N\<close> (with the lexicographic order Rust gives arrays and redb gives
  keys), the big-endian and little-endian conversions of the standard library
  (\<^verbatim>\<open>to_be_bytes\<close>, \<^verbatim>\<open>from_be_bytes\<close>,
  \<^verbatim>\<open>from_le_bytes\<close>), and lemmas about prefixes and slices of byte
  strings. The collection \<open>key_simps\<close> gathers what is needed to take a key apart.
\<close>

named_theorems key_simps \<open>how a key is taken apart: lengths, slices, prefixes\<close>

type_synonym u8 = "8 word"
type_synonym u32 = "32 word"
type_synonym u64 = "64 word"


subsection \<open>Byte arrays of fixed length\<close>

typedef (overloaded) 'n bytes = "{bs :: u8 list. length bs = LENGTH('n::len)}"
  morphisms byte_list Bytes
  by (rule exI [of _ "replicate LENGTH('n) 0"]) simp

lemma length_byte_list [simp, key_simps]: "length (byte_list (a :: 'n::len bytes)) = LENGTH('n)"
  using byte_list [of a] by simp

lemma byte_list_eq_iff [simp]: "byte_list a = byte_list b \<longleftrightarrow> a = b"
  by (rule byte_list_inject)

text \<open>\<^verbatim>\<open>[b; N]\<close>: \<open>N\<close> copies of a byte.\<close>

definition filled :: "u8 \<Rightarrow> 'n::len bytes" where
  "filled b = Bytes (replicate LENGTH('n) b)"

lemma byte_list_Bytes [simp]: "length bs = LENGTH('n) \<Longrightarrow> byte_list (Bytes bs :: 'n::len bytes) = bs"
  by (rule Bytes_inverse) simp

lemma Bytes_byte_list [simp, code abstype]: "Bytes (byte_list a) = a"
  by (rule byte_list_inverse)

lemma byte_list_filled [simp, code abstract]:
  "byte_list (filled b :: 'n::len bytes) = replicate LENGTH('n) b"
  by (simp add: filled_def)

lemma filled_eq_iff [simp]: "(filled a :: 'n::len bytes) = filled b \<longleftrightarrow> a = b"
  by (simp flip: byte_list_eq_iff add: replicate_eq_replicate)

text \<open>
  The contents of a subslice as an array: \<open>copy_from_slice\<close> into a fresh array panics
  when the lengths differ, which is the value \<open>None\<close>.
\<close>

definition array_of :: "u8 list \<Rightarrow> 'n::len bytes option" where
  "array_of bs = (if length bs = LENGTH('n) then Some (Bytes bs) else None)"

lemma array_of_byte_list [simp]: "array_of (byte_list a) = Some a"
  by (simp add: array_of_def byte_list_inverse)

lemma array_of_eq_Some_iff: "array_of bs = Some a \<longleftrightarrow> bs = byte_list a"
  by (auto simp: array_of_def byte_list_inverse)

lemma array_of_eq_None_iff: "(array_of bs :: 'n::len bytes option) = None \<longleftrightarrow> length bs \<noteq> LENGTH('n)"
  by (simp add: array_of_def)

instantiation bytes :: (len) equal
begin

definition equal_bytes :: "'a bytes \<Rightarrow> 'a bytes \<Rightarrow> bool" where
  "equal_bytes a b \<longleftrightarrow> byte_list a = byte_list b"

instance
  by standard (simp add: equal_bytes_def)

end

instantiation bytes :: (len) linorder
begin

definition less_eq_bytes :: "'a bytes \<Rightarrow> 'a bytes \<Rightarrow> bool" where
  "less_eq_bytes a b \<longleftrightarrow> byte_list a \<le> byte_list b"

definition less_bytes :: "'a bytes \<Rightarrow> 'a bytes \<Rightarrow> bool" where
  "less_bytes a b \<longleftrightarrow> byte_list a < byte_list b"

instance
  by standard (auto simp: less_eq_bytes_def less_bytes_def less_le_not_le)

end

instantiation bytes :: (len) size
begin

definition size_bytes :: "'a bytes \<Rightarrow> nat" where
  "size_bytes a = LENGTH('a)"

instance ..

end


subsection \<open>Slices, prefixes and the lexicographic order\<close>

text \<open>\<^verbatim>\<open>xs[i..j]\<close>, used only where the code has checked the length.\<close>

definition subslice :: "nat \<Rightarrow> nat \<Rightarrow> 'a list \<Rightarrow> 'a list" where
  "subslice i j xs = take (j - i) (drop i xs)"

lemma length_subslice [simp]: "length (subslice i j xs) = min (length xs - i) (j - i)"
  by (simp add: subslice_def)

lemma subslice_append_left [key_simps]: "length xs = n \<Longrightarrow> subslice 0 n (xs @ ys) = xs"
  by (simp add: subslice_def)

lemma subslice_append_right [key_simps]:
  "length xs = n \<Longrightarrow> n \<le> i \<Longrightarrow> subslice i j (xs @ ys) = subslice (i - n) (j - n) ys"
  by (simp add: subslice_def)

lemma subslice_all [key_simps]: "length xs = n \<Longrightarrow> subslice 0 n xs = xs"
  by (simp add: subslice_def)

lemma append_less_iff:
  fixes p q :: "'a::linorder list"
  assumes "length p = length q"
  shows "p @ xs < q @ ys \<longleftrightarrow> p < q \<or> p = q \<and> xs < ys"
  using assms by (induction p q rule: list_induct2) auto

lemma append_le_iff:
  fixes p q :: "'a::linorder list"
  assumes "length p = length q"
  shows "p @ xs \<le> q @ ys \<longleftrightarrow> p < q \<or> p = q \<and> xs \<le> ys"
  using assms by (induction p q rule: list_induct2) auto

lemma byte_list_append_less_iff:
  fixes a b :: "'n::len bytes"
  shows "byte_list a @ xs < byte_list b @ ys \<longleftrightarrow> a < b \<or> a = b \<and> xs < ys"
  by (simp add: append_less_iff less_bytes_def)

lemma unat_u8_less [simp]: "unat (b :: u8) < 256"
proof -
  have "unat b < 2 ^ LENGTH(8)" by (rule unsigned_less)
  then show ?thesis by simp
qed

lemma unat_u32_less [simp]: "unat (w :: u32) < 4294967296"
proof -
  have "unat w < 2 ^ LENGTH(32)" by (rule unsigned_less)
  then show ?thesis by simp
qed

lemma unat_u64_less [simp]: "unat (w :: u64) < 18446744073709551616"
proof -
  have "unat w < 2 ^ LENGTH(64)" by (rule unsigned_less)
  then show ?thesis by simp
qed

lemma word8_le_255 [simp]: "(b :: u8) \<le> 255"
proof -
  have "unat b \<le> 255" using unat_u8_less [of b] by linarith
  then show ?thesis by (simp add: word_le_nat_alt)
qed

lemma replicate_zero_le: "length xs = m \<Longrightarrow> replicate m (0 :: u8) \<le> xs"
proof (induction xs arbitrary: m)
  case (Cons x xs)
  then show ?case by (cases m) (auto simp: word_neq_0_conv)
qed simp

lemma le_replicate_255: "length xs = m \<Longrightarrow> xs \<le> replicate m (255 :: u8)"
proof (induction xs arbitrary: m)
  case (Cons x xs)
  then show ?case by (cases m) (auto simp: order_less_le)
qed simp

text \<open>
  The bounds every range scan of the code uses: a prefix filled up with \<open>0x00\<close>
  below and \<open>0xFF\<close> above selects, among the keys of the full length, exactly the
  keys with that prefix.
\<close>

definition prefix_lo :: "nat \<Rightarrow> u8 list \<Rightarrow> u8 list" where
  "prefix_lo n p = p @ replicate (n - length p) 0"

definition prefix_hi :: "nat \<Rightarrow> u8 list \<Rightarrow> u8 list" where
  "prefix_hi n p = p @ replicate (n - length p) 255"

lemma prefix_bounds_iff:
  assumes "length k = n" and "length p \<le> n"
  shows "prefix_lo n p \<le> k \<and> k \<le> prefix_hi n p \<longleftrightarrow> take (length p) k = p"
proof -
  define a b where "a = take (length p) k" and "b = drop (length p) k"
  have k: "k = a @ b" and len: "length p = length a" "length a = length p" "length b = n - length p"
    using assms by (simp_all add: a_def b_def)
  have "replicate (n - length p) 0 \<le> b" "b \<le> replicate (n - length p) 255"
    using len by (simp_all add: replicate_zero_le le_replicate_255)
  then have "prefix_lo n p \<le> k \<longleftrightarrow> p \<le> a" "k \<le> prefix_hi n p \<longleftrightarrow> a \<le> p"
    by (auto simp: k prefix_lo_def prefix_hi_def append_le_iff [OF len(1)] append_le_iff [OF len(2)])
  then have "prefix_lo n p \<le> k \<and> k \<le> prefix_hi n p \<longleftrightarrow> a = p"
    by auto
  then show ?thesis by (simp add: a_def)
qed


text \<open>A loop over \<^verbatim>\<open>iter().enumerate()\<close> that pushes rows.\<close>

lemma in_concat_enumerate_iff:
  "y \<in> set (concat (map (\<lambda>(v, x). f v x) (enumerate 0 xs))) \<longleftrightarrow> (\<exists>v. v < length xs \<and> y \<in> set (f v (xs ! v)))"
  by (force simp: in_set_enumerate_eq)


subsection \<open>Big-endian and little-endian integers\<close>

fun be_bytes :: "nat \<Rightarrow> nat \<Rightarrow> u8 list" where
  "be_bytes 0 v = []"
| "be_bytes (Suc n) v = word_of_nat (v div 256 ^ n) # be_bytes n (v mod 256 ^ n)"

definition be_value :: "u8 list \<Rightarrow> nat" where
  "be_value bs = foldl (\<lambda>a b. a * 256 + unat b) 0 bs"

lemma length_be_bytes [simp, key_simps]: "length (be_bytes n v) = n"
  by (induction n arbitrary: v) simp_all

lemma foldl_be: "foldl (\<lambda>a b. a * 256 + unat (b :: u8)) c bs = c * 256 ^ length bs + be_value bs"
proof (induction bs arbitrary: c)
  case (Cons b bs)
  from Cons.IH [of "c * 256 + unat b"] Cons.IH [of "unat b"] show ?case
    by (simp add: be_value_def algebra_simps)
qed (simp add: be_value_def)

lemma be_value_Cons: "be_value (b # bs) = unat b * 256 ^ length bs + be_value bs"
  using foldl_be [of "unat b" bs] by (simp add: be_value_def)

lemma be_value_be_bytes: "v < 256 ^ n \<Longrightarrow> be_value (be_bytes n v) = v"
proof (induction n arbitrary: v)
  case (Suc n)
  have "v div 256 ^ n < 256"
    using Suc.prems by (simp add: less_mult_imp_div_less)
  then have "unat (word_of_nat (v div 256 ^ n) :: u8) = v div 256 ^ n"
    by (simp add: unat_of_nat)
  then show ?case
    using Suc.IH [of "v mod 256 ^ n"] by (simp add: be_value_Cons div_mult_mod_eq)
qed (simp add: be_value_def)

lemma be_value_less: "be_value bs < 256 ^ length bs"
proof (induction bs)
  case (Cons b bs)
  have "unat b + 1 \<le> 256" using unat_u8_less [of b] by linarith
  then have "(unat b + 1) * 256 ^ length bs \<le> 256 * 256 ^ length bs"
    by (rule mult_right_mono) simp
  moreover have "(unat b + 1) * 256 ^ length bs = unat b * 256 ^ length bs + 256 ^ length bs"
    by simp
  ultimately have "unat b * 256 ^ length bs + be_value bs < 256 * 256 ^ length bs"
    using Cons.IH by linarith
  then show ?case by (simp add: be_value_Cons)
qed (simp add: be_value_def)

lemma be_bytes_be_value: "be_bytes (length bs) (be_value bs) = bs"
proof (induction bs)
  case (Cons b bs)
  then show ?case
    using be_value_less [of bs] by (simp add: be_value_Cons)
qed simp

lemma div_mod_less_iff:
  fixes v w p :: nat
  shows "v < w \<longleftrightarrow> v div p < w div p \<or> v div p = w div p \<and> v mod p < w mod p"
proof (cases "v div p = w div p")
  case True
  then show ?thesis
    using div_mult_mod_eq [of v p] div_mult_mod_eq [of w p] by (metis add_less_cancel_left less_irrefl)
next
  case False
  then show ?thesis
    using div_le_mono [of v w p] div_le_mono [of w v p] by linarith
qed

lemma be_bytes_less_iff:
  "v < 256 ^ n \<Longrightarrow> w < 256 ^ n \<Longrightarrow> be_bytes n v < be_bytes n w \<longleftrightarrow> v < w"
proof (induction n arbitrary: v w)
  case (Suc n)
  let ?p = "256 ^ n :: nat"
  have small: "v div ?p < 256" "w div ?p < 256"
    using Suc.prems by (simp_all add: less_mult_imp_div_less)
  then have hd_less: "(word_of_nat (v div ?p) :: u8) < word_of_nat (w div ?p) \<longleftrightarrow> v div ?p < w div ?p"
    and hd_eq: "(word_of_nat (v div ?p) :: u8) = word_of_nat (w div ?p) \<longleftrightarrow> v div ?p = w div ?p"
    by (simp_all add: word_less_nat_alt word_unat_eq_iff unat_of_nat)
  have IH: "be_bytes n (v mod ?p) < be_bytes n (w mod ?p) \<longleftrightarrow> v mod ?p < w mod ?p"
    by (rule Suc.IH) simp_all
  have "v < w \<longleftrightarrow> v div ?p < w div ?p \<or> v div ?p = w div ?p \<and> v mod ?p < w mod ?p"
    by (rule div_mod_less_iff)
  then show ?case by (simp add: hd_less hd_eq IH)
qed simp

definition be64 :: "u64 \<Rightarrow> u8 list" where
  "be64 w = be_bytes 8 (unat w)"

definition be32 :: "u32 \<Rightarrow> u8 list" where
  "be32 w = be_bytes 4 (unat w)"

definition from_be64 :: "u8 list \<Rightarrow> u64" where
  "from_be64 bs = word_of_nat (be_value bs)"

definition from_be32 :: "u8 list \<Rightarrow> u32" where
  "from_be32 bs = word_of_nat (be_value bs)"

definition le32 :: "u32 \<Rightarrow> u8 list" where
  "le32 w = rev (be32 w)"

definition from_le32 :: "u8 list \<Rightarrow> u32" where
  "from_le32 bs = from_be32 (rev bs)"

lemma length_be [simp, key_simps]: "length (be64 h) = 8" "length (be32 i) = 4" "length (le32 i) = 4"
  by (simp_all add: be64_def be32_def le32_def)

lemma from_be [simp, key_simps]: "from_be64 (be64 h) = h" "from_be32 (be32 i) = i" "from_le32 (le32 i) = i"
  by (simp_all add: be64_def be32_def le32_def from_be64_def from_be32_def from_le32_def
      be_value_be_bytes)

lemma be_inject [simp]: "be64 h = be64 h' \<longleftrightarrow> h = h'" "be32 i = be32 i' \<longleftrightarrow> i = i'"
  by (metis from_be(1), metis from_be(2))

lemma be64_from_be64: "length bs = 8 \<Longrightarrow> be64 (from_be64 bs) = bs"
  using be_bytes_be_value [of bs] be_value_less [of bs]
  by (simp add: be64_def from_be64_def unat_of_nat)

lemma be32_from_be32: "length bs = 4 \<Longrightarrow> be32 (from_be32 bs) = bs"
  using be_bytes_be_value [of bs] be_value_less [of bs]
  by (simp add: be32_def from_be32_def unat_of_nat)

lemma le32_from_le32: "length bs = 4 \<Longrightarrow> le32 (from_le32 bs) = bs"
  using be32_from_be32 [of "rev bs"] by (simp add: le32_def from_le32_def)

lemma be64_less_iff: "be64 h < be64 h' \<longleftrightarrow> h < h'"
  by (simp add: be64_def be_bytes_less_iff word_less_nat_alt)

lemma be32_less_iff: "be32 i < be32 i' \<longleftrightarrow> i < i'"
  by (simp add: be32_def be_bytes_less_iff word_less_nat_alt)

lemma be64_append_less_iff: "be64 h @ xs < be64 h' @ ys \<longleftrightarrow> h < h' \<or> h = h' \<and> xs < ys"
  by (simp add: append_less_iff be64_less_iff)

end
