(* ===== verification/Errors.thy ===== *)
theory Errors
  imports Prelude
begin

section \<open>Errors and fallible computations (\<^verbatim>\<open>src/error.rs\<close>)\<close>

text \<open>
  The crate-wide error type with its JSON-RPC codes, and the result type of every fallible
  operation of the model. A Rust \<^verbatim>\<open>Result\<close> is a sum whose left side is a
  \<open>failure\<close>: an error value the code returns, or a panic (an out-of-range index, a
  length mismatch in \<^verbatim>\<open>copy_from_slice\<close>). Messages keep the fixed part of
  the format string; the text a third-party error adds to it is left out.
\<close>

datatype error =
    ParseError string
  | InvalidRequest string
  | BadParams string
  | BadHex string
  | BadAddressLen nat
  | UnknownMethod string
  | Unauthorized
  | NotYetIndexed u64 u64
  | UpstreamUnreachable string
  | UpstreamRpc "32 word" string
  | Storage string
  | Internal string

fun rpc_code :: "error \<Rightarrow> int" where
  "rpc_code (ParseError _) = - 32700"
| "rpc_code (InvalidRequest _) = - 32600"
| "rpc_code (UnknownMethod _) = - 32601"
| "rpc_code (BadParams _) = - 32602"
| "rpc_code (BadHex _) = - 32602"
| "rpc_code (BadAddressLen _) = - 32602"
| "rpc_code Unauthorized = - 32001"
| "rpc_code (UpstreamUnreachable _) = - 32020"
| "rpc_code (UpstreamRpc _ _) = - 32020"
| "rpc_code (NotYetIndexed _ _) = - 32002"
| "rpc_code (Storage _) = - 32603"
| "rpc_code (Internal _) = - 32603"

text \<open>The optional data object: its two numbers.\<close>

fun rpc_data :: "error \<Rightarrow> (u64 \<times> u64) option" where
  "rpc_data (NotYetIndexed follower_height asked) = Some (follower_height, asked)"
| "rpc_data _ = None"


subsection \<open>Messages\<close>

text \<open>Numbers as \<^verbatim>\<open>format!\<close> writes them: decimal digits, a minus sign for a negative i32.\<close>

definition digit :: "nat \<Rightarrow> char" where
  "digit n = char_of (48 + n)"

fun decimal :: "nat \<Rightarrow> string" where
  "decimal n = (if n < 10 then [digit n] else decimal (n div 10) @ [digit (n mod 10)])"

declare decimal.simps [simp del]

definition decimal_i32 :: "32 word \<Rightarrow> string" where
  "decimal_i32 w = (if sint w < 0 then ''-'' @ decimal (nat (- sint w)) else decimal (nat (sint w)))"

text \<open>The \<^verbatim>\<open>Display\<close> implementation: the format strings of the enum's attributes.\<close>

fun display :: "error \<Rightarrow> string" where
  "display (ParseError s) = ''parse error: '' @ s"
| "display (InvalidRequest s) = ''invalid request: '' @ s"
| "display (BadParams s) = ''invalid params: '' @ s"
| "display (BadHex s) = ''invalid hex: '' @ s"
| "display (BadAddressLen n) = ''invalid address: expected 32 bytes (64 hex chars), got '' @ decimal n @ '' bytes''"
| "display (UnknownMethod s) = ''unknown method: '' @ s"
| "display Unauthorized = ''authentication required''"
| "display (NotYetIndexed follower_height asked) =
     ''requested data not yet indexed (follower at height '' @ decimal (unat follower_height) @ '', asked for '' @
     decimal (unat asked) @ '')''"
| "display (UpstreamUnreachable s) = ''upstream node unreachable: '' @ s"
| "display (UpstreamRpc code message) = ''upstream node returned error code '' @ decimal_i32 code @ '': '' @ message"
| "display (Storage s) = ''storage error: '' @ s"
| "display (Internal s) = ''internal error: '' @ s"

text \<open>The five redb errors, each with the text it prints, and their conversion.\<close>

datatype redb_error =
    DatabaseError string
  | TransactionError string
  | TableError string
  | StorageError string
  | CommitError string

fun from_redb :: "redb_error \<Rightarrow> error" where
  "from_redb (DatabaseError e) = Storage e"
| "from_redb (TransactionError e) = Storage e"
| "from_redb (TableError e) = Storage e"
| "from_redb (StorageError e) = Storage e"
| "from_redb (CommitError e) = Storage e"

text \<open>Reading a decimal number back.\<close>

definition undecimal :: "string \<Rightarrow> nat" where
  "undecimal s = foldl (\<lambda>a c. 10 * a + (of_char c - 48)) 0 s"

definition is_digit :: "char \<Rightarrow> bool" where
  "is_digit c \<longleftrightarrow> (of_char c :: nat) \<in> {48..57}"

lemma of_char_digit [simp]: "n < 10 \<Longrightarrow> of_char (digit n) = 48 + n"
  by (simp add: digit_def)

lemma decimal_props: "undecimal (decimal n) = n \<and> list_all is_digit (decimal n) \<and> decimal n \<noteq> []"
proof (induction n rule: decimal.induct)
  case (1 n)
  show ?case
  proof (cases "n < 10")
    case True
    then show ?thesis by (simp add: decimal.simps [of n] undecimal_def is_digit_def)
  next
    case False
    then have IH: "undecimal (decimal (n div 10)) = n div 10" "list_all is_digit (decimal (n div 10))" using 1 by simp_all
    have d: "decimal n = decimal (n div 10) @ [digit (n mod 10)]" using False by (simp add: decimal.simps [of n])
    have "undecimal (decimal n) = 10 * undecimal (decimal (n div 10)) + n mod 10" by (simp add: d undecimal_def)
    moreover have "is_digit (digit (n mod 10))" by (simp add: is_digit_def)
    ultimately show ?thesis using IH by (simp add: d)
  qed
qed

lemma decimal_digits: "c \<in> set (decimal n) \<Longrightarrow> is_digit c"
  using decimal_props [of n] by (simp add: list_all_iff)

text \<open>A number is read back from the text that starts with it, if no digit follows it.\<close>

lemma decimal_append_inject:
  assumes "\<not> is_digit c" "\<not> is_digit c'"
  shows "decimal m @ c # s = decimal n @ c' # t \<longleftrightarrow> m = n \<and> c = c' \<and> s = t"
proof
  assume eq: "decimal m @ c # s = decimal n @ c' # t"
  have take: "takeWhile is_digit (decimal k @ d # r) = decimal k" if "\<not> is_digit d" for k d r
    using that by (subst takeWhile_append2) (auto dest: decimal_digits)
  have "decimal m = decimal n" using arg_cong [OF eq, of "takeWhile is_digit"] assms by (simp add: take)
  then have "m = n" using decimal_props by metis
  with eq show "m = n \<and> c = c' \<and> s = t" by simp
qed simp

lemma decimal_inject [simp]: "decimal m = decimal n \<longleftrightarrow> m = n"
  using decimal_props by metis

lemma decimal_i32_append_inject:
  assumes "\<not> is_digit c" "\<not> is_digit c'"
  shows "decimal_i32 v @ c # s = decimal_i32 w @ c' # t \<longleftrightarrow> v = w \<and> c = c' \<and> s = t"
proof -
  have sign: "decimal m @ x \<noteq> CHR ''-'' # y" for m x y
  proof
    assume eq: "decimal m @ x = CHR ''-'' # y"
    then have "hd (decimal m) = CHR ''-''" using decimal_props [of m] by (cases "decimal m") auto
    moreover have "is_digit (hd (decimal m))" using decimal_props [of m] decimal_digits hd_in_set by blast
    ultimately show False by (simp add: is_digit_def)
  qed
  have "nat (sint v) = nat (sint w) \<longleftrightarrow> v = w" if "0 \<le> sint v" "0 \<le> sint w"
    using that by (metis eq_nat_nat_iff signed_word_eqI)
  moreover have "nat (- sint v) = nat (- sint w) \<longleftrightarrow> v = w" if "sint v < 0" "sint w < 0"
    using that signed_word_eqI [of v w] eq_nat_nat_iff [of "- sint v" "- sint w"] by auto
  ultimately show ?thesis
    using sign sign [symmetric] by (auto simp: decimal_i32_def decimal_append_inject [OF assms])
qed

text \<open>The message of an error identifies it: no two errors print the same, so a client that only reads the
  \<open>message\<close> member can still tell which error it was, the lengths, heights and codes in it
  included.\<close>

theorem display_identifies: "display e = display e' \<longleftrightarrow> e = e'"
proof -
  have "\<not> is_digit CHR '' ''" "\<not> is_digit CHR '',''" "\<not> is_digit CHR '')''" "\<not> is_digit CHR '':''"
    by (simp_all add: is_digit_def)
  then show ?thesis
    by (cases e; cases e') (simp_all add: decimal_append_inject decimal_i32_append_inject word_unat_eq_iff)
qed


subsection \<open>Results\<close>

datatype failure = Fail error | Panic

type_synonym 'a res = "failure + 'a"

named_theorems res_simps \<open>how a sequence of fallible steps is taken apart\<close>

text \<open>The \<^verbatim>\<open>?\<close> operator: stop at the first failure.\<close>

definition bind_res :: "'a res \<Rightarrow> ('a \<Rightarrow> 'b res) \<Rightarrow> 'b res" where
  "bind_res m f = (case m of Inl e \<Rightarrow> Inl e | Inr x \<Rightarrow> f x)"

lemma bind_res_simps [simp]:
  "bind_res (Inl e) f = Inl e"
  "bind_res (Inr x) f = f x"
  by (simp_all add: bind_res_def)

lemma bind_res_eq_Inr_iff [res_simps]: "bind_res m f = Inr y \<longleftrightarrow> (\<exists>x. m = Inr x \<and> f x = Inr y)"
  by (cases m) simp_all

lemma bind_res_eq_Inl_iff [res_simps]:
  "bind_res m f = Inl e \<longleftrightarrow> m = Inl e \<or> (\<exists>x. m = Inr x \<and> f x = Inl e)"
  by (cases m) simp_all

lemma bind_res_cong [fundef_cong]:
  "m = m' \<Longrightarrow> (\<And>x. m' = Inr x \<Longrightarrow> f x = f' x) \<Longrightarrow> bind_res m f = bind_res m' f'"
  by (cases m') simp_all

text \<open>\<^verbatim>\<open>ok_or\<close>: an absent value is the given error.\<close>

definition ok_or :: "'a option \<Rightarrow> error \<Rightarrow> 'a res" where
  "ok_or x e = (case x of None \<Rightarrow> Inl (Fail e) | Some v \<Rightarrow> Inr v)"

lemma ok_or_simps [simp]: "ok_or None e = Inl (Fail e)" "ok_or (Some x) e = Inr x"
  by (simp_all add: ok_or_def)

lemma ok_or_eq_Inr_iff [res_simps]: "ok_or x e = Inr y \<longleftrightarrow> x = Some y"
  by (cases x) simp_all

text \<open>
  What panics when the caller has not checked a length: a slice or an index out of range,
  \<^verbatim>\<open>copy_from_slice\<close> from a slice of another length than the array's, and
  \<^verbatim>\<open>try_into().unwrap()\<close> into the eight or four bytes of an integer.
\<close>

definition slice_range :: "nat \<Rightarrow> nat \<Rightarrow> 'a list \<Rightarrow> 'a list res" where
  "slice_range i j xs = (if i \<le> j \<and> j \<le> length xs then Inr (subslice i j xs) else Inl Panic)"

definition slice_from :: "nat \<Rightarrow> 'a list \<Rightarrow> 'a list res" where
  "slice_from i xs = (if i \<le> length xs then Inr (drop i xs) else Inl Panic)"

definition byte_at :: "nat \<Rightarrow> 'a list \<Rightarrow> 'a res" where
  "byte_at i xs = (if i < length xs then Inr (xs ! i) else Inl Panic)"

definition copy_from_slice :: "u8 list \<Rightarrow> 'n::len bytes res" where
  "copy_from_slice bs = (case array_of bs of Some a \<Rightarrow> Inr a | None \<Rightarrow> Inl Panic)"

definition u64_from_be_slice :: "u8 list \<Rightarrow> u64 res" where
  "u64_from_be_slice bs = (if length bs = 8 then Inr (from_be64 bs) else Inl Panic)"

definition u32_from_be_slice :: "u8 list \<Rightarrow> u32 res" where
  "u32_from_be_slice bs = (if length bs = 4 then Inr (from_be32 bs) else Inl Panic)"

lemma slices_in_range [simp]:
  "i \<le> j \<Longrightarrow> j \<le> length xs \<Longrightarrow> slice_range i j xs = Inr (subslice i j xs)"
  "i \<le> length xs \<Longrightarrow> slice_from i xs = Inr (drop i xs)"
  "i < length xs \<Longrightarrow> byte_at i xs = Inr (xs ! i)"
  "length bs = LENGTH('n) \<Longrightarrow> (copy_from_slice bs :: 'n::len bytes res) = Inr (Bytes bs)"
  "length bs = 8 \<Longrightarrow> u64_from_be_slice bs = Inr (from_be64 bs)"
  "length bs = 4 \<Longrightarrow> u32_from_be_slice bs = Inr (from_be32 bs)"
  by (simp_all add: slice_range_def slice_from_def byte_at_def copy_from_slice_def array_of_def u64_from_be_slice_def u32_from_be_slice_def)

lemma copy_from_slice_eq_Inr_iff [res_simps]: "copy_from_slice bs = Inr a \<longleftrightarrow> bs = byte_list a"
  by (auto simp: copy_from_slice_def array_of_eq_Some_iff split: option.split)

lemma copy_from_slice_eq_Inl_iff: "(copy_from_slice bs :: 'n::len bytes res) = Inl e \<longleftrightarrow> e = Panic \<and> length bs \<noteq> LENGTH('n)"
  by (auto simp: copy_from_slice_def array_of_eq_None_iff split: option.split) (simp add: array_of_def split: if_splits)

text \<open>A \<^verbatim>\<open>for\<close> loop whose body ends in \<^verbatim>\<open>?\<close>.\<close>

fun fold_res :: "('a \<Rightarrow> 's \<Rightarrow> 's res) \<Rightarrow> 'a list \<Rightarrow> 's \<Rightarrow> 's res" where
  "fold_res f [] s = Inr s"
| "fold_res f (x # xs) s = bind_res (f x s) (fold_res f xs)"

text \<open>A loop that collects the results of a fallible body.\<close>

fun map_res :: "('a \<Rightarrow> 'b res) \<Rightarrow> 'a list \<Rightarrow> 'b list res" where
  "map_res f [] = Inr []"
| "map_res f (x # xs) = bind_res (f x) (\<lambda>y. bind_res (map_res f xs) (\<lambda>ys. Inr (y # ys)))"

lemma fold_res_append: "fold_res f (xs @ ys) s = bind_res (fold_res f xs s) (fold_res f ys)"
  by (induction xs arbitrary: s) (auto simp: bind_res_def split: sum.splits)

text \<open>An invariant under which every step succeeds: the loop is a plain fold and keeps it.\<close>

lemma fold_res_total:
  assumes "\<And>x s. x \<in> set xs \<Longrightarrow> I s \<Longrightarrow> f x s = Inr (g x s) \<and> I (g x s)"
    and "I s"
  shows "fold_res f xs s = Inr (fold g xs s) \<and> I (fold g xs s)"
  using assms
proof (induction xs arbitrary: s)
  case (Cons x xs)
  have step: "f x s = Inr (g x s)" "I (g x s)"
    using Cons.prems by simp_all
  have "fold_res f xs (g x s) = Inr (fold g xs (g x s)) \<and> I (fold g xs (g x s))"
    using Cons.prems(1) step(2) by (intro Cons.IH) simp_all
  then show ?case using step(1) by simp
qed simp

lemma fold_res_invariant:
  assumes "fold_res f xs s = Inr s'" and "I s"
    and "\<And>x s s'. x \<in> set xs \<Longrightarrow> I s \<Longrightarrow> f x s = Inr s' \<Longrightarrow> I s'"
  shows "I s'"
  using assms
proof (induction xs arbitrary: s)
  case (Cons x xs)
  then obtain s1 where "f x s = Inr s1" "fold_res f xs s1 = Inr s'"
    by (auto simp: bind_res_eq_Inr_iff)
  then show ?case using Cons.IH [of s1] Cons.prems by auto
qed simp

lemma map_res_total:
  assumes "\<And>x. x \<in> set xs \<Longrightarrow> f x = Inr (g x)"
  shows "map_res f xs = Inr (map g xs)"
  using assms by (induction xs) simp_all

lemma map_res_eq_Inr_iff: "map_res f xs = Inr ys \<longleftrightarrow> list_all2 (\<lambda>x y. f x = Inr y) xs ys"
  by (induction xs arbitrary: ys) (auto simp: bind_res_eq_Inr_iff list_all2_Cons1)

end
