(* ===== verification/Tables.thy ===== *)
theory Tables
  imports Errors
begin

section \<open>Tables, stored values and scans\<close>

text \<open>
  The persistent state of the indexer is a set of redb tables. redb itself is a third-party
  engine; what the code relies on is the interface of a table: a finite map from keys to
  values that is read back in key order. The locale \<open>ordered_table\<close> states that
  interface (the calls \<^verbatim>\<open>get\<close>, \<^verbatim>\<open>insert\<close>,
  \<^verbatim>\<open>remove\<close>, \<^verbatim>\<open>iter\<close> and \<^verbatim>\<open>range\<close>
  with the documented laws) and proves what the clients need from it; the model's tables,
  finite maps, interpret it. Values are stored as blobs written and read by bincode, which
  is not under the source either: a codec is a parameter, a pair of functions, and
  \<open>codec_ok\<close> states its round trip.
\<close>

named_theorems table_simps \<open>reading a table after a write\<close>


subsection \<open>The table interface\<close>

locale ordered_table =
  fixes tget :: "'t \<Rightarrow> 'k::linorder \<Rightarrow> 'v option"
    and tinsert :: "'t \<Rightarrow> 'k \<Rightarrow> 'v \<Rightarrow> 't"
    and tremove :: "'t \<Rightarrow> 'k \<Rightarrow> 't"
    and titer :: "'t \<Rightarrow> ('k \<times> 'v) list"
    and trange :: "'t \<Rightarrow> 'k \<Rightarrow> 'k \<Rightarrow> ('k \<times> 'v) list"
  assumes get_insert: "tget (tinsert t k v) k' = (if k' = k then Some v else tget t k')"
    and get_remove: "tget (tremove t k) k' = (if k' = k then None else tget t k')"
    and iter_sorted: "sorted_wrt (<) (map fst (titer t))"
    and iter_iff: "(k, v) \<in> set (titer t) \<longleftrightarrow> tget t k = Some v"
    and range_iter: "trange t lo hi = filter (\<lambda>(k, _). lo \<le> k \<and> k \<le> hi) (titer t)"
    and table_ext: "(\<And>k. tget t k = tget t' k) \<Longrightarrow> t = t'"
begin

lemma insert_twice: "tinsert (tinsert t k v) k v = tinsert t k v"
  by (rule table_ext) (simp add: get_insert)

lemma insert_remove_commute: "k \<noteq> k' \<Longrightarrow> tremove (tinsert t k v) k' = tinsert (tremove t k') k v"
  by (rule table_ext) (auto simp: get_insert get_remove)

lemma iter_distinct: "distinct (map fst (titer t))"
  using iter_sorted [of t] by (simp add: strict_sorted_iff)

lemma range_sorted: "sorted_wrt (<) (map fst (trange t lo hi))"
  using iter_sorted [of t] by (simp add: range_iter sorted_wrt_map sorted_wrt_filter)

lemma range_iff: "(k, v) \<in> set (trange t lo hi) \<longleftrightarrow> tget t k = Some v \<and> lo \<le> k \<and> k \<le> hi"
  by (simp add: range_iter iter_iff)

lemma in_range_keys: "k \<in> set (map fst (trange t lo hi)) \<longleftrightarrow> tget t k \<noteq> None \<and> lo \<le> k \<and> k \<le> hi"
proof -
  have "k \<in> set (map fst (trange t lo hi)) \<longleftrightarrow> (\<exists>v. (k, v) \<in> set (trange t lo hi))"
    by force
  then show ?thesis by (simp add: range_iff)
qed

text \<open>Collect the victims, then remove them one by one: what is left is the rest.\<close>

lemma get_remove_all: "tget (fold (\<lambda>k t. tremove t k) ks t) k = (if k \<in> set ks then None else tget t k)"
  by (induction ks arbitrary: t) (auto simp: get_remove)

lemma get_wipe:
  "tget (fold (\<lambda>k t. tremove t k) (map fst (filter P (titer t))) t) k =
     (case tget t k of None \<Rightarrow> None | Some v \<Rightarrow> if P (k, v) then None else Some v)"
proof -
  have "k \<in> fst ` {x \<in> set (titer t). P x} \<longleftrightarrow> (\<exists>v. tget t k = Some v \<and> P (k, v))"
    by (force simp flip: iter_iff)
  then show ?thesis
    by (auto simp: get_remove_all split: option.splits)
qed

text \<open>Writing a list of rows: the last row of a key wins, and writing them again changes nothing.\<close>

lemma get_insert_all:
  "tget (fold (\<lambda>x t. tinsert t (key x) (val x)) xs t) k =
     (case filter (\<lambda>x. key x = k) xs of [] \<Rightarrow> tget t k | _ \<Rightarrow> Some (val (last (filter (\<lambda>x. key x = k) xs))))"
  by (induction xs arbitrary: t) (auto simp: get_insert split: list.splits)

lemma insert_all_twice:
  "fold (\<lambda>x t. tinsert t (key x) (val x)) xs (fold (\<lambda>x t. tinsert t (key x) (val x)) xs t) =
     fold (\<lambda>x t. tinsert t (key x) (val x)) xs t"
  by (rule table_ext) (simp add: get_insert_all split: list.splits)

end


subsection \<open>The tables of the model\<close>

type_synonym ('k, 'v) table = "('k, 'v) fmap"

definition t_get :: "('k, 'v) table \<Rightarrow> 'k \<Rightarrow> 'v option" where
  "t_get t k = fmlookup t k"

definition t_insert :: "('k, 'v) table \<Rightarrow> 'k \<Rightarrow> 'v \<Rightarrow> ('k, 'v) table" where
  "t_insert t k v = fmupd k v t"

definition t_remove :: "('k, 'v) table \<Rightarrow> 'k \<Rightarrow> ('k, 'v) table" where
  "t_remove t k = fmdrop k t"

definition t_iter :: "('k::linorder, 'v) table \<Rightarrow> ('k \<times> 'v) list" where
  "t_iter t = sorted_list_of_fmap t"

definition t_range :: "('k::linorder, 'v) table \<Rightarrow> 'k \<Rightarrow> 'k \<Rightarrow> ('k \<times> 'v) list" where
  "t_range t lo hi = filter (\<lambda>(k, _). lo \<le> k \<and> k \<le> hi) (t_iter t)"

definition t_len :: "('k, 'v) table \<Rightarrow> nat" where
  "t_len t = fcard (fmdom t)"

definition t_empty :: "('k, 'v) table" where
  "t_empty = fmempty"

lemma map_fst_t_iter: "map fst (t_iter t) = sorted_list_of_fset (fmdom t)"
  by (simp add: t_iter_def sorted_list_of_fmap_def comp_def)

lemma strict_sorted_list_of_fset: "sorted_wrt (<) (sorted_list_of_fset S)"
  by (simp add: sorted_list_of_fset.rep_eq)

interpretation redb: ordered_table t_get t_insert t_remove t_iter t_range
proof
  fix t t' :: "('k::linorder, 'v) table" and k k' v lo hi
  show "t_get (t_insert t k v) k' = (if k' = k then Some v else t_get t k')"
    by (simp add: t_get_def t_insert_def)
  show "t_get (t_remove t k) k' = (if k' = k then None else t_get t k')"
    by (simp add: t_get_def t_remove_def)
  show "sorted_wrt (<) (map fst (t_iter t))"
    by (simp add: map_fst_t_iter strict_sorted_list_of_fset)
  show "(k, v) \<in> set (t_iter t) \<longleftrightarrow> t_get t k = Some v"
    by (auto simp: t_iter_def sorted_list_of_fmap_def t_get_def fmlookup_dom_iff image_iff)
  show "t_range t lo hi = filter (\<lambda>(k, _). lo \<le> k \<and> k \<le> hi) (t_iter t)"
    by (rule t_range_def)
  show "t = t'" if "\<And>k. t_get t k = t_get t' k"
    using that by (intro fmap_ext) (simp add: t_get_def)
qed

lemma table_eqI: "(\<And>k. t_get t k = t_get t' k) \<Longrightarrow> t = t'"
  by (rule fmap_ext) (simp add: t_get_def)

lemma t_get_insert [simp, table_simps]: "t_get (t_insert t k v) k' = (if k' = k then Some v else t_get t k')"
  by (auto simp: t_get_def t_insert_def)

lemma t_get_remove [simp, table_simps]: "t_get (t_remove t k) k' = (if k' = k then None else t_get t k')"
  by (auto simp: t_get_def t_remove_def)

lemma t_get_empty [simp, table_simps]: "t_get t_empty k = None"
  by (simp add: t_get_def t_empty_def)

lemma t_iter_empty [simp]: "t_iter t_empty = []"
  by (simp add: t_iter_def t_empty_def sorted_list_of_fmap_def sorted_list_of_fset.rep_eq)

lemma t_iter_insert:
  "t_iter (t_insert t k v) =
     map (\<lambda>k'. (k', if k' = k then v else the (t_get t k'))) (insort k (remove1 k (map fst (t_iter t))))"
proof -
  have "sorted_list_of_fset (finsert k S) = insort k (remove1 k (sorted_list_of_fset S))" for S :: "'a fset"
    by (simp add: sorted_list_of_fset.rep_eq sorted_list_of_set.fold_insort_key.insert_remove
        sorted_list_of_set.sorted_key_list_of_set_remove flip: sorted_list_of_set_remove)
  then show ?thesis
    unfolding map_fst_t_iter
    by (auto simp: t_iter_def t_insert_def t_get_def sorted_list_of_fmap_def)
qed


subsection \<open>Scans by prefix\<close>

text \<open>When all keys have the full length, the range of a prefix is the filter by that prefix.\<close>

lemma t_range_prefix:
  assumes "\<And>k v. t_get t k = Some v \<Longrightarrow> length k = n" and "length p \<le> n"
  shows "t_range t (prefix_lo n p) (prefix_hi n p) = filter (\<lambda>(k, _). take (length p) k = p) (t_iter t)"
  unfolding t_range_def
proof (rule filter_cong [OF refl])
  fix kv assume "kv \<in> set (t_iter t)"
  then have "t_get t (fst kv) = Some (snd kv)"
    by (simp flip: redb.iter_iff)
  then have "length (fst kv) = n"
    by (rule assms(1))
  then show "(case kv of (k, _) \<Rightarrow> prefix_lo n p \<le> k \<and> k \<le> prefix_hi n p) =
      (case kv of (k, _) \<Rightarrow> take (length p) k = p)"
    using assms(2) by (simp add: case_prod_beta prefix_bounds_iff)
qed


subsection \<open>Codecs and typed reads\<close>

record ('x, 'b) codec =
  ser :: "'x \<Rightarrow> 'b option"
  de :: "'b \<Rightarrow> 'x option"

text \<open>Every value has an encoding, and decoding it gives the value back.\<close>

definition codec_ok :: "('x, 'b) codec \<Rightarrow> bool" where
  "codec_ok c \<longleftrightarrow> (\<forall>x. Option.bind (ser c x) (de c) = Some x)"

lemma codec_okE:
  assumes "codec_ok c"
  obtains b where "ser c x = Some b" and "de c b = Some x"
  using assms by (auto simp: codec_ok_def bind_eq_Some_conv)

text \<open>
  \<^verbatim>\<open>t.get(key)?\<close> followed by \<^verbatim>\<open>bincode::deserialize\<close>: no row,
  an undecodable row (a storage error), or a record.
\<close>

definition get_rec :: "('x, 'b) codec \<Rightarrow> string \<Rightarrow> ('k, 'b) table \<Rightarrow> 'k \<Rightarrow> 'x option res" where
  "get_rec c msg t k =
     (case t_get t k of
        None \<Rightarrow> Inr None
      | Some b \<Rightarrow> bind_res (ok_or (de c b) (Storage msg)) (\<lambda>x. Inr (Some x)))"

text \<open>The records a table holds, as a map: a row that does not decode holds none.\<close>

definition t_recs :: "('x, 'b) codec \<Rightarrow> ('k, 'b) table \<Rightarrow> 'k \<rightharpoonup> 'x" where
  "t_recs c t k = Option.bind (t_get t k) (de c)"

text \<open>
  Every row is what the encoder writes for the record it decodes to. The code only ever
  stores encodings, so this is an invariant of every table; with it a table is determined
  by the records it holds.
\<close>

definition encoded :: "('x, 'b) codec \<Rightarrow> ('k, 'b) table \<Rightarrow> bool" where
  "encoded c t \<longleftrightarrow> (\<forall>k b. t_get t k = Some b \<longrightarrow> (\<exists>x. de c b = Some x \<and> ser c x = Some b))"

lemma encodedD: "encoded c t \<Longrightarrow> t_get t k = Some b \<Longrightarrow> \<exists>x. de c b = Some x \<and> ser c x = Some b"
  by (simp add: encoded_def)

lemma encoded_get: "encoded c t \<Longrightarrow> t_get t k = Some b \<longleftrightarrow> (\<exists>x. t_recs c t k = Some x \<and> ser c x = Some b)"
  by (auto simp: t_recs_def bind_eq_Some_conv dest: encodedD)

lemma encoded_get_None: "encoded c t \<Longrightarrow> t_get t k = None \<longleftrightarrow> t_recs c t k = None"
  by (cases "t_get t k") (auto simp: t_recs_def dest: encodedD)

lemma get_rec_encoded: "encoded c t \<Longrightarrow> get_rec c msg t k = Inr (t_recs c t k)"
  by (auto simp: get_rec_def t_recs_def split: option.splits dest: encodedD)

lemma encoded_insert: "encoded c t \<Longrightarrow> ser c x = Some b \<Longrightarrow> de c b = Some x \<Longrightarrow> encoded c (t_insert t k b)"
  by (auto simp: encoded_def)

lemma encoded_remove: "encoded c t \<Longrightarrow> encoded c (t_remove t k)"
  by (auto simp: encoded_def)

lemma encoded_empty [simp]: "encoded c t_empty"
  by (simp add: encoded_def)

lemma encoded_eqI:
  assumes "encoded c t" "encoded c t'" "t_recs c t = t_recs c t'"
  shows "t = t'"
proof (rule table_eqI)
  fix k
  show "t_get t k = t_get t' k"
    using encoded_get [OF assms(1)] encoded_get [OF assms(2)] assms(3)
    by (metis not_Some_eq)
qed

lemma t_recs_SomeD: "t_recs c t k = Some x \<Longrightarrow> \<exists>b. t_get t k = Some b \<and> de c b = Some x"
  by (simp add: t_recs_def bind_eq_Some_conv)

lemma t_recs_insert [table_simps]:
  "de c b = Some x \<Longrightarrow> t_recs c (t_insert t k b) = (t_recs c t)(k \<mapsto> x)"
  by (rule ext) (simp add: t_recs_def)

lemma t_recs_remove [table_simps]: "t_recs c (t_remove t k) = (t_recs c t)(k := None)"
  by (rule ext) (simp add: t_recs_def)

lemma t_recs_empty [simp, table_simps]: "t_recs c t_empty = Map.empty"
  by (rule ext) (simp add: t_recs_def)


subsection \<open>Collecting victims and removing them\<close>

text \<open>
  A scan whose body may fail, skip a row (\<^verbatim>\<open>continue\<close>) or push an element.
\<close>

fun collect_res :: "('a \<Rightarrow> 'y option res) \<Rightarrow> 'a list \<Rightarrow> 'y list res" where
  "collect_res f [] = Inr []"
| "collect_res f (x # xs) =
     bind_res (f x) (\<lambda>r. bind_res (collect_res f xs) (\<lambda>ys.
       Inr (case r of None \<Rightarrow> ys | Some y \<Rightarrow> y # ys)))"

lemma collect_res_total:
  assumes "\<And>x. x \<in> set xs \<Longrightarrow> f x = Inr (g x)"
  shows "collect_res f xs = Inr (List.map_filter g xs)"
  using assms by (induction xs) (auto split: option.splits)

lemma in_map_filter_iff: "y \<in> set (List.map_filter g xs) \<longleftrightarrow> (\<exists>x\<in>set xs. g x = Some y)"
  by (induction xs) (auto split: option.splits)

lemma distinct_map_filter:
  assumes "distinct (map g xs)" "\<forall>x\<in>set xs. \<forall>y. p x = Some y \<longrightarrow> h y = g x"
  shows "distinct (map h (List.map_filter p xs))"
  using assms
proof (induction xs)
  case (Cons x xs)
  then have IH: "distinct (map h (List.map_filter p xs))" and x: "g x \<notin> g ` set xs" by auto
  have "h ` set (List.map_filter p xs) \<subseteq> g ` set xs"
    using Cons.prems(2) by (force simp: in_map_filter_iff)
  with x have "h y \<notin> h ` set (List.map_filter p xs)" if "p x = Some y" for y
    using Cons.prems(2) that by auto
  with IH show ?case by (cases "p x") simp_all
qed simp

definition remove_all :: "('k, 'v) table \<Rightarrow> 'k list \<Rightarrow> ('k, 'v) table" where
  "remove_all t ks = fold (\<lambda>k t. t_remove t k) ks t"

lemma t_get_remove_all [table_simps]: "t_get (remove_all t ks) k = (if k \<in> set ks then None else t_get t k)"
  unfolding remove_all_def by (induction ks arbitrary: t) auto

lemma t_recs_remove_all [table_simps]:
  "t_recs c (remove_all t ks) k = (if k \<in> set ks then None else t_recs c t k)"
  by (simp add: t_recs_def t_get_remove_all)

lemma encoded_remove_all: "encoded c t \<Longrightarrow> encoded c (remove_all t ks)"
  by (simp add: encoded_def t_get_remove_all)


subsection \<open>Tables with typed keys\<close>

text \<open>
  The code builds every key of a table with one key function, applied to the parts of a
  typed key, and every row with one codec. Such a table is a map from typed keys to
  records, its \<open>rows\<close>, and the operations on the bytes are the operations on
  that map.
\<close>

definition rows :: "('x, 'b) codec \<Rightarrow> ('a \<Rightarrow> 'k) \<Rightarrow> ('k, 'b) table \<Rightarrow> 'a \<rightharpoonup> 'x" where
  "rows c enc t = (\<lambda>x. t_recs c t (enc x))"

definition keyed :: "('a \<Rightarrow> 'k) \<Rightarrow> ('k, 'v) table \<Rightarrow> bool" where
  "keyed enc t \<longleftrightarrow> (\<forall>k v. t_get t k = Some v \<longrightarrow> k \<in> range enc)"

definition stored :: "('x, 'b) codec \<Rightarrow> ('a \<Rightarrow> 'k) \<Rightarrow> ('k, 'b) table \<Rightarrow> bool" where
  "stored c enc t \<longleftrightarrow> encoded c t \<and> keyed enc t"

definition dropped :: "('a \<Rightarrow> 'r \<Rightarrow> bool) \<Rightarrow> ('a \<rightharpoonup> 'r) \<Rightarrow> 'a \<rightharpoonup> 'r" where
  "dropped P m = (\<lambda>x. case m x of None \<Rightarrow> None | Some r \<Rightarrow> if P x r then None else Some r)"

lemma dropped_eq_Some_iff: "dropped P m x = Some r \<longleftrightarrow> m x = Some r \<and> \<not> P x r"
  by (auto simp: dropped_def split: option.splits)

lemma stored_empty [simp]: "stored c enc t_empty" "keyed enc t_empty" "rows c enc t_empty = Map.empty"
  by (simp_all add: stored_def keyed_def rows_def)

lemma keyedI: "(\<And>k v. t_get t k = Some v \<Longrightarrow> \<exists>x. k = enc x) \<Longrightarrow> keyed enc t"
  unfolding keyed_def by (blast intro: rangeI)

lemma keyed_insert: "keyed enc t \<Longrightarrow> keyed enc (t_insert t (enc x) v)"
  by (auto simp: keyed_def)

lemma keyed_remove: "keyed enc t \<Longrightarrow> keyed enc (t_remove t k)" "keyed enc t \<Longrightarrow> keyed enc (remove_all t ks)"
  by (auto simp: keyed_def t_get_remove_all)

lemma stored_get_rec: "stored c enc t \<Longrightarrow> get_rec c msg t (enc x) = Inr (rows c enc t x)"
  by (simp add: stored_def rows_def get_rec_encoded)

lemma stored_iterE:
  assumes "stored c enc t" "(k, b) \<in> set (t_iter t)"
  obtains x r where "k = enc x" "rows c enc t x = Some r" "ser c r = Some b" "de c b = Some r"
proof -
  from assms(2) have "t_get t k = Some b"
    by (simp add: redb.iter_iff)
  moreover from this assms(1) obtain x r where "k = enc x" "de c b = Some r" "ser c r = Some b"
    unfolding stored_def keyed_def encoded_def by blast
  ultimately have "k = enc x" "de c b = Some r" "ser c r = Some b" "t_get t (enc x) = Some b"
    by simp_all
  then show ?thesis by (intro that) (auto simp: rows_def t_recs_def)
qed

lemma stored_rowE:
  assumes "rows c enc t x = Some r"
  obtains b where "(enc x, b) \<in> set (t_iter t)" "de c b = Some r"
  using assms by (auto simp: rows_def redb.iter_iff dest: t_recs_SomeD)

lemma stored_eqI:
  assumes "stored c enc t" "stored c enc t'" "rows c enc t = rows c enc t'"
  shows "t = t'"
proof (rule encoded_eqI)
  show "t_recs c t = t_recs c t'"
  proof
    fix k
    show "t_recs c t k = t_recs c t' k"
    proof (cases "k \<in> range enc")
      case True
      then show ?thesis using assms(3) by (auto simp: rows_def fun_eq_iff)
    next
      case False
      then have "t_get t k = None" "t_get t' k = None"
        using assms(1,2) by (meson keyed_def not_Some_eq stored_def)+
      then show ?thesis by (simp add: t_recs_def)
    qed
  qed
qed (use assms in \<open>simp_all add: stored_def\<close>)

locale key_map =
  fixes enc :: "'a \<Rightarrow> 'k"
  assumes enc_inj: "enc x = enc y \<Longrightarrow> x = y"
begin

lemma enc_eq_iff: "enc x = enc y \<longleftrightarrow> x = y"
  using enc_inj by blast

lemma in_keys_iff: "enc x \<in> enc ` A \<longleftrightarrow> x \<in> A"
  by (auto dest: enc_inj)

lemma rows_insert: "de c b = Some r \<Longrightarrow> rows c enc (t_insert t (enc x) b) = (rows c enc t)(x \<mapsto> r)"
  by (rule ext) (simp add: rows_def t_recs_insert enc_eq_iff)

lemma rows_remove: "rows c enc (t_remove t (enc x)) = (rows c enc t)(x := None)"
  by (rule ext) (simp add: rows_def t_recs_remove enc_eq_iff)

lemma stored_insert:
  assumes "stored c enc t" "ser c r = Some b" "de c b = Some r"
  shows "stored c enc (t_insert t (enc x) b)"
  using assms by (simp add: stored_def encoded_insert keyed_insert)

lemma stored_remove: "stored c enc t \<Longrightarrow> stored c enc (t_remove t (enc x))"
  by (simp add: stored_def encoded_remove keyed_remove)

text \<open>Remove a list of keys that are exactly those of the rows with a property.\<close>

lemma stored_wipe:
  assumes "stored c enc t"
    and "\<forall>x r. rows c enc t x = Some r \<longrightarrow> (enc x \<in> set ks \<longleftrightarrow> P x r)"
  shows "stored c enc (remove_all t ks)"
    and "rows c enc (remove_all t ks) = dropped P (rows c enc t)"
proof -
  show "stored c enc (remove_all t ks)"
    using assms(1) by (simp add: stored_def encoded_remove_all keyed_remove)
  show "rows c enc (remove_all t ks) = dropped P (rows c enc t)"
  proof
    fix x
    show "rows c enc (remove_all t ks) x = dropped P (rows c enc t) x"
      using assms(2) by (cases "rows c enc t x") (auto simp: rows_def dropped_def t_recs_remove_all)
  qed
qed

end


subsection \<open>Secondary indexes\<close>

text \<open>
  A secondary index of a primary map: each primary row is listed under at most one index
  key, computed from its primary key and its record, and nothing else is listed.
\<close>

definition indexed :: "('k \<Rightarrow> 'r \<Rightarrow> 'x option) \<Rightarrow> ('x, unit) table \<Rightarrow> ('k \<rightharpoonup> 'r) \<Rightarrow> bool" where
  "indexed idx t m \<longleftrightarrow> (\<forall>x. t_get t x = Some () \<longleftrightarrow> (\<exists>k r. m k = Some r \<and> idx k r = Some x))"

lemma indexedD: "indexed idx t m \<Longrightarrow> t_get t x = Some () \<longleftrightarrow> (\<exists>k r. m k = Some r \<and> idx k r = Some x)"
  by (simp add: indexed_def)

lemma unit_table_eqI:
  assumes "\<And>x. t_get t x = Some () \<longleftrightarrow> t_get t' x = Some ()"
  shows "t = (t' :: ('x, unit) table)"
proof (rule table_eqI)
  fix x
  show "t_get t x = t_get t' x"
    using assms [of x] by (cases "t_get t x"; cases "t_get t' x") auto
qed

text \<open>What is listed after one row of the primary map has changed.\<close>

lemma ex_row_update:
  "(\<exists>k' r'. (m(k \<mapsto> r)) k' = Some r' \<and> Q k' r') \<longleftrightarrow> Q k r \<or> (\<exists>k' r'. k' \<noteq> k \<and> m k' = Some r' \<and> Q k' r')"
  "(\<exists>k' r'. (m(k := None)) k' = Some r' \<and> Q k' r') \<longleftrightarrow> (\<exists>k' r'. k' \<noteq> k \<and> m k' = Some r' \<and> Q k' r')"
  by (metis fun_upd_other fun_upd_same option.inject, metis fun_upd_other fun_upd_same option.distinct(1))

text \<open>The index is a function of the primary map.\<close>

lemma indexed_unique: "indexed idx t m \<Longrightarrow> indexed idx t' m \<Longrightarrow> t = t'"
  by (rule unit_table_eqI) (simp add: indexed_def)

locale secondary_index =
  fixes idx :: "'k \<Rightarrow> 'r \<Rightarrow> 'x option"
  assumes idx_owner: "idx k r = Some x \<Longrightarrow> idx k' r' = Some x \<Longrightarrow> k = k'"
begin

lemma indexed_insert:
  assumes "indexed idx t m" "m k = None" "idx k r = Some x"
  shows "indexed idx (t_insert t x ()) (m(k \<mapsto> r))"
  using assms unfolding indexed_def ex_row_update by (auto; metis option.distinct(1))

lemma indexed_insert_unlisted:
  assumes "indexed idx t m" "m k = None" "idx k r = None"
  shows "indexed idx t (m(k \<mapsto> r))"
  using assms unfolding indexed_def ex_row_update by (auto; metis option.distinct(1))

lemma indexed_delete:
  assumes "indexed idx t m" "m k = Some r" "idx k r = Some x"
  shows "indexed idx (t_remove t x) (m(k := None))"
  using assms unfolding indexed_def ex_row_update by (auto dest: idx_owner; metis idx_owner option.inject)

text \<open>Overwriting a row that is new, or stays under the same index key.\<close>

lemma indexed_overwrite:
  assumes "indexed idx t m" "idx k r = Some x" "\<And>r'. m k = Some r' \<Longrightarrow> idx k r' = Some x"
  shows "indexed idx (t_insert t x ()) (m(k \<mapsto> r))"
  unfolding indexed_def ex_row_update
  using assms(2,3) indexedD [OF assms(1)] by (auto; metis option.inject)

lemma indexed_overwrite_unlisted:
  assumes "indexed idx t m" "idx k r = None" "\<And>r'. m k = Some r' \<Longrightarrow> idx k r' = None"
  shows "indexed idx t (m(k \<mapsto> r))"
  unfolding indexed_def ex_row_update
  using assms(2,3) indexedD [OF assms(1)] by (auto; metis option.distinct(1))

lemma indexed_update:
  assumes "indexed idx t m" "m k = Some r" "idx k r' = idx k r"
  shows "indexed idx t (m(k \<mapsto> r'))"
  using assms unfolding indexed_def ex_row_update by (auto; metis idx_owner option.inject)

lemma indexed_wipe:
  assumes ix: "indexed idx t m"
    and "\<forall>k r x. m k = Some r \<longrightarrow> idx k r = Some x \<longrightarrow> (x \<in> set xs \<longleftrightarrow> P k r)"
  shows "indexed idx (remove_all t xs) (dropped P m)"
  unfolding indexed_def
proof
  fix x
  show "t_get (remove_all t xs) x = Some () \<longleftrightarrow> (\<exists>k r. dropped P m k = Some r \<and> idx k r = Some x)"
    unfolding t_get_remove_all dropped_eq_Some_iff indexedD [OF ix] if_split_mem1
    using indexedD [OF ix, of x] assms(2) by (cases "x \<in> set xs") (simp, metis, simp, metis)
qed

end

lemma indexed_empty [simp]: "indexed idx t_empty Map.empty"
  by (simp add: indexed_def)

end
