(* ===== verification/Keys.thy ===== *)
theory Keys
  imports Tables
begin

section \<open>Key encodings (\<^verbatim>\<open>src/db/mod.rs\<close>, lines 1729-1856)\<close>

text \<open>
  The byte keys of the tables. Every key is a concatenation of fixed-width segments, with
  integers big-endian, so a key can be taken apart again, a prefix scan selects by the
  leading segments, and keys of one prefix are in numeric order of the height segment.
  The locales state what a table's client uses of its key: \<open>key_layout\<close> (fixed
  length, injective), \<open>prefixed_key\<close> (a leading segment to scan by) and
  \<open>heighted_key\<close> (a big-endian height at a fixed offset, to wipe by). Each key
  function of the code interprets those it is used with.
\<close>

text \<open>The lifecycle states of an HTLC, as the code matches on them.\<close>

datatype HtlcState = Locked | LockedExpired | Claimed | Reclaimed | Unknown

definition htlc_primary_key :: "32 bytes \<Rightarrow> u32 \<Rightarrow> u8 list" where
  "htlc_primary_key lock_tx_id output_index = byte_list lock_tx_id @ be32 output_index"

definition composite_key_address_height :: "32 bytes \<Rightarrow> u64 \<Rightarrow> 32 bytes \<Rightarrow> u32 \<Rightarrow> u8 list" where
  "composite_key_address_height addr height tx_id output_index =
     byte_list addr @ be64 height @ byte_list tx_id @ be32 output_index"

definition sender_key :: "32 bytes \<Rightarrow> u64 \<Rightarrow> 32 bytes \<Rightarrow> u32 \<Rightarrow> u8 list" where
  "sender_key sender lock_height lock_tx_id output_index =
     composite_key_address_height sender lock_height lock_tx_id output_index"

definition receiver_key :: "32 bytes \<Rightarrow> u64 \<Rightarrow> 32 bytes \<Rightarrow> u32 \<Rightarrow> u8 list" where
  "receiver_key receiver lock_height lock_tx_id output_index =
     composite_key_address_height receiver lock_height lock_tx_id output_index"

definition hashlock_key :: "32 bytes \<Rightarrow> 32 bytes \<Rightarrow> u32 \<Rightarrow> u8 list" where
  "hashlock_key hash_lock tx_id output_index =
     byte_list hash_lock @ byte_list tx_id @ be32 output_index"

fun state_byte :: "HtlcState \<Rightarrow> u8" where
  "state_byte Locked = 0"
| "state_byte LockedExpired = 1"
| "state_byte Claimed = 2"
| "state_byte Reclaimed = 3"
| "state_byte Unknown = 4"

definition state_key :: "HtlcState \<Rightarrow> u64 \<Rightarrow> 32 bytes \<Rightarrow> u32 \<Rightarrow> u8 list" where
  "state_key state lock_height lock_tx_id output_index =
     [state_byte state] @ be64 lock_height @ byte_list lock_tx_id @ be32 output_index"

definition tx_by_address_key :: "32 bytes \<Rightarrow> u64 \<Rightarrow> 32 bytes \<Rightarrow> u8 \<Rightarrow> u8 list" where
  "tx_by_address_key address height tx_id dir =
     byte_list address @ be64 height @ byte_list tx_id @ [dir]"

definition settlement_by_contract_key :: "32 bytes \<Rightarrow> 32 bytes \<Rightarrow> u64 \<Rightarrow> 32 bytes \<Rightarrow> u8 list" where
  "settlement_by_contract_key contract address height tx_id =
     byte_list contract @ byte_list address @ be64 height @ byte_list tx_id"

definition settlement_by_address_key :: "32 bytes \<Rightarrow> 32 bytes \<Rightarrow> u64 \<Rightarrow> 32 bytes \<Rightarrow> u8 list" where
  "settlement_by_address_key address contract height tx_id =
     byte_list address @ byte_list contract @ be64 height @ byte_list tx_id"

definition spent_by_key :: "32 bytes \<Rightarrow> u32 \<Rightarrow> u8 list" where
  "spent_by_key prev_tx_id output_index = htlc_primary_key prev_tx_id output_index"

definition output_datum_key :: "32 bytes \<Rightarrow> u32 \<Rightarrow> u8 list" where
  "output_datum_key tx_id output_index = htlc_primary_key tx_id output_index"

definition datum_by_quoteid_key :: "16 bytes \<Rightarrow> 32 bytes \<Rightarrow> u32 \<Rightarrow> u8 list" where
  "datum_by_quoteid_key quote_id tx_id output_index =
     byte_list quote_id @ byte_list tx_id @ be32 output_index"

lemmas key_defs =
  htlc_primary_key_def composite_key_address_height_def sender_key_def receiver_key_def
  hashlock_key_def state_key_def tx_by_address_key_def settlement_by_contract_key_def
  settlement_by_address_key_def spent_by_key_def output_datum_key_def datum_by_quoteid_key_def

lemma state_byte_eq_iff [simp]: "state_byte s = state_byte s' \<longleftrightarrow> s = s'"
  by (cases s; cases s') simp_all


subsection \<open>Keys are of fixed length and injective\<close>

lemma length_keys [simp, key_simps]:
  "length (htlc_primary_key t i) = 36"
  "length (composite_key_address_height a h t i) = 76"
  "length (sender_key a h t i) = 76"
  "length (receiver_key a h t i) = 76"
  "length (hashlock_key l t i) = 68"
  "length (state_key s h t i) = 45"
  "length (tx_by_address_key a h t d) = 73"
  "length (settlement_by_contract_key c a h t) = 104"
  "length (settlement_by_address_key a c h t) = 104"
  "length (spent_by_key t i) = 36"
  "length (output_datum_key t i) = 36"
  "length (datum_by_quoteid_key q t i) = 52"
  by (simp_all add: key_defs)

lemma key_inject [simp, key_simps]:
  "htlc_primary_key t i = htlc_primary_key t' i' \<longleftrightarrow> t = t' \<and> i = i'"
  "composite_key_address_height a h t i = composite_key_address_height a' h' t' i' \<longleftrightarrow>
     a = a' \<and> h = h' \<and> t = t' \<and> i = i'"
  "sender_key a h t i = sender_key a' h' t' i' \<longleftrightarrow> a = a' \<and> h = h' \<and> t = t' \<and> i = i'"
  "receiver_key a h t i = receiver_key a' h' t' i' \<longleftrightarrow> a = a' \<and> h = h' \<and> t = t' \<and> i = i'"
  "hashlock_key l t i = hashlock_key l' t' i' \<longleftrightarrow> l = l' \<and> t = t' \<and> i = i'"
  "state_key s h t i = state_key s' h' t' i' \<longleftrightarrow> s = s' \<and> h = h' \<and> t = t' \<and> i = i'"
  "tx_by_address_key a h t d = tx_by_address_key a' h' t' d' \<longleftrightarrow> a = a' \<and> h = h' \<and> t = t' \<and> d = d'"
  "settlement_by_contract_key c a h t = settlement_by_contract_key c' a' h' t' \<longleftrightarrow>
     c = c' \<and> a = a' \<and> h = h' \<and> t = t'"
  "settlement_by_address_key a c h t = settlement_by_address_key a' c' h' t' \<longleftrightarrow>
     a = a' \<and> c = c' \<and> h = h' \<and> t = t'"
  "spent_by_key t i = spent_by_key t' i' \<longleftrightarrow> t = t' \<and> i = i'"
  "output_datum_key t i = output_datum_key t' i' \<longleftrightarrow> t = t' \<and> i = i'"
  "datum_by_quoteid_key q t i = datum_by_quoteid_key q' t' i' \<longleftrightarrow> q = q' \<and> t = t' \<and> i = i'"
  by (simp_all add: key_defs)

text \<open>Every list of the right length is a primary key: its parts can be read back.\<close>

lemma htlc_primary_key_surj:
  assumes "length k = 36"
  obtains t i where "k = htlc_primary_key t i"
proof
  show "k = htlc_primary_key (Bytes (take 32 k)) (from_be32 (drop 32 k))"
    using assms by (simp add: htlc_primary_key_def be32_from_be32)
qed


subsection \<open>What a client relies on of a key\<close>

locale key_layout = key_map enc for enc :: "'a \<Rightarrow> u8 list" +
  fixes len :: nat
  assumes enc_length: "length (enc x) = len"
begin

lemma keyed_length: "keyed enc t \<Longrightarrow> t_get t k = Some v \<Longrightarrow> length k = len"
  by (auto simp: keyed_def enc_length)

end

locale prefixed_key = key_layout enc len for enc :: "'a \<Rightarrow> u8 list" and len +
  fixes pre :: "'a \<Rightarrow> 'p"
    and enc_pre :: "'p \<Rightarrow> u8 list"
  assumes enc_prefix: "take (length (enc_pre p)) (enc x) = enc_pre (pre x)"
    and pre_length: "length (enc_pre p) \<le> len"
    and pre_inj: "enc_pre p = enc_pre q \<Longrightarrow> p = q"
begin

text \<open>The range scan between the prefix with \<open>0x00\<close> and with \<open>0xFF\<close>.\<close>

lemma prefix_range:
  assumes "keyed enc t"
  shows "t_range t (prefix_lo len (enc_pre p)) (prefix_hi len (enc_pre p)) =
     filter (\<lambda>(k, _). take (length (enc_pre p)) k = enc_pre p) (t_iter t)"
  using keyed_length [OF assms] pre_length by (intro t_range_prefix)

lemma prefix_range_iff:
  assumes "keyed enc t"
  shows "(enc x, v) \<in> set (t_range t (prefix_lo len (enc_pre p)) (prefix_hi len (enc_pre p))) \<longleftrightarrow>
     t_get t (enc x) = Some v \<and> pre x = p"
  using pre_inj by (auto simp: prefix_range [OF assms] redb.iter_iff enc_prefix)

end

locale heighted_key = key_layout enc len for enc :: "'a \<Rightarrow> u8 list" and len +
  fixes height :: "'a \<Rightarrow> u64"
    and off :: nat
  assumes enc_height: "from_be64 (subslice off (off + 8) (enc x)) = height x"
    and off_len: "off + 8 \<le> len"
begin

text \<open>The keys whose height segment is above a bound, collected by slicing the raw key.\<close>

lemma victims_iff:
  assumes "m \<le> len"
  shows "enc x \<in> set (map fst (filter (\<lambda>(k, _). m \<le> length k \<and> from_be64 (subslice off (off + 8) k) > keep) (t_iter t))) \<longleftrightarrow>
    t_get t (enc x) \<noteq> None \<and> keep < height x"
  using assms by (force simp: redb.iter_iff enc_length enc_height)

end

lemma subslice_height [key_simps]:
  "from_be64 (subslice 32 40 (tx_by_address_key a h t d)) = h"
  "from_be64 (subslice 64 72 (settlement_by_contract_key c a h t)) = h"
  "from_be64 (subslice 64 72 (settlement_by_address_key a c h t)) = h"
  "from_be64 (subslice 0 8 (be64 h)) = h"
  by (simp_all add: key_defs subslice_def)

text \<open>The key functions on the typed keys.\<close>

type_synonym outpoint = "32 bytes \<times> u32"

abbreviation outpoint_key :: "outpoint \<Rightarrow> u8 list" where
  "outpoint_key \<equiv> \<lambda>(t, i). htlc_primary_key t i"

abbreviation activity_row_key :: "32 bytes \<times> u64 \<times> 32 bytes \<times> u8 \<Rightarrow> u8 list" where
  "activity_row_key \<equiv> \<lambda>(a, h, t, d). tx_by_address_key a h t d"

abbreviation settlement_row_key :: "32 bytes \<times> 32 bytes \<times> u64 \<times> 32 bytes \<Rightarrow> u8 list" where
  "settlement_row_key \<equiv> \<lambda>(c, a, h, t). settlement_by_contract_key c a h t"

interpretation primary_key: key_layout "\<lambda>(t, i). htlc_primary_key t i" 36
  by unfold_locales auto

interpretation meta_key: heighted_key be64 8 "\<lambda>h. h" 0
  by unfold_locales (auto simp: key_simps)

interpretation party_key:
  prefixed_key "\<lambda>(a, h, t, i). composite_key_address_height a h t i" 76 "\<lambda>(a, h, t, i). a" byte_list
  by unfold_locales (auto simp: key_defs)

interpretation hash_key:
  prefixed_key "\<lambda>(l, t, i). hashlock_key l t i" 68 "\<lambda>(l, t, i). l" byte_list
  by unfold_locales (auto simp: key_defs)

interpretation lifecycle_key: key_layout "\<lambda>(s, h, t, i). state_key s h t i" 45
  by unfold_locales auto

interpretation activity_key:
  prefixed_key "\<lambda>(a, h, t, d). tx_by_address_key a h t d" 73 "\<lambda>(a, h, t, d). a" byte_list
  by unfold_locales (auto simp: key_defs)

interpretation activity_height:
  heighted_key "\<lambda>(a, h, t, d). tx_by_address_key a h t d" 73 "\<lambda>(a, h, t, d). h" 32
  by unfold_locales (auto simp: key_simps)

interpretation contract_key:
  prefixed_key "\<lambda>(c, a, h, t). settlement_by_contract_key c a h t" 104
    "\<lambda>(c, a, h, t). (c, a)" "\<lambda>(c, a). byte_list c @ byte_list a"
  by unfold_locales (auto simp: key_defs)

interpretation contract_height:
  heighted_key "\<lambda>(c, a, h, t). settlement_by_contract_key c a h t" 104 "\<lambda>(c, a, h, t). h" 64
  by unfold_locales (auto simp: key_simps)

interpretation observer_key:
  prefixed_key "\<lambda>(a, c, h, t). settlement_by_address_key a c h t" 104 "\<lambda>(a, c, h, t). a" byte_list
  by unfold_locales (auto simp: key_defs)

interpretation observer_contract_key:
  prefixed_key "\<lambda>(a, c, h, t). settlement_by_address_key a c h t" 104
    "\<lambda>(a, c, h, t). (a, c)" "\<lambda>(a, c). byte_list a @ byte_list c"
  by unfold_locales (auto simp: key_defs)

interpretation observer_height:
  heighted_key "\<lambda>(a, c, h, t). settlement_by_address_key a c h t" 104 "\<lambda>(a, c, h, t). h" 64
  by unfold_locales (auto simp: key_simps)

interpretation quote_key:
  prefixed_key "\<lambda>(q, t, i). datum_by_quoteid_key q t i" 52 "\<lambda>(q, t, i). q" byte_list
  by unfold_locales (auto simp: key_defs)


subsection \<open>Key order\<close>

lemma prod_less_iff: "(a, b) < (c, d) \<longleftrightarrow> a < c \<or> a = c \<and> b < d"
  for a c :: "'a::linorder" and b d :: "'b::linorder"
  by (auto simp: less_prod_def)

text \<open>The big-endian key segments make the byte order of address-activity keys the order of
  (address, height, transaction id, direction), and likewise for the settlement keys and the
  sender and receiver keys, so a range scan of a table is a scan in numeric order of the
  height.\<close>

theorem key_order_is_numeric:
  "(tx_by_address_key a h t d < tx_by_address_key a' h' t' d' \<longleftrightarrow> (a, h, t, d) < (a', h', t', d')) \<and>
   (settlement_by_contract_key c a h t < settlement_by_contract_key c' a' h' t' \<longleftrightarrow>
     (c, a, h, t) < (c', a', h', t')) \<and>
   (composite_key_address_height a h t i < composite_key_address_height a' h' t' i' \<longleftrightarrow>
     (a, h, t, i) < (a', h', t', i'))"
  unfolding prod_less_iff key_defs
  by (auto simp: byte_list_append_less_iff be64_append_less_iff be32_less_iff less_bytes_def)

end
