(* ===== verification/Extract.thy ===== *)
theory Extract
  imports Keys
begin

section \<open>Block-level extraction (\<^verbatim>\<open>src/extract.rs\<close>)\<close>

text \<open>
  The pure interpretation of a transaction: HTLC locks, candidate HTLC spends, address
  activity and settlement-datum signals, and the settlement records of a settled HTLC.
  The wire types come from the \<^verbatim>\<open>exfer\<close> crate, which is not under the
  source; the records below hold the fields this code constructs and reads. The functions
  of that crate (transaction id, coinbase test, HTLC parser, program builder and hash,
  address hash, deserialisers) are the parameter \<open>E\<close> of type \<open>exfer\<close>.
\<close>

subsection \<open>Wire types\<close>

record HtlcParams =
  sender :: "32 bytes"
  receiver :: "32 bytes"
  hash_lock :: "32 bytes"
  timeout_height :: u64

text \<open>
  The role of an HTLC. The indexer writes \<open>Observer\<close> and names \<open>Both\<close>;
  the remaining roles of the crate are only compared for equality.
\<close>

datatype HtlcRole = Observer | Both | OtherRole nat

record HtlcClaimRecord =
  c_tx_id :: "32 bytes"
  c_preimage :: "u8 list"
  c_block_height :: u64
  c_input_index :: u32

record HtlcReclaimRecord =
  r_tx_id :: "32 bytes"
  r_block_height :: u64
  r_input_index :: u32

record HtlcRecord =
  lock_tx_id :: "32 bytes"
  output_index :: u32
  params :: HtlcParams
  amount :: u64
  lock_block_height :: "u64 option"
  state :: HtlcState
  claim :: "HtlcClaimRecord option"
  reclaim :: "HtlcReclaimRecord option"
  role :: HtlcRole
  last_indexed_height :: u64

record TxInput =
  prev_tx_id :: "32 bytes"
  prev_output_index :: u32

record TxOutput =
  out_value :: u64
  out_script :: "u8 list"
  out_datum :: "u8 list option"
  out_datum_hash :: "32 bytes option"

text \<open>A transaction: of each witness only its bytes are read.\<close>

record Transaction =
  tx_inputs :: "TxInput list"
  tx_outputs :: "TxOutput list"
  tx_witnesses :: "u8 list list"

record 'p exfer =
  tx_id_of :: "Transaction \<Rightarrow> 32 bytes option"
  is_coinbase :: "Transaction \<Rightarrow> bool"
  deserialize_tx :: "u8 list \<Rightarrow> Transaction option"
  try_parse_htlc :: "u8 list \<Rightarrow> HtlcParams option"
  build_htlc :: "32 bytes \<Rightarrow> 32 bytes \<Rightarrow> 32 bytes \<Rightarrow> u64 \<Rightarrow> 'p"
  deserialize_program :: "u8 list \<Rightarrow> 'p option"
  structural_merkle_hash :: "'p \<Rightarrow> 32 bytes"
  pubkey_hash_from_key :: "32 bytes \<Rightarrow> 32 bytes"


subsection \<open>Constants and extracted events\<close>

definition MIN_HTLC_SCRIPT_BYTES :: nat where
  "MIN_HTLC_SCRIPT_BYTES = 100"

definition VALUE_TAG_LEFT :: u8 where
  "VALUE_TAG_LEFT = 1"

definition VALUE_TAG_RIGHT :: u8 where
  "VALUE_TAG_RIGHT = 2"

definition VALUE_TAG_UNIT :: u8 where
  "VALUE_TAG_UNIT = 0"

definition VALUE_TAG_BYTES :: u8 where
  "VALUE_TAG_BYTES = 5"

definition QUOTE_ID_BYTES :: nat where
  "QUOTE_ID_BYTES = 16"

lemmas extract_consts =
  MIN_HTLC_SCRIPT_BYTES_def VALUE_TAG_LEFT_def VALUE_TAG_RIGHT_def VALUE_TAG_UNIT_def
  VALUE_TAG_BYTES_def QUOTE_ID_BYTES_def

record ExtractedOutputDatum =
  od_tx_id :: "32 bytes"
  od_output_index :: u32
  od_quote_id :: "16 bytes option"
  od_unhonorable :: bool

record ExtractedHtlcLock =
  lk_record :: HtlcRecord
  lk_script :: "u8 list"

datatype HtlcSpendArm =
    Claim "u8 list" "32 bytes" u32
  | Reclaim "32 bytes" u32

record ExtractedHtlcSpend =
  sp_lock_tx_id :: "32 bytes"
  sp_output_index :: u32
  sp_arm :: HtlcSpendArm

record AddressActivity =
  a_address :: "32 bytes"
  a_tx_id :: "32 bytes"
  a_amount :: u64
  a_is_input :: bool
  a_is_coinbase :: bool
  a_counterparties :: "32 bytes list"

record SettlementRecord =
  s_tx_id :: "32 bytes"
  s_block_height :: u64
  s_contract_hash :: "32 bytes"
  s_outcome :: HtlcState
  s_observer_address :: "32 bytes"
  s_counterparty :: "32 bytes"
  s_amount :: u64
  s_lock_tx_id :: "32 bytes"
  s_lock_output_index :: u32

record ExtractedTx =
  x_tx_id :: "32 bytes"
  x_locks :: "ExtractedHtlcLock list"
  x_spends :: "ExtractedHtlcSpend list"
  x_activity :: "AddressActivity list"
  x_output_datums :: "ExtractedOutputDatum list"

text \<open>\<^verbatim>\<open>ExtractedTx::default()\<close>.\<close>

definition ExtractedTx_default :: ExtractedTx where
  "ExtractedTx_default =
     \<lparr>x_tx_id = filled 0, x_locks = [], x_spends = [], x_activity = [], x_output_datums = []\<rparr>"


subsection \<open>Strict settlement-datum decode\<close>

definition strict_decode_quote_id :: "u8 list \<Rightarrow> 16 bytes option" where
  "strict_decode_quote_id datum =
     (if length datum \<noteq> QUOTE_ID_BYTES then None else Some (Bytes datum))"

lemma strict_decode_quote_id_iff: "strict_decode_quote_id d = Some q \<longleftrightarrow> d = byte_list q"
  by (auto simp: strict_decode_quote_id_def QUOTE_ID_BYTES_def)

lemma strict_decode_byte_list [simp]: "strict_decode_quote_id (byte_list q) = Some q"
  by (simp add: strict_decode_quote_id_iff)


subsection \<open>Spend classification\<close>

definition extract_claim_preimage :: "u8 list \<Rightarrow> u8 list option" where
  "extract_claim_preimage witness =
     (if length witness < 7 then None
      else if witness ! 0 \<noteq> VALUE_TAG_LEFT \<or> witness ! 1 \<noteq> VALUE_TAG_UNIT \<or> witness ! 2 \<noteq> VALUE_TAG_BYTES
      then None
      else let len = unat (from_le32 (subslice 3 7 witness))
        in if length witness < 7 + len then None else Some (subslice 7 (7 + len) witness))"

definition classify_spend_arm :: "u8 list \<Rightarrow> 32 bytes \<Rightarrow> u32 \<Rightarrow> HtlcSpendArm option" where
  "classify_spend_arm witness spending_tx_id input_index =
     (if length witness < 2 then None
      else if witness ! 0 = VALUE_TAG_LEFT
        then map_option (\<lambda>preimage. Claim preimage spending_tx_id input_index) (extract_claim_preimage witness)
      else if witness ! 0 = VALUE_TAG_RIGHT then Some (Reclaim spending_tx_id input_index)
      else None)"


subsection \<open>Extraction from a transaction\<close>

text \<open>The settlement-datum signal of one output: the \<^verbatim>\<open>match\<close> on its two datum fields.\<close>

definition extract_datum :: "32 bytes \<Rightarrow> nat \<Rightarrow> TxOutput \<Rightarrow> ExtractedOutputDatum list" where
  "extract_datum tx_id vout output =
     (case (out_datum output, out_datum_hash output) of
        (Some datum, _) \<Rightarrow>
          (case strict_decode_quote_id datum of
             Some quote_id \<Rightarrow>
               [\<lparr>od_tx_id = tx_id, od_output_index = word_of_nat vout, od_quote_id = Some quote_id,
                 od_unhonorable = False\<rparr>]
           | None \<Rightarrow> [])
      | (None, Some _) \<Rightarrow>
          [\<lparr>od_tx_id = tx_id, od_output_index = word_of_nat vout, od_quote_id = None, od_unhonorable = True\<rparr>]
      | (None, None) \<Rightarrow> [])"

text \<open>The activity row of one output: only a 32-byte script is an address.\<close>

definition extract_activity :: "32 bytes \<Rightarrow> bool \<Rightarrow> TxOutput \<Rightarrow> AddressActivity list" where
  "extract_activity tx_id coinbase output =
     (if length (out_script output) = 32
      then [\<lparr>a_address = Bytes (out_script output), a_tx_id = tx_id, a_amount = out_value output,
             a_is_input = False, a_is_coinbase = coinbase, a_counterparties = []\<rparr>]
      else [])"

definition fresh_lock :: "32 bytes \<Rightarrow> u64 \<Rightarrow> nat \<Rightarrow> TxOutput \<Rightarrow> HtlcParams \<Rightarrow> ExtractedHtlcLock" where
  "fresh_lock tx_id height vout output ps =
     \<lparr>lk_record =
        \<lparr>lock_tx_id = tx_id, output_index = word_of_nat vout,
         params = \<lparr>sender = sender ps, receiver = receiver ps, hash_lock = hash_lock ps,
                   timeout_height = timeout_height ps\<rparr>,
         amount = out_value output, lock_block_height = Some height,
         state = (if height > timeout_height ps then LockedExpired else Locked),
         claim = None, reclaim = None, role = Observer, last_indexed_height = height\<rparr>,
      lk_script = out_script output\<rparr>"

definition extract_lock :: "'p exfer \<Rightarrow> 32 bytes \<Rightarrow> u64 \<Rightarrow> nat \<Rightarrow> TxOutput \<Rightarrow> ExtractedHtlcLock list" where
  "extract_lock E tx_id height vout output =
     (if length (out_script output) \<ge> MIN_HTLC_SCRIPT_BYTES
      then (case try_parse_htlc E (out_script output) of
              Some ps \<Rightarrow>
                [fresh_lock tx_id height vout output ps]
            | None \<Rightarrow> [])
      else [])"

definition extract_output ::
  "'p exfer \<Rightarrow> 32 bytes \<Rightarrow> u64 \<Rightarrow> bool \<Rightarrow> nat \<times> TxOutput \<Rightarrow> ExtractedTx \<Rightarrow> ExtractedTx" where
  "extract_output E tx_id height coinbase = (\<lambda>(vout, output) x.
     x\<lparr>x_output_datums := x_output_datums x @ extract_datum tx_id vout output,
       x_activity := x_activity x @ extract_activity tx_id coinbase output,
       x_locks := x_locks x @ extract_lock E tx_id height vout output\<rparr>)"

text \<open>One input: \<^verbatim>\<open>tx.witnesses.get(vin)\<close>, or no bytes when there is no witness.\<close>

definition extract_input ::
  "Transaction \<Rightarrow> 32 bytes \<Rightarrow> bool \<Rightarrow> nat \<times> TxInput \<Rightarrow> ExtractedTx \<Rightarrow> ExtractedTx" where
  "extract_input tx tx_id coinbase = (\<lambda>(vin, inp) x.
     (if coinbase then x
      else let witness = (if vin < length (tx_witnesses tx) then tx_witnesses tx ! vin else [])
        in case classify_spend_arm witness tx_id (word_of_nat vin) of
             Some arm \<Rightarrow>
               x\<lparr>x_spends := x_spends x @ [\<lparr>sp_lock_tx_id = prev_tx_id inp, sp_output_index = prev_output_index inp,
                                          sp_arm = arm\<rparr>]\<rparr>
           | None \<Rightarrow> x))"

definition extract_from_tx :: "'p exfer \<Rightarrow> Transaction \<Rightarrow> u64 \<Rightarrow> u64 \<Rightarrow> ExtractedTx" where
  "extract_from_tx E tx height last_indexed =
     (case tx_id_of E tx of
        None \<Rightarrow> ExtractedTx_default
      | Some tx_id \<Rightarrow>
          (let coinbase = is_coinbase E tx;
               x = fold (extract_output E tx_id height coinbase) (enumerate 0 (tx_outputs tx))
                     (ExtractedTx_default\<lparr>x_tx_id := tx_id\<rparr>)
           in fold (extract_input tx tx_id coinbase) (enumerate 0 (tx_inputs tx)) x))"


subsection \<open>Contract hash and settlements\<close>

definition contract_hash_of_script :: "'p exfer \<Rightarrow> u8 list \<Rightarrow> 32 bytes option" where
  "contract_hash_of_script E script = map_option (structural_merkle_hash E) (deserialize_program E script)"

definition settled_tx_id :: "HtlcRecord \<Rightarrow> 32 bytes option" where
  "settled_tx_id r =
     (case claim r of
        Some c \<Rightarrow> Some (c_tx_id c)
      | None \<Rightarrow> (case reclaim r of Some rc \<Rightarrow> Some (r_tx_id rc) | None \<Rightarrow> None))"

definition derive_address_from_pubkey :: "'p exfer \<Rightarrow> 32 bytes \<Rightarrow> 32 bytes" where
  "derive_address_from_pubkey E pubkey = pubkey_hash_from_key E pubkey"

definition settlements_for_settled_htlc :: "'p exfer \<Rightarrow> HtlcRecord \<Rightarrow> u64 \<Rightarrow> SettlementRecord list" where
  "settlements_for_settled_htlc E r block_height =
     (let program = build_htlc E (sender (params r)) (receiver (params r)) (hash_lock (params r))
                      (timeout_height (params r));
          contract_hash = structural_merkle_hash E program;
          outcome = state r;
          tx_id = (case settled_tx_id r of Some t \<Rightarrow> t | None \<Rightarrow> lock_tx_id r)
      in [\<lparr>s_tx_id = tx_id, s_block_height = block_height, s_contract_hash = contract_hash,
           s_outcome = outcome,
           s_observer_address = derive_address_from_pubkey E (sender (params r)),
           s_counterparty = derive_address_from_pubkey E (receiver (params r)),
           s_amount = amount r, s_lock_tx_id = lock_tx_id r, s_lock_output_index = output_index r\<rparr>,
          \<lparr>s_tx_id = tx_id, s_block_height = block_height, s_contract_hash = contract_hash,
           s_outcome = outcome,
           s_observer_address = derive_address_from_pubkey E (receiver (params r)),
           s_counterparty = derive_address_from_pubkey E (sender (params r)),
           s_amount = amount r, s_lock_tx_id = lock_tx_id r, s_lock_output_index = output_index r\<rparr>])"


subsection \<open>Closed forms of the loops\<close>

lemma fold_extract_output:
  "fold (extract_output E t h c) ots x =
     x\<lparr>x_output_datums := x_output_datums x @ concat (map (\<lambda>(v, out). extract_datum t v out) ots),
       x_activity := x_activity x @ concat (map (\<lambda>(v, out). extract_activity t c out) ots),
       x_locks := x_locks x @ concat (map (\<lambda>(v, out). extract_lock E t h v out) ots)\<rparr>"
  by (induction ots arbitrary: x) (auto simp: extract_output_def)

text \<open>The candidate spend of one input of a transaction that is no coinbase.\<close>

definition input_spends :: "Transaction \<Rightarrow> 32 bytes \<Rightarrow> nat \<times> TxInput \<Rightarrow> ExtractedHtlcSpend list" where
  "input_spends tx t = (\<lambda>(vin, inp).
     let witness = (if vin < length (tx_witnesses tx) then tx_witnesses tx ! vin else [])
     in case classify_spend_arm witness t (word_of_nat vin) of
          Some arm \<Rightarrow> [\<lparr>sp_lock_tx_id = prev_tx_id inp, sp_output_index = prev_output_index inp, sp_arm = arm\<rparr>]
        | None \<Rightarrow> [])"

lemma fold_extract_input:
  "fold (extract_input tx t c) ins x =
     x\<lparr>x_spends := x_spends x @ (if c then [] else concat (map (input_spends tx t) ins))\<rparr>"
  by (induction ins arbitrary: x) (auto simp: extract_input_def input_spends_def Let_def split: option.splits)

lemma extract_from_tx_Some:
  assumes "tx_id_of E tx = Some t"
  shows "extract_from_tx E tx h l =
    \<lparr>x_tx_id = t,
     x_locks = concat (map (\<lambda>(v, out). extract_lock E t h v out) (enumerate 0 (tx_outputs tx))),
     x_spends = (if is_coinbase E tx then [] else concat (map (input_spends tx t) (enumerate 0 (tx_inputs tx)))),
     x_activity = concat (map (\<lambda>(v, out). extract_activity t (is_coinbase E tx) out) (enumerate 0 (tx_outputs tx))),
     x_output_datums = concat (map (\<lambda>(v, out). extract_datum t v out) (enumerate 0 (tx_outputs tx)))\<rparr>"
  using assms by (simp add: extract_from_tx_def fold_extract_output fold_extract_input ExtractedTx_default_def Let_def)

lemma extract_from_tx_None:
  "tx_id_of E tx = None \<Longrightarrow> extract_from_tx E tx h l = ExtractedTx_default"
  by (simp add: extract_from_tx_def)


subsection \<open>Spend classification is exact\<close>

text \<open>
  The witness layout of a claim: the Left and Unit tags, then a length-prefixed preimage;
  what follows (the signature) is not read.
\<close>

definition claim_witness :: "u8 list \<Rightarrow> u8 list \<Rightarrow> u8 list" where
  "claim_witness preimage rest =
     [VALUE_TAG_LEFT, VALUE_TAG_UNIT, VALUE_TAG_BYTES] @ le32 (word_of_nat (length preimage)) @ preimage @ rest"

lemma list_eq_take_drop3:
  "7 \<le> length xs \<Longrightarrow> xs = [xs ! 0, xs ! 1, xs ! 2] @ subslice 3 7 xs @ drop 7 xs"
  by (auto simp: subslice_def numeral_eq_Suc Suc_le_length_iff)

lemma extract_claim_preimage_claim_witness:
  assumes "length p < 2 ^ 32"
  shows "extract_claim_preimage (claim_witness p rest) = Some p"
proof -
  have n: "unat (word_of_nat (length p) :: u32) = length p"
    using assms by (simp add: unat_of_nat)
  have "subslice 3 7 (claim_witness p rest) = le32 (word_of_nat (length p))"
    "subslice 7 (7 + length p) (claim_witness p rest) = p"
    by (simp_all add: claim_witness_def subslice_def)
  then show ?thesis
    using n by (simp add: extract_claim_preimage_def Let_def) (simp add: claim_witness_def)
qed

lemma extract_claim_preimage_iff:
  "extract_claim_preimage w = Some p \<longleftrightarrow> length p < 2 ^ 32 \<and> (\<exists>rest. w = claim_witness p rest)"
proof
  assume r: "extract_claim_preimage w = Some p"
  define n where "n = from_le32 (subslice 3 7 w)"
  from r have w: "7 \<le> length w" "w ! 0 = VALUE_TAG_LEFT" "w ! 1 = VALUE_TAG_UNIT" "w ! 2 = VALUE_TAG_BYTES"
    and p: "7 + unat n \<le> length w" "p = take (unat n) (drop 7 w)"
    by (auto simp: extract_claim_preimage_def n_def subslice_def Let_def split: if_splits)
  have len: "length p = unat n" using p by simp
  have "le32 n = subslice 3 7 w"
    unfolding n_def using w(1) by (intro le32_from_le32) (simp add: subslice_def)
  then have "w = [VALUE_TAG_LEFT, VALUE_TAG_UNIT, VALUE_TAG_BYTES] @ le32 n @ drop 7 w"
    using list_eq_take_drop3 [OF w(1)] w by simp
  also have "drop 7 w = p @ drop (unat n) (drop 7 w)"
    by (simp only: p(2) append_take_drop_id)
  finally have "w = claim_witness p (drop (unat n) (drop 7 w))"
    by (simp add: claim_witness_def len)
  then show "length p < 2 ^ 32 \<and> (\<exists>rest. w = claim_witness p rest)"
    using len unat_u32_less [of n] by auto
next
  assume "length p < 2 ^ 32 \<and> (\<exists>rest. w = claim_witness p rest)"
  then show "extract_claim_preimage w = Some p"
    by (auto simp: extract_claim_preimage_claim_witness)
qed

lemma hd_claim_witness [simp]: "claim_witness p rest ! 0 = VALUE_TAG_LEFT" "2 \<le> length (claim_witness p rest)"
  by (simp_all add: claim_witness_def)

text \<open>A witness is a claim exactly when it starts with the tags and a length-prefixed preimage
  that fits, of any length below 2^32, and then that preimage is returned whole; it is a
  reclaim exactly when its first byte is the Right tag and it has a second byte; nothing else
  is an HTLC spend.\<close>

theorem classify_spend_arm_iff:
  "classify_spend_arm w t i = Some arm \<longleftrightarrow>
     (\<exists>p rest. arm = Claim p t i \<and> length p < 2 ^ 32 \<and> w = claim_witness p rest) \<or>
     (arm = Reclaim t i \<and> (\<exists>b rest. w = VALUE_TAG_RIGHT # b # rest))"
proof -
  have two: "2 \<le> length w \<longleftrightarrow> (\<exists>a b rest. w = a # b # rest)"
    by (auto simp: numeral_eq_Suc Suc_le_length_iff)
  have "classify_spend_arm w t i = Some arm \<longleftrightarrow>
     2 \<le> length w \<and> w ! 0 = VALUE_TAG_LEFT \<and> (\<exists>p. arm = Claim p t i \<and> extract_claim_preimage w = Some p) \<or>
     2 \<le> length w \<and> w ! 0 = VALUE_TAG_RIGHT \<and> arm = Reclaim t i"
    by (auto simp: classify_spend_arm_def extract_consts)
  also have "\<dots> \<longleftrightarrow> (\<exists>p rest. arm = Claim p t i \<and> length p < 2 ^ 32 \<and> w = claim_witness p rest) \<or>
     (arm = Reclaim t i \<and> (\<exists>b rest. w = VALUE_TAG_RIGHT # b # rest))"
    using two by (auto simp: extract_claim_preimage_iff)
  finally show ?thesis .
qed


subsection \<open>What is extracted from the outputs\<close>

lemma in_extract_datum_iff:
  "d \<in> set (extract_datum t v out) \<longleftrightarrow> od_tx_id d = t \<and> od_output_index d = word_of_nat v \<and>
     ((\<exists>q. out_datum out = Some (byte_list q) \<and> od_quote_id d = Some q \<and> \<not> od_unhonorable d) \<or>
      (out_datum out = None \<and> out_datum_hash out \<noteq> None \<and> od_quote_id d = None \<and> od_unhonorable d))"
proof (cases "out_datum out")
  case None
  then show ?thesis by (cases d; cases "out_datum_hash out") (auto simp: extract_datum_def)
next
  case (Some x)
  then show ?thesis
    by (cases d; cases "strict_decode_quote_id x") (auto simp: extract_datum_def strict_decode_quote_id_iff)
qed

lemma in_extract_lock_iff:
  "k \<in> set (extract_lock E t h v out) \<longleftrightarrow>
     (\<exists>ps. 100 \<le> length (out_script out) \<and> try_parse_htlc E (out_script out) = Some ps \<and>
        k = fresh_lock t h v out ps)"
proof (cases "100 \<le> length (out_script out)")
  case True
  then show ?thesis
    by (cases "try_parse_htlc E (out_script out)") (simp_all add: extract_lock_def MIN_HTLC_SCRIPT_BYTES_def)
qed (simp add: extract_lock_def MIN_HTLC_SCRIPT_BYTES_def)

text \<open>The settlement-datum rows of a transaction are exactly these: for an output whose inline
  datum is exactly 16 bytes, an honorable row whose quote id is those bytes; for an output
  with a datum hash and no inline datum, an unhonorable row without a quote id. Any other
  inline datum gives no row.\<close>

theorem output_datums_exact:
  "d \<in> set (x_output_datums (extract_from_tx E tx h l)) \<longleftrightarrow>
     (\<exists>t v out. tx_id_of E tx = Some t \<and> v < length (tx_outputs tx) \<and> out = tx_outputs tx ! v \<and>
        od_tx_id d = t \<and> od_output_index d = word_of_nat v \<and>
        ((\<exists>q. out_datum out = Some (byte_list q) \<and> od_quote_id d = Some q \<and> \<not> od_unhonorable d) \<or>
         (out_datum out = None \<and> out_datum_hash out \<noteq> None \<and> od_quote_id d = None \<and> od_unhonorable d)))"
proof (cases "tx_id_of E tx")
  case None
  then show ?thesis by (simp add: extract_from_tx_None ExtractedTx_default_def)
next
  case (Some t)
  show ?thesis
    using Some by (auto simp: extract_from_tx_Some in_concat_enumerate_iff in_extract_datum_iff simp del: set_concat)
qed

text \<open>Every HTLC lock extracted at a height is a fresh record of that transaction and height: seen
  by an observer, with neither claim nor reclaim, in state Locked or, when the height is
  already past the timeout, LockedExpired; and there is one for every output whose script has
  at least 100 bytes and parses as an HTLC.\<close>

theorem locks_exact:
  "k \<in> set (x_locks (extract_from_tx E tx h l)) \<longleftrightarrow>
     (\<exists>t v out ps. tx_id_of E tx = Some t \<and> v < length (tx_outputs tx) \<and> out = tx_outputs tx ! v \<and>
        100 \<le> length (out_script out) \<and> try_parse_htlc E (out_script out) = Some ps \<and>
        k = fresh_lock t h v out ps)"
proof (cases "tx_id_of E tx")
  case None
  then show ?thesis by (simp add: extract_from_tx_None ExtractedTx_default_def)
next
  case (Some t)
  then show ?thesis
    by (auto simp: extract_from_tx_Some in_concat_enumerate_iff in_extract_lock_iff simp del: set_concat)
qed

end
