(* ===== verification/Store.thy ===== *)
theory Store
  imports Extract
begin

section \<open>The store and its write path (\<^verbatim>\<open>src/db/mod.rs\<close>, \<^verbatim>\<open>src/db/schema.rs\<close>)\<close>

text \<open>
  The thirteen redb tables as a record, the rows they hold, and the operations that write
  them, each a function from a database to a database or a failure: the within-transaction
  helpers (upsert, forget and advance an HTLC; write a settlement, an activity row, a
  spent-by row, a settlement datum), the atomic per-block apply, the reorg wipe, the follower
  checkpoint and the schema migration on open. The bincode codecs of the seven stored record
  types are the parameter \<open>B\<close>. A write transaction is \<open>write_txn\<close>: a
  failure anywhere in its body, or a redb fault when it is committed, leaves the database
  as it was.
\<close>

subsection \<open>Stored rows\<close>

record BlockMeta =
  bm_block_id :: "32 bytes"
  bm_tx_count :: u64
  bm_timestamp :: u64

record FollowerMeta =
  m_last_indexed_height :: u64
  m_last_indexed_block_id :: "32 bytes"
  m_full_scan_complete :: bool
  m_started_at :: u64
  m_schema_version :: u32

record OutputDatumRecord =
  dr_quote_id :: "16 bytes option"
  dr_unhonorable :: bool
  dr_block_height :: u64

record SpentByCacheEntry =
  sb_prev_tx_id :: "32 bytes"
  sb_output_index :: u32
  sb_spending_tx_id :: "32 bytes"
  sb_input_index :: u32
  sb_block_height :: u64

record ActivityValue =
  v_amount :: u64
  v_is_coinbase :: bool
  v_counterparties :: "32 bytes list"

record BlockApplyEvents =
  ev_height :: u64
  ev_block_id :: "32 bytes"
  ev_tx_count :: u64
  ev_timestamp :: u64
  ev_full_scan_complete :: bool
  ev_started_at :: u64
  ev_locks :: "ExtractedHtlcLock list"
  ev_spends :: "ExtractedHtlcSpend list"
  ev_settlements :: "SettlementRecord list"
  ev_activity :: "AddressActivity list"
  ev_spent_by :: "SpentByCacheEntry list"
  ev_output_datums :: "ExtractedOutputDatum list"

definition SCHEMA_VERSION :: u32 where
  "SCHEMA_VERSION = 1"

definition DIR_OUTPUT_TO :: u8 where
  "DIR_OUTPUT_TO = 1"

definition DIR_INPUT_FROM :: u8 where
  "DIR_INPUT_FROM = 2"

text \<open>\<^verbatim>\<open>FollowerMeta::default()\<close>.\<close>

definition FollowerMeta_default :: FollowerMeta where
  "FollowerMeta_default =
     \<lparr>m_last_indexed_height = 0, m_last_indexed_block_id = filled 0, m_full_scan_complete = False,
      m_started_at = 0, m_schema_version = 0\<rparr>"


subsection \<open>Codecs and tables\<close>

record 'b bincode =
  cd_meta :: "(FollowerMeta, 'b) codec"
  cd_block :: "(BlockMeta, 'b) codec"
  cd_htlc :: "(HtlcRecord, 'b) codec"
  cd_settlement :: "(SettlementRecord, 'b) codec"
  cd_activity :: "(ActivityValue, 'b) codec"
  cd_spent :: "(SpentByCacheEntry, 'b) codec"
  cd_datum :: "(OutputDatumRecord, 'b) codec"

definition bincode_ok :: "'b bincode \<Rightarrow> bool" where
  "bincode_ok B \<longleftrightarrow> codec_ok (cd_meta B) \<and> codec_ok (cd_block B) \<and> codec_ok (cd_htlc B) \<and>
     codec_ok (cd_settlement B) \<and> codec_ok (cd_activity B) \<and> codec_ok (cd_spent B) \<and> codec_ok (cd_datum B)"

lemma bincode_okD:
  assumes "bincode_ok B"
  shows "codec_ok (cd_meta B)" "codec_ok (cd_block B)" "codec_ok (cd_htlc B)" "codec_ok (cd_settlement B)"
    "codec_ok (cd_activity B)" "codec_ok (cd_spent B)" "codec_ok (cd_datum B)"
  using assms by (simp_all add: bincode_ok_def)

record 'b db =
  CHAIN_TIP :: "(string, 'b) table"
  BLOCK_META :: "(u8 list, 'b) table"
  TX_BY_ADDRESS :: "(u8 list, 'b) table"
  HTLC_FULL :: "(u8 list, 'b) table"
  HTLC_BY_SENDER :: "(u8 list, unit) table"
  HTLC_BY_RECEIVER :: "(u8 list, unit) table"
  HTLC_BY_HASHLOCK :: "(u8 list, unit) table"
  HTLC_BY_STATE :: "(u8 list, unit) table"
  SETTLEMENT_BY_CONTRACT :: "(u8 list, 'b) table"
  SETTLEMENT_BY_ADDRESS :: "(u8 list, unit) table"
  SPENT_BY :: "(u8 list, 'b) table"
  OUTPUT_DATUM :: "(u8 list, 'b) table"
  DATUM_BY_QUOTEID :: "(u8 list, unit) table"

definition CHAIN_TIP_KEY :: string where
  "CHAIN_TIP_KEY = ''tip''"

text \<open>\<^verbatim>\<open>open_all_tables\<close> on a new file: every table exists and is empty.\<close>

definition open_all_tables :: "'b db" where
  "open_all_tables =
     \<lparr>CHAIN_TIP = t_empty, BLOCK_META = t_empty, TX_BY_ADDRESS = t_empty, HTLC_FULL = t_empty,
      HTLC_BY_SENDER = t_empty, HTLC_BY_RECEIVER = t_empty, HTLC_BY_HASHLOCK = t_empty, HTLC_BY_STATE = t_empty,
      SETTLEMENT_BY_CONTRACT = t_empty, SETTLEMENT_BY_ADDRESS = t_empty, SPENT_BY = t_empty,
      OUTPUT_DATUM = t_empty, DATUM_BY_QUOTEID = t_empty\<rparr>"

definition encode_rec :: "('x, 'b) codec \<Rightarrow> 'x \<Rightarrow> string \<Rightarrow> 'b res" where
  "encode_rec c x msg = ok_or (ser c x) (Storage msg)"

text \<open>
  A write transaction: the body works on the database it began with, and only a commit
  publishes the result. \<open>fault\<close> is an error redb reports at any point of it.
\<close>

definition write_txn :: "redb_error option \<Rightarrow> ('d \<Rightarrow> 'd res) \<Rightarrow> 'd \<Rightarrow> unit res \<times> 'd" where
  "write_txn fault body d =
     (case fault of
        Some e \<Rightarrow> (Inl (Fail (from_redb e)), d)
      | None \<Rightarrow> (case body d of Inl e \<Rightarrow> (Inl e, d) | Inr d' \<Rightarrow> (Inr (), d')))"

text \<open>\<^verbatim>\<open>rec.lock_block_height.unwrap_or(u64::MAX)\<close>.\<close>

definition lock_height_or_max :: "HtlcRecord \<Rightarrow> u64" where
  "lock_height_or_max r = (case lock_block_height r of Some h \<Rightarrow> h | None \<Rightarrow> - 1)"


subsection \<open>HTLC rows\<close>

definition forget_htlc_within_txn :: "u8 list \<Rightarrow> HtlcRecord \<Rightarrow> 'b db \<Rightarrow> 'b db" where
  "forget_htlc_within_txn primary_key r d =
     (let lock_h = lock_height_or_max r;
          d = d\<lparr>HTLC_FULL := t_remove (HTLC_FULL d) primary_key\<rparr>;
          d = d\<lparr>HTLC_BY_SENDER := t_remove (HTLC_BY_SENDER d)
                 (sender_key (sender (params r)) lock_h (lock_tx_id r) (output_index r))\<rparr>;
          d = d\<lparr>HTLC_BY_RECEIVER := t_remove (HTLC_BY_RECEIVER d)
                 (receiver_key (receiver (params r)) lock_h (lock_tx_id r) (output_index r))\<rparr>;
          d = d\<lparr>HTLC_BY_HASHLOCK := t_remove (HTLC_BY_HASHLOCK d)
                 (hashlock_key (hash_lock (params r)) (lock_tx_id r) (output_index r))\<rparr>
      in d\<lparr>HTLC_BY_STATE := t_remove (HTLC_BY_STATE d)
             (state_key (state r) lock_h (lock_tx_id r) (output_index r))\<rparr>)"

definition upsert_htlc_within_txn :: "'b bincode \<Rightarrow> HtlcRecord \<Rightarrow> 'b db \<Rightarrow> 'b db res" where
  "upsert_htlc_within_txn B r d =
     (let primary_key = htlc_primary_key (lock_tx_id r) (output_index r);
          lock_h = lock_height_or_max r
      in bind_res (encode_rec (cd_htlc B) r ''encode htlc'') (\<lambda>blob.
         bind_res (get_rec (cd_htlc B) ''decode prior'' (HTLC_FULL d) primary_key) (\<lambda>prior.
           let d = (case prior of Some prev \<Rightarrow> forget_htlc_within_txn primary_key prev d | None \<Rightarrow> d);
               d = d\<lparr>HTLC_FULL := t_insert (HTLC_FULL d) primary_key blob\<rparr>;
               d = d\<lparr>HTLC_BY_SENDER := t_insert (HTLC_BY_SENDER d)
                      (sender_key (sender (params r)) lock_h (lock_tx_id r) (output_index r)) ()\<rparr>;
               d = d\<lparr>HTLC_BY_RECEIVER := t_insert (HTLC_BY_RECEIVER d)
                      (receiver_key (receiver (params r)) lock_h (lock_tx_id r) (output_index r)) ()\<rparr>;
               d = d\<lparr>HTLC_BY_HASHLOCK := t_insert (HTLC_BY_HASHLOCK d)
                      (hashlock_key (hash_lock (params r)) (lock_tx_id r) (output_index r)) ()\<rparr>
           in Inr (d\<lparr>HTLC_BY_STATE := t_insert (HTLC_BY_STATE d)
                      (state_key (state r) lock_h (lock_tx_id r) (output_index r)) ()\<rparr>))))"

text \<open>The record of a spent HTLC: the \<^verbatim>\<open>match &spend.arm\<close> of the advance.\<close>

definition settle_record :: "HtlcSpendArm \<Rightarrow> u64 \<Rightarrow> HtlcRecord \<Rightarrow> HtlcRecord" where
  "settle_record arm height r =
     (case arm of
        Claim preimage spending_tx_id input_index \<Rightarrow>
          r\<lparr>state := Claimed,
            claim := Some \<lparr>c_tx_id = spending_tx_id, c_preimage = preimage, c_block_height = height,
                           c_input_index = input_index\<rparr>,
            last_indexed_height := height\<rparr>
      | Reclaim spending_tx_id input_index \<Rightarrow>
          r\<lparr>state := Reclaimed,
            reclaim := Some \<lparr>r_tx_id = spending_tx_id, r_block_height = height, r_input_index = input_index\<rparr>,
            last_indexed_height := height\<rparr>)"

definition advance_htlc_within_txn :: "'b bincode \<Rightarrow> ExtractedHtlcSpend \<Rightarrow> u64 \<Rightarrow> 'b db \<Rightarrow> 'b db res" where
  "advance_htlc_within_txn B spend height d =
     (let primary_key = htlc_primary_key (sp_lock_tx_id spend) (sp_output_index spend)
      in bind_res (get_rec (cd_htlc B) ''decode htlc to advance'' (HTLC_FULL d) primary_key) (\<lambda>prior.
        case prior of
          None \<Rightarrow> Inr d
        | Some r \<Rightarrow>
            (if state r = Claimed \<or> state r = Reclaimed then Inr d
             else upsert_htlc_within_txn B (settle_record (sp_arm spend) height r)
                    (forget_htlc_within_txn primary_key r d))))"


subsection \<open>Settlement, activity, spent-by and datum rows\<close>

definition write_settlement_within_txn :: "'b bincode \<Rightarrow> SettlementRecord \<Rightarrow> 'b db \<Rightarrow> 'b db res" where
  "write_settlement_within_txn B sett d =
     bind_res (encode_rec (cd_settlement B) sett ''encode settlement'') (\<lambda>blob.
       let d = d\<lparr>SETTLEMENT_BY_CONTRACT := t_insert (SETTLEMENT_BY_CONTRACT d)
                  (settlement_by_contract_key (s_contract_hash sett) (s_observer_address sett)
                     (s_block_height sett) (s_tx_id sett)) blob\<rparr>
       in Inr (d\<lparr>SETTLEMENT_BY_ADDRESS := t_insert (SETTLEMENT_BY_ADDRESS d)
                  (settlement_by_address_key (s_observer_address sett) (s_contract_hash sett)
                     (s_block_height sett) (s_tx_id sett)) ()\<rparr>))"

definition write_activity_within_txn :: "'b bincode \<Rightarrow> AddressActivity \<Rightarrow> u64 \<Rightarrow> 'b db \<Rightarrow> 'b db res" where
  "write_activity_within_txn B act height d =
     (let dir = (if a_is_input act then DIR_INPUT_FROM else DIR_OUTPUT_TO);
          k = tx_by_address_key (a_address act) height (a_tx_id act) dir
      in bind_res (encode_rec (cd_activity B)
             \<lparr>v_amount = a_amount act, v_is_coinbase = a_is_coinbase act, v_counterparties = a_counterparties act\<rparr>
             ''encode activity'') (\<lambda>val.
           Inr (d\<lparr>TX_BY_ADDRESS := t_insert (TX_BY_ADDRESS d) k val\<rparr>)))"

definition write_spent_by_within_txn :: "'b bincode \<Rightarrow> SpentByCacheEntry \<Rightarrow> 'b db \<Rightarrow> 'b db res" where
  "write_spent_by_within_txn B sb d =
     bind_res (encode_rec (cd_spent B) sb ''encode spent_by'') (\<lambda>val.
       Inr (d\<lparr>SPENT_BY := t_insert (SPENT_BY d) (spent_by_key (sb_prev_tx_id sb) (sb_output_index sb)) val\<rparr>))"

definition write_output_datum_within_txn ::
  "'b bincode \<Rightarrow> ExtractedOutputDatum \<Rightarrow> u64 \<Rightarrow> 'b db \<Rightarrow> 'b db res" where
  "write_output_datum_within_txn B od height d =
     bind_res (encode_rec (cd_datum B)
         \<lparr>dr_quote_id = od_quote_id od, dr_unhonorable = od_unhonorable od, dr_block_height = height\<rparr>
         ''encode output_datum'') (\<lambda>blob.
       let d = d\<lparr>OUTPUT_DATUM := t_insert (OUTPUT_DATUM d) (output_datum_key (od_tx_id od) (od_output_index od)) blob\<rparr>
       in Inr (case od_quote_id od of
             Some quote_id \<Rightarrow>
               d\<lparr>DATUM_BY_QUOTEID := t_insert (DATUM_BY_QUOTEID d)
                   (datum_by_quoteid_key quote_id (od_tx_id od) (od_output_index od)) ()\<rparr>
           | None \<Rightarrow> d))"


subsection \<open>The atomic per-block apply\<close>

definition write_block_meta :: "'b bincode \<Rightarrow> BlockApplyEvents \<Rightarrow> 'b db \<Rightarrow> 'b db res" where
  "write_block_meta B ev d =
     bind_res (encode_rec (cd_block B)
         \<lparr>bm_block_id = ev_block_id ev, bm_tx_count = ev_tx_count ev, bm_timestamp = ev_timestamp ev\<rparr>
         ''encode block_meta'') (\<lambda>val.
       Inr (d\<lparr>BLOCK_META := t_insert (BLOCK_META d) (be64 (ev_height ev)) val\<rparr>))"

definition write_meta :: "'b bincode \<Rightarrow> FollowerMeta \<Rightarrow> 'b db \<Rightarrow> 'b db res" where
  "write_meta B meta d =
     bind_res (encode_rec (cd_meta B) meta ''encode meta'') (\<lambda>blob.
       Inr (d\<lparr>CHAIN_TIP := t_insert (CHAIN_TIP d) CHAIN_TIP_KEY blob\<rparr>))"

text \<open>The checkpoint written in the same transaction as the block's rows.\<close>

definition advanced_meta :: "BlockApplyEvents \<Rightarrow> FollowerMeta" where
  "advanced_meta ev =
     \<lparr>m_last_indexed_height = ev_height ev, m_last_indexed_block_id = ev_block_id ev,
      m_full_scan_complete = ev_full_scan_complete ev, m_started_at = ev_started_at ev,
      m_schema_version = SCHEMA_VERSION\<rparr>"

definition apply_block_events :: "'b bincode \<Rightarrow> BlockApplyEvents \<Rightarrow> 'b db \<Rightarrow> 'b db res" where
  "apply_block_events B ev d =
     bind_res (write_block_meta B ev d) (\<lambda>d.
     bind_res (fold_res (\<lambda>lock. upsert_htlc_within_txn B (lk_record lock)) (ev_locks ev) d) (\<lambda>d.
     bind_res (fold_res (\<lambda>spend. advance_htlc_within_txn B spend (ev_height ev)) (ev_spends ev) d) (\<lambda>d.
     bind_res (fold_res (write_settlement_within_txn B) (ev_settlements ev) d) (\<lambda>d.
     bind_res (fold_res (\<lambda>act. write_activity_within_txn B act (ev_height ev)) (ev_activity ev) d) (\<lambda>d.
     bind_res (fold_res (write_spent_by_within_txn B) (ev_spent_by ev) d) (\<lambda>d.
     bind_res (fold_res (\<lambda>od. write_output_datum_within_txn B od (ev_height ev)) (ev_output_datums ev) d) (\<lambda>d.
       write_meta B (advanced_meta ev) d)))))))"


subsection \<open>Reorg support\<close>

text \<open>The victims of the primary table: an undecodable row is an error, a key of the wrong length a panic.\<close>

definition htlc_victim :: "'b bincode \<Rightarrow> u64 \<Rightarrow> u8 list \<times> 'b \<Rightarrow> (u8 list \<times> HtlcRecord) option res" where
  "htlc_victim B keep_below = (\<lambda>(k, v).
     bind_res (ok_or (de (cd_htlc B) v) (Storage ''decode htlc'')) (\<lambda>r.
       if lock_height_or_max r > keep_below
       then (if length k = 36 then Inr (Some (k, r)) else Inl Panic)
       else Inr None))"

definition block_meta_tail :: "u64 \<Rightarrow> 'b db \<Rightarrow> u8 list list" where
  "block_meta_tail keep_below d =
     map fst (filter (\<lambda>(k, _). length k = 8 \<and> from_be64 k > keep_below) (t_iter (BLOCK_META d)))"

definition wipe_tx_by_address_above :: "u64 \<Rightarrow> 'b db \<Rightarrow> 'b db" where
  "wipe_tx_by_address_above keep_below d =
     (let victims = map fst (filter (\<lambda>(k, _). 40 \<le> length k \<and> from_be64 (subslice 32 40 k) > keep_below)
                        (t_iter (TX_BY_ADDRESS d)))
      in d\<lparr>TX_BY_ADDRESS := remove_all (TX_BY_ADDRESS d) victims\<rparr>)"

definition wipe_settlements_above :: "u64 \<Rightarrow> 'b db \<Rightarrow> 'b db" where
  "wipe_settlements_above keep_below d =
     (let victims_c = map fst (filter (\<lambda>(k, _). 72 \<le> length k \<and> from_be64 (subslice 64 72 k) > keep_below)
                          (t_iter (SETTLEMENT_BY_CONTRACT d)));
          d = d\<lparr>SETTLEMENT_BY_CONTRACT := remove_all (SETTLEMENT_BY_CONTRACT d) victims_c\<rparr>;
          victims_a = map fst (filter (\<lambda>(k, _). 72 \<le> length k \<and> from_be64 (subslice 64 72 k) > keep_below)
                          (t_iter (SETTLEMENT_BY_ADDRESS d)))
      in d\<lparr>SETTLEMENT_BY_ADDRESS := remove_all (SETTLEMENT_BY_ADDRESS d) victims_a\<rparr>)"

definition wipe_spent_by_above :: "'b bincode \<Rightarrow> u64 \<Rightarrow> 'b db \<Rightarrow> 'b db res" where
  "wipe_spent_by_above B keep_below d =
     bind_res (collect_res (\<lambda>(k, val).
         bind_res (ok_or (de (cd_spent B) val) (Storage ''decode spent_by'')) (\<lambda>sb.
           Inr (if sb_block_height sb > keep_below then Some k else None))) (t_iter (SPENT_BY d))) (\<lambda>victims.
       Inr (d\<lparr>SPENT_BY := remove_all (SPENT_BY d) victims\<rparr>))"

text \<open>The reverse-index key of a victim row, its outpoint read back from the forward key.\<close>

definition victim_quote_key :: "u8 list \<times> OutputDatumRecord \<Rightarrow> u8 list list" where
  "victim_quote_key = (\<lambda>(k, r).
     case dr_quote_id r of
       Some quote_id \<Rightarrow> [datum_by_quoteid_key quote_id (Bytes (take 32 k)) (from_be32 (drop 32 k))]
     | None \<Rightarrow> [])"

definition wipe_output_datums_above :: "'b bincode \<Rightarrow> u64 \<Rightarrow> 'b db \<Rightarrow> 'b db res" where
  "wipe_output_datums_above B keep_below d =
     bind_res (collect_res (\<lambda>(k, val).
         if length k \<noteq> 36 then Inr None
         else bind_res (ok_or (de (cd_datum B) val) (Storage ''decode output_datum'')) (\<lambda>r.
           Inr (if dr_block_height r > keep_below then Some (k, r) else None))) (t_iter (OUTPUT_DATUM d))) (\<lambda>victims.
       let d = d\<lparr>OUTPUT_DATUM := remove_all (OUTPUT_DATUM d) (map fst victims)\<rparr>
       in Inr (d\<lparr>DATUM_BY_QUOTEID := remove_all (DATUM_BY_QUOTEID d) (concat (map victim_quote_key victims))\<rparr>))"

definition wipe_above :: "'b bincode \<Rightarrow> u64 \<Rightarrow> 'b db \<Rightarrow> 'b db res" where
  "wipe_above B keep_below d =
     bind_res (collect_res (htlc_victim B keep_below) (t_iter (HTLC_FULL d))) (\<lambda>victims.
       let d = fold (\<lambda>(key, r). forget_htlc_within_txn key r) victims d;
           tail = block_meta_tail keep_below d;
           d = d\<lparr>BLOCK_META := remove_all (BLOCK_META d) tail\<rparr>;
           d = wipe_tx_by_address_above keep_below d;
           d = wipe_settlements_above keep_below d
       in bind_res (wipe_spent_by_above B keep_below d) (wipe_output_datums_above B keep_below))"


subsection \<open>The checkpoint and the schema migration\<close>

definition load_meta :: "'b bincode \<Rightarrow> 'b db \<Rightarrow> FollowerMeta res" where
  "load_meta B d =
     bind_res (get_rec (cd_meta B) ''decode meta'' (CHAIN_TIP d) CHAIN_TIP_KEY) (\<lambda>m.
       Inr (case m of Some meta \<Rightarrow> meta | None \<Rightarrow> FollowerMeta_default))"

definition save_meta :: "'b bincode \<Rightarrow> FollowerMeta \<Rightarrow> 'b db \<Rightarrow> 'b db res" where
  "save_meta B meta d = write_meta B meta d"

text \<open>The persisted checkpoint: one that exists and does not decode counts as version 0.\<close>

definition persisted_meta :: "'b bincode \<Rightarrow> 'b db \<Rightarrow> FollowerMeta option" where
  "persisted_meta B d =
     (case t_get (CHAIN_TIP d) CHAIN_TIP_KEY of
        Some blob \<Rightarrow>
          (case de (cd_meta B) blob of
             Some meta \<Rightarrow> Some meta
           | None \<Rightarrow> Some (FollowerMeta_default\<lparr>m_schema_version := 0\<rparr>))
      | None \<Rightarrow> None)"

definition migrate_schema :: "'b bincode \<Rightarrow> 'b db \<Rightarrow> 'b db res" where
  "migrate_schema B d =
     (case persisted_meta B d of
        None \<Rightarrow> save_meta B (FollowerMeta_default\<lparr>m_schema_version := SCHEMA_VERSION\<rparr>) d
      | Some meta \<Rightarrow>
          (if m_schema_version meta \<ge> SCHEMA_VERSION then Inr d
           else save_meta B
             \<lparr>m_last_indexed_height = 0, m_last_indexed_block_id = filled 0, m_full_scan_complete = False,
              m_started_at = m_started_at meta, m_schema_version = SCHEMA_VERSION\<rparr> d))"

text \<open>
  \<^verbatim>\<open>Db::open\<close> after the file has been created or found: the file's tables,
  or empty ones, then the migration.
\<close>

definition db_open :: "'b bincode \<Rightarrow> 'b db option \<Rightarrow> 'b db res" where
  "db_open B file = migrate_schema B (case file of None \<Rightarrow> open_all_tables | Some d \<Rightarrow> d)"

definition htlc_count :: "'b db \<Rightarrow> u64" where
  "htlc_count d = word_of_nat (t_len (HTLC_FULL d))"

lemmas txn_defs =
  forget_htlc_within_txn_def upsert_htlc_within_txn_def write_settlement_within_txn_def
  write_activity_within_txn_def write_spent_by_within_txn_def write_output_datum_within_txn_def
  write_block_meta_def write_meta_def encode_rec_def

end
