(* ===== verification/StoreSpec.thy ===== *)
theory StoreSpec
  imports Store
begin

section \<open>What the store promises, and that it keeps it\<close>

text \<open>
  The abstract view of the database: one map per kind of row, on typed keys. \<open>db_ok\<close>
  is the invariant every operation keeps: each primary table holds encoded rows under its own
  keys, each HTLC record and each settlement stands under the key of its fields, and each
  secondary table is exactly the index its primary table determines. \<open>sim\<close> is the
  refinement of an abstract operation by a concrete one under the invariant, with its
  composition rules; each within-transaction helper, the block apply and the wipe are shown
  to refine their specification. Since the view and the invariant determine every byte of
  the database, equalities of views are equalities of databases.
\<close>

subsection \<open>Secondary indexes of the store\<close>

definition sender_idx :: "outpoint \<Rightarrow> HtlcRecord \<Rightarrow> u8 list option" where
  "sender_idx = (\<lambda>(t, i) r. Some (sender_key (sender (params r)) (lock_height_or_max r) t i))"

definition receiver_idx :: "outpoint \<Rightarrow> HtlcRecord \<Rightarrow> u8 list option" where
  "receiver_idx = (\<lambda>(t, i) r. Some (receiver_key (receiver (params r)) (lock_height_or_max r) t i))"

definition hashlock_idx :: "outpoint \<Rightarrow> HtlcRecord \<Rightarrow> u8 list option" where
  "hashlock_idx = (\<lambda>(t, i) r. Some (hashlock_key (hash_lock (params r)) t i))"

definition state_idx :: "outpoint \<Rightarrow> HtlcRecord \<Rightarrow> u8 list option" where
  "state_idx = (\<lambda>(t, i) r. Some (state_key (state r) (lock_height_or_max r) t i))"

definition observer_idx :: "32 bytes \<times> 32 bytes \<times> u64 \<times> 32 bytes \<Rightarrow> SettlementRecord \<Rightarrow> u8 list option" where
  "observer_idx = (\<lambda>(c, a, h, t) s. Some (settlement_by_address_key a c h t))"

definition quote_idx :: "outpoint \<Rightarrow> OutputDatumRecord \<Rightarrow> u8 list option" where
  "quote_idx = (\<lambda>(t, i) r. map_option (\<lambda>q. datum_by_quoteid_key q t i) (dr_quote_id r))"

lemma idx_apply [simp]:
  "sender_idx (t, i) r = Some (sender_key (sender (params r)) (lock_height_or_max r) t i)"
  "receiver_idx (t, i) r = Some (receiver_key (receiver (params r)) (lock_height_or_max r) t i)"
  "hashlock_idx (t, i) r = Some (hashlock_key (hash_lock (params r)) t i)"
  "state_idx (t, i) r = Some (state_key (state r) (lock_height_or_max r) t i)"
  "observer_idx (c, a, h, t) s = Some (settlement_by_address_key a c h t)"
  "quote_idx (t, i) q = map_option (\<lambda>q. datum_by_quoteid_key q t i) (dr_quote_id q)"
  by (simp_all add: sender_idx_def receiver_idx_def hashlock_idx_def state_idx_def observer_idx_def quote_idx_def)

interpretation by_sender: secondary_index sender_idx
  by unfold_locales (auto simp: sender_idx_def)

interpretation by_receiver: secondary_index receiver_idx
  by unfold_locales (auto simp: receiver_idx_def)

interpretation by_hashlock: secondary_index hashlock_idx
  by unfold_locales (auto simp: hashlock_idx_def)

interpretation by_state: secondary_index state_idx
  by unfold_locales (auto simp: state_idx_def)

interpretation by_observer: secondary_index observer_idx
  by unfold_locales (auto simp: observer_idx_def)

interpretation by_quote: secondary_index quote_idx
  by unfold_locales (auto simp: quote_idx_def)

interpretation tip_key: key_map "\<lambda>_ :: unit. CHAIN_TIP_KEY"
  by unfold_locales simp


subsection \<open>The view and the invariant\<close>

record StoreView =
  av_meta :: "FollowerMeta option"
  av_blocks :: "u64 \<rightharpoonup> BlockMeta"
  av_htlcs :: "outpoint \<rightharpoonup> HtlcRecord"
  av_settlements :: "32 bytes \<times> 32 bytes \<times> u64 \<times> 32 bytes \<rightharpoonup> SettlementRecord"
  av_activity :: "32 bytes \<times> u64 \<times> 32 bytes \<times> u8 \<rightharpoonup> ActivityValue"
  av_spent :: "outpoint \<rightharpoonup> SpentByCacheEntry"
  av_datums :: "outpoint \<rightharpoonup> OutputDatumRecord"

definition view :: "'b bincode \<Rightarrow> 'b db \<Rightarrow> StoreView" where
  "view B d =
     \<lparr>av_meta = rows (cd_meta B) (\<lambda>_. CHAIN_TIP_KEY) (CHAIN_TIP d) (),
      av_blocks = rows (cd_block B) be64 (BLOCK_META d),
      av_htlcs = rows (cd_htlc B) outpoint_key (HTLC_FULL d),
      av_settlements = rows (cd_settlement B) settlement_row_key (SETTLEMENT_BY_CONTRACT d),
      av_activity = rows (cd_activity B) activity_row_key (TX_BY_ADDRESS d),
      av_spent = rows (cd_spent B) outpoint_key (SPENT_BY d),
      av_datums = rows (cd_datum B) outpoint_key (OUTPUT_DATUM d)\<rparr>"

definition htlcs_ok ::
  "'b bincode \<Rightarrow> (u8 list, 'b) table \<Rightarrow> (u8 list, unit) table \<Rightarrow> (u8 list, unit) table \<Rightarrow>
   (u8 list, unit) table \<Rightarrow> (u8 list, unit) table \<Rightarrow> bool" where
  "htlcs_ok B full snds rcvs hashes states \<longleftrightarrow>
     stored (cd_htlc B) outpoint_key full \<and>
     (\<forall>x r. rows (cd_htlc B) outpoint_key full x = Some r \<longrightarrow> x = (lock_tx_id r, output_index r)) \<and>
     indexed sender_idx snds (rows (cd_htlc B) outpoint_key full) \<and>
     indexed receiver_idx rcvs (rows (cd_htlc B) outpoint_key full) \<and>
     indexed hashlock_idx hashes (rows (cd_htlc B) outpoint_key full) \<and>
     indexed state_idx states (rows (cd_htlc B) outpoint_key full)"

definition settlements_ok :: "'b bincode \<Rightarrow> (u8 list, 'b) table \<Rightarrow> (u8 list, unit) table \<Rightarrow> bool" where
  "settlements_ok B byc bya \<longleftrightarrow>
     stored (cd_settlement B) settlement_row_key byc \<and>
     (\<forall>x s. rows (cd_settlement B) settlement_row_key byc x = Some s \<longrightarrow>
        x = (s_contract_hash s, s_observer_address s, s_block_height s, s_tx_id s)) \<and>
     indexed observer_idx bya (rows (cd_settlement B) settlement_row_key byc)"

definition datums_ok :: "'b bincode \<Rightarrow> (u8 list, 'b) table \<Rightarrow> (u8 list, unit) table \<Rightarrow> bool" where
  "datums_ok B fwd rvs \<longleftrightarrow>
     stored (cd_datum B) outpoint_key fwd \<and> indexed quote_idx rvs (rows (cd_datum B) outpoint_key fwd)"

definition spent_ok :: "'b bincode \<Rightarrow> (u8 list, 'b) table \<Rightarrow> bool" where
  "spent_ok B t \<longleftrightarrow>
     stored (cd_spent B) outpoint_key t \<and>
     (\<forall>x sb. rows (cd_spent B) outpoint_key t x = Some sb \<longrightarrow> x = (sb_prev_tx_id sb, sb_output_index sb))"

text \<open>The invariant of everything but the checkpoint, and with the checkpoint.\<close>

definition rows_ok :: "'b bincode \<Rightarrow> 'b db \<Rightarrow> bool" where
  "rows_ok B d \<longleftrightarrow>
     stored (cd_block B) be64 (BLOCK_META d) \<and>
     htlcs_ok B (HTLC_FULL d) (HTLC_BY_SENDER d) (HTLC_BY_RECEIVER d) (HTLC_BY_HASHLOCK d) (HTLC_BY_STATE d) \<and>
     settlements_ok B (SETTLEMENT_BY_CONTRACT d) (SETTLEMENT_BY_ADDRESS d) \<and>
     stored (cd_activity B) activity_row_key (TX_BY_ADDRESS d) \<and>
     spent_ok B (SPENT_BY d) \<and>
     datums_ok B (OUTPUT_DATUM d) (DATUM_BY_QUOTEID d)"

definition db_ok :: "'b bincode \<Rightarrow> 'b db \<Rightarrow> bool" where
  "db_ok B d \<longleftrightarrow> rows_ok B d \<and> stored (cd_meta B) (\<lambda>_ :: unit. CHAIN_TIP_KEY) (CHAIN_TIP d)"

lemmas view_simps = view_def rows_ok_def db_ok_def

lemma db_ok_open_all_tables [simp]: "db_ok B open_all_tables"
  by (simp add: view_simps htlcs_ok_def settlements_ok_def datums_ok_def spent_ok_def open_all_tables_def)

text \<open>The view and the invariant determine the database.\<close>

theorem db_eqI:
  assumes "db_ok B d" "db_ok B d'" "view B d = view B d'"
  shows "d = d'"
proof -
  note v = assms(3) [unfolded view_def StoreView.simps]
  have tip: "CHAIN_TIP d = CHAIN_TIP d'"
    using assms(1,2) v by (intro stored_eqI [of "cd_meta B" "\<lambda>_ :: unit. CHAIN_TIP_KEY"]) (auto simp: view_simps)
  have main: "BLOCK_META d = BLOCK_META d'" "HTLC_FULL d = HTLC_FULL d'"
    "SETTLEMENT_BY_CONTRACT d = SETTLEMENT_BY_CONTRACT d'" "TX_BY_ADDRESS d = TX_BY_ADDRESS d'"
    "SPENT_BY d = SPENT_BY d'" "OUTPUT_DATUM d = OUTPUT_DATUM d'"
    using assms(1,2) v unfolding view_simps htlcs_ok_def settlements_ok_def datums_ok_def spent_ok_def
    by (blast intro: stored_eqI)+
  have idx: "HTLC_BY_SENDER d = HTLC_BY_SENDER d'" "HTLC_BY_RECEIVER d = HTLC_BY_RECEIVER d'"
    "HTLC_BY_HASHLOCK d = HTLC_BY_HASHLOCK d'" "HTLC_BY_STATE d = HTLC_BY_STATE d'"
    "SETTLEMENT_BY_ADDRESS d = SETTLEMENT_BY_ADDRESS d'" "DATUM_BY_QUOTEID d = DATUM_BY_QUOTEID d'"
    using assms(1,2) unfolding view_simps htlcs_ok_def settlements_ok_def datums_ok_def main
    by (blast intro: indexed_unique)+
  show ?thesis using tip main idx by simp
qed


subsection \<open>Refinement of an abstract operation\<close>

definition sim :: "'b bincode \<Rightarrow> ('b db \<Rightarrow> 'b db res) \<Rightarrow> (StoreView \<Rightarrow> StoreView) \<Rightarrow> (StoreView \<Rightarrow> bool) \<Rightarrow> bool" where
  "sim B f g I \<longleftrightarrow> (\<forall>d. db_ok B d \<longrightarrow> I (view B d) \<longrightarrow>
     (\<exists>d'. f d = Inr d' \<and> db_ok B d' \<and> view B d' = g (view B d)))"

lemma simI:
  assumes "\<And>d. db_ok B d \<Longrightarrow> I (view B d) \<Longrightarrow> \<exists>d'. f d = Inr d' \<and> db_ok B d' \<and> view B d' = g (view B d)"
  shows "sim B f g I"
  using assms by (simp add: sim_def)

lemma simE:
  assumes "sim B f g I" "db_ok B d" "I (view B d)"
  obtains d' where "f d = Inr d'" "db_ok B d'" "view B d' = g (view B d)"
  using assms by (auto simp: sim_def)

lemma sim_weaken: "sim B f g I \<Longrightarrow> (\<And>A. J A \<Longrightarrow> I A) \<Longrightarrow> sim B f g J"
  by (simp add: sim_def)

lemma sim_bind:
  assumes "sim B f g I" "sim B f' g' J" "\<And>A. I A \<Longrightarrow> J (g A)"
  shows "sim B (\<lambda>d. bind_res (f d) f') (\<lambda>A. g' (g A)) I"
proof (rule simI)
  fix d assume d: "db_ok B d" "I (view B d)"
  from assms(1) d obtain d1 where d1: "f d = Inr d1" "db_ok B d1" "view B d1 = g (view B d)" by (rule simE)
  with d(2) assms(3) have "J (view B d1)" by simp
  with assms(2) d1(2) obtain d2 where "f' d1 = Inr d2" "db_ok B d2" "view B d2 = g' (view B d1)" by (rule simE)
  with d1 show "\<exists>d'. bind_res (f d) f' = Inr d' \<and> db_ok B d' \<and> view B d' = g' (g (view B d))" by simp
qed

lemma sim_fold:
  assumes "\<And>x. x \<in> set xs \<Longrightarrow> sim B (f x) (g x) I" "\<And>x A. x \<in> set xs \<Longrightarrow> I A \<Longrightarrow> I (g x A)"
  shows "sim B (fold_res f xs) (fold g xs) I"
  using assms
proof (induction xs)
  case Nil
  then show ?case by (simp add: sim_def)
next
  case (Cons x xs)
  have "sim B (\<lambda>d. bind_res (f x d) (fold_res f xs)) (\<lambda>A. fold g xs (g x A)) I"
    using Cons by (intro sim_bind [where J = I]) simp_all
  then show ?case by (simp add: sim_def)
qed

end
