(* ===== verification/StoreRefine.thy ===== *)
theory StoreRefine
  imports StoreSpec
begin

section \<open>The write path refines its specification\<close>

text \<open>
  The abstract meaning of each write operation, on the typed maps of the view, and the
  refinement lemma of each: under the invariant the operation succeeds, keeps the invariant
  and does to the view what the specification says. From these follow the properties of the
  per-block apply: it keeps every index exact, replaying a block or a run of blocks changes
  nothing, and a settled HTLC stays settled until its lock is indexed again.
\<close>

subsection \<open>Abstract operations\<close>

definition settled :: "HtlcRecord \<Rightarrow> bool" where
  "settled r \<longleftrightarrow> state r = Claimed \<or> state r = Reclaimed"

definition spec_lock :: "HtlcRecord \<Rightarrow> StoreView \<Rightarrow> StoreView" where
  "spec_lock r A = A\<lparr>av_htlcs := (av_htlcs A)((lock_tx_id r, output_index r) \<mapsto> r)\<rparr>"

definition spec_spend :: "u64 \<Rightarrow> ExtractedHtlcSpend \<Rightarrow> StoreView \<Rightarrow> StoreView" where
  "spec_spend height sp A =
     (case av_htlcs A (sp_lock_tx_id sp, sp_output_index sp) of
        None \<Rightarrow> A
      | Some r \<Rightarrow> if settled r then A
          else A\<lparr>av_htlcs := (av_htlcs A)((sp_lock_tx_id sp, sp_output_index sp) \<mapsto> settle_record (sp_arm sp) height r)\<rparr>)"

definition spec_settlement :: "SettlementRecord \<Rightarrow> StoreView \<Rightarrow> StoreView" where
  "spec_settlement s A = A\<lparr>av_settlements := (av_settlements A)
     ((s_contract_hash s, s_observer_address s, s_block_height s, s_tx_id s) \<mapsto> s)\<rparr>"

definition spec_activity :: "u64 \<Rightarrow> AddressActivity \<Rightarrow> StoreView \<Rightarrow> StoreView" where
  "spec_activity height a A = A\<lparr>av_activity := (av_activity A)
     ((a_address a, height, a_tx_id a, if a_is_input a then DIR_INPUT_FROM else DIR_OUTPUT_TO) \<mapsto>
        \<lparr>v_amount = a_amount a, v_is_coinbase = a_is_coinbase a, v_counterparties = a_counterparties a\<rparr>)\<rparr>"

definition spec_spent :: "SpentByCacheEntry \<Rightarrow> StoreView \<Rightarrow> StoreView" where
  "spec_spent sb A = A\<lparr>av_spent := (av_spent A)((sb_prev_tx_id sb, sb_output_index sb) \<mapsto> sb)\<rparr>"

definition spec_datum :: "u64 \<Rightarrow> ExtractedOutputDatum \<Rightarrow> StoreView \<Rightarrow> StoreView" where
  "spec_datum height od A = A\<lparr>av_datums := (av_datums A)((od_tx_id od, od_output_index od) \<mapsto>
     \<lparr>dr_quote_id = od_quote_id od, dr_unhonorable = od_unhonorable od, dr_block_height = height\<rparr>)\<rparr>"

definition spec_block :: "BlockApplyEvents \<Rightarrow> StoreView \<Rightarrow> StoreView" where
  "spec_block ev A = A\<lparr>av_blocks := (av_blocks A)(ev_height ev \<mapsto>
     \<lparr>bm_block_id = ev_block_id ev, bm_tx_count = ev_tx_count ev, bm_timestamp = ev_timestamp ev\<rparr>)\<rparr>"

definition spec_meta :: "FollowerMeta \<Rightarrow> StoreView \<Rightarrow> StoreView" where
  "spec_meta m A = A\<lparr>av_meta := Some m\<rparr>"

definition spec_apply :: "BlockApplyEvents \<Rightarrow> StoreView \<Rightarrow> StoreView" where
  "spec_apply ev A =
     spec_meta (advanced_meta ev)
      (fold (spec_datum (ev_height ev)) (ev_output_datums ev)
       (fold spec_spent (ev_spent_by ev)
        (fold (spec_activity (ev_height ev)) (ev_activity ev)
         (fold spec_settlement (ev_settlements ev)
          (fold (spec_spend (ev_height ev)) (ev_spends ev)
           (fold (\<lambda>lock. spec_lock (lk_record lock)) (ev_locks ev)
            (spec_block ev A)))))))"

lemmas spec_defs =
  spec_lock_def spec_spend_def spec_settlement_def spec_activity_def spec_spent_def spec_datum_def
  spec_block_def spec_meta_def


subsection \<open>HTLC rows\<close>

lemma htlcs_ok_forget:
  assumes ok: "htlcs_ok B full snds rcvs hashes states"
    and r: "rows (cd_htlc B) outpoint_key full (t, i) = Some r"
  shows "htlcs_ok B (t_remove full (htlc_primary_key t i))
      (t_remove snds (sender_key (sender (params r)) (lock_height_or_max r) t i))
      (t_remove rcvs (receiver_key (receiver (params r)) (lock_height_or_max r) t i))
      (t_remove hashes (hashlock_key (hash_lock (params r)) t i))
      (t_remove states (state_key (state r) (lock_height_or_max r) t i))"
    and "rows (cd_htlc B) outpoint_key (t_remove full (htlc_primary_key t i)) =
      (rows (cd_htlc B) outpoint_key full)((t, i) := None)"
proof -
  note ok' = ok [unfolded htlcs_ok_def]
  show rows': "rows (cd_htlc B) outpoint_key (t_remove full (htlc_primary_key t i)) =
      (rows (cd_htlc B) outpoint_key full)((t, i) := None)"
    using primary_key.rows_remove [of "cd_htlc B" full "(t, i)"] by simp
  show "htlcs_ok B (t_remove full (htlc_primary_key t i))
      (t_remove snds (sender_key (sender (params r)) (lock_height_or_max r) t i))
      (t_remove rcvs (receiver_key (receiver (params r)) (lock_height_or_max r) t i))
      (t_remove hashes (hashlock_key (hash_lock (params r)) t i))
      (t_remove states (state_key (state r) (lock_height_or_max r) t i))"
    unfolding htlcs_ok_def rows'
  proof (intro conjI)
    show "stored (cd_htlc B) outpoint_key (t_remove full (htlc_primary_key t i))"
      using ok' primary_key.stored_remove [of "cd_htlc B" full "(t, i)"] by simp
    show "\<forall>x r. ((rows (cd_htlc B) outpoint_key full)((t, i) := None)) x = Some r \<longrightarrow>
        x = (lock_tx_id r, output_index r)"
      using ok' by auto
  qed (use ok' r in \<open>auto intro!: by_sender.indexed_delete by_receiver.indexed_delete
          by_hashlock.indexed_delete by_state.indexed_delete\<close>)
qed

lemma htlcs_ok_insert:
  assumes ok: "htlcs_ok B full snds rcvs hashes states"
    and free: "rows (cd_htlc B) outpoint_key full (lock_tx_id r, output_index r) = None"
    and b: "ser (cd_htlc B) r = Some b" "de (cd_htlc B) b = Some r"
  shows "htlcs_ok B (t_insert full (htlc_primary_key (lock_tx_id r) (output_index r)) b)
      (t_insert snds (sender_key (sender (params r)) (lock_height_or_max r) (lock_tx_id r) (output_index r)) ())
      (t_insert rcvs (receiver_key (receiver (params r)) (lock_height_or_max r) (lock_tx_id r) (output_index r)) ())
      (t_insert hashes (hashlock_key (hash_lock (params r)) (lock_tx_id r) (output_index r)) ())
      (t_insert states (state_key (state r) (lock_height_or_max r) (lock_tx_id r) (output_index r)) ())"
    and "rows (cd_htlc B) outpoint_key (t_insert full (htlc_primary_key (lock_tx_id r) (output_index r)) b) =
      (rows (cd_htlc B) outpoint_key full)((lock_tx_id r, output_index r) \<mapsto> r)"
proof -
  note ok' = ok [unfolded htlcs_ok_def]
  show rows': "rows (cd_htlc B) outpoint_key (t_insert full (htlc_primary_key (lock_tx_id r) (output_index r)) b) =
      (rows (cd_htlc B) outpoint_key full)((lock_tx_id r, output_index r) \<mapsto> r)"
    using primary_key.rows_insert [OF b(2), of full "(lock_tx_id r, output_index r)"] by simp
  show "htlcs_ok B (t_insert full (htlc_primary_key (lock_tx_id r) (output_index r)) b)
      (t_insert snds (sender_key (sender (params r)) (lock_height_or_max r) (lock_tx_id r) (output_index r)) ())
      (t_insert rcvs (receiver_key (receiver (params r)) (lock_height_or_max r) (lock_tx_id r) (output_index r)) ())
      (t_insert hashes (hashlock_key (hash_lock (params r)) (lock_tx_id r) (output_index r)) ())
      (t_insert states (state_key (state r) (lock_height_or_max r) (lock_tx_id r) (output_index r)) ())"
    unfolding htlcs_ok_def rows'
  proof (intro conjI)
    show "stored (cd_htlc B) outpoint_key (t_insert full (htlc_primary_key (lock_tx_id r) (output_index r)) b)"
      using ok' primary_key.stored_insert [OF _ b, of full "(lock_tx_id r, output_index r)"] by simp
    show "\<forall>x r'. ((rows (cd_htlc B) outpoint_key full)((lock_tx_id r, output_index r) \<mapsto> r)) x = Some r' \<longrightarrow>
        x = (lock_tx_id r', output_index r')"
      using ok' by auto
  qed (use ok' free in \<open>auto intro!: by_sender.indexed_insert by_receiver.indexed_insert
          by_hashlock.indexed_insert by_state.indexed_insert\<close>)
qed

text \<open>The record found under a key is the record of that key.\<close>

lemma db_ok_htlc_key:
  assumes "db_ok B d" "av_htlcs (view B d) (t, i) = Some r"
  shows "lock_tx_id r = t" "output_index r = i"
  using assms by (auto simp: view_simps htlcs_ok_def)

lemma db_ok_htlc_at: "db_ok B d \<Longrightarrow> av_htlcs (view B d) x = Some r \<Longrightarrow> x = (lock_tx_id r, output_index r)"
  by (cases x) (auto dest: db_ok_htlc_key)

lemma db_ok_get_htlc:
  "db_ok B d \<Longrightarrow> get_rec (cd_htlc B) msg (HTLC_FULL d) (htlc_primary_key t i) = Inr (av_htlcs (view B d) (t, i))"
  using stored_get_rec [of "cd_htlc B" outpoint_key "HTLC_FULL d" msg "(t, i)"]
  by (simp add: view_simps htlcs_ok_def)

lemma forget_htlc:
  assumes "db_ok B d" "av_htlcs (view B d) (t, i) = Some r"
  shows "db_ok B (forget_htlc_within_txn (htlc_primary_key t i) r d)"
    and "view B (forget_htlc_within_txn (htlc_primary_key t i) r d) =
      (view B d)\<lparr>av_htlcs := (av_htlcs (view B d))((t, i) := None)\<rparr>"
proof -
  have ok: "htlcs_ok B (HTLC_FULL d) (HTLC_BY_SENDER d) (HTLC_BY_RECEIVER d) (HTLC_BY_HASHLOCK d) (HTLC_BY_STATE d)"
    and r: "rows (cd_htlc B) outpoint_key (HTLC_FULL d) (t, i) = Some r"
    using assms by (simp_all add: view_simps)
  note f = htlcs_ok_forget [OF ok r]
  show "db_ok B (forget_htlc_within_txn (htlc_primary_key t i) r d)"
    using assms(1) f(1) db_ok_htlc_key [OF assms] by (simp add: view_simps forget_htlc_within_txn_def Let_def)
  show "view B (forget_htlc_within_txn (htlc_primary_key t i) r d) =
      (view B d)\<lparr>av_htlcs := (av_htlcs (view B d))((t, i) := None)\<rparr>"
    using f(2) by (simp add: view_def forget_htlc_within_txn_def Let_def)
qed

lemma upsert_htlc:
  assumes "bincode_ok B"
  shows "sim B (upsert_htlc_within_txn B r) (spec_lock r) (\<lambda>_. True)"
proof (rule simI)
  fix d assume d: "db_ok B d"
  obtain b where b: "ser (cd_htlc B) r = Some b" "de (cd_htlc B) b = Some r"
    by (rule codec_okE [OF bincode_okD(3) [OF assms]])
  define x where "x = (lock_tx_id r, output_index r)"
  define d1 where "d1 = (case av_htlcs (view B d) x of
      Some prev \<Rightarrow> forget_htlc_within_txn (htlc_primary_key (lock_tx_id r) (output_index r)) prev d | None \<Rightarrow> d)"
  have "db_ok B d1 \<and> view B d1 = (view B d)\<lparr>av_htlcs := (av_htlcs (view B d))(x := None)\<rparr>"
  proof (cases "av_htlcs (view B d) x")
    case None
    then show ?thesis using d by (simp add: d1_def fun_upd_idem)
  next
    case (Some prev)
    then show ?thesis using forget_htlc [OF d] by (simp add: d1_def x_def)
  qed
  then have d1: "db_ok B d1" and v1: "view B d1 = (view B d)\<lparr>av_htlcs := (av_htlcs (view B d))(x := None)\<rparr>"
    by auto
  have ok: "htlcs_ok B (HTLC_FULL d1) (HTLC_BY_SENDER d1) (HTLC_BY_RECEIVER d1) (HTLC_BY_HASHLOCK d1) (HTLC_BY_STATE d1)"
    using d1 by (simp add: view_simps)
  have rows1: "rows (cd_htlc B) outpoint_key (HTLC_FULL d1) = (av_htlcs (view B d))(x := None)"
    using v1 by (simp add: view_def)
  have free: "rows (cd_htlc B) outpoint_key (HTLC_FULL d1) (lock_tx_id r, output_index r) = None"
    using rows1 by (simp add: x_def)
  note ins = htlcs_ok_insert [OF ok free b]
  define d2 where "d2 = d1
    \<lparr>HTLC_FULL := t_insert (HTLC_FULL d1) (htlc_primary_key (lock_tx_id r) (output_index r)) b,
     HTLC_BY_SENDER := t_insert (HTLC_BY_SENDER d1)
       (sender_key (sender (params r)) (lock_height_or_max r) (lock_tx_id r) (output_index r)) (),
     HTLC_BY_RECEIVER := t_insert (HTLC_BY_RECEIVER d1)
       (receiver_key (receiver (params r)) (lock_height_or_max r) (lock_tx_id r) (output_index r)) (),
     HTLC_BY_HASHLOCK := t_insert (HTLC_BY_HASHLOCK d1)
       (hashlock_key (hash_lock (params r)) (lock_tx_id r) (output_index r)) (),
     HTLC_BY_STATE := t_insert (HTLC_BY_STATE d1)
       (state_key (state r) (lock_height_or_max r) (lock_tx_id r) (output_index r)) ()\<rparr>"
  have "upsert_htlc_within_txn B r d = Inr d2"
    using b db_ok_get_htlc [OF d]
    by (simp add: upsert_htlc_within_txn_def encode_rec_def Let_def d1_def x_def d2_def)
  moreover have "db_ok B d2"
    using d1 ins(1) by (simp add: view_simps d2_def)
  moreover have "view B d2 = spec_lock r (view B d)"
  proof -
    have "view B d2 = (view B d1)\<lparr>av_htlcs := rows (cd_htlc B) outpoint_key (HTLC_FULL d2)\<rparr>"
      by (simp add: view_def d2_def)
    also have "rows (cd_htlc B) outpoint_key (HTLC_FULL d2) = (av_htlcs (view B d))(x \<mapsto> r)"
      using ins(2) rows1 by (simp add: d2_def x_def)
    finally show ?thesis by (simp add: v1 spec_lock_def x_def fun_upd_def)
  qed
  ultimately show "\<exists>d'. upsert_htlc_within_txn B r d = Inr d' \<and> db_ok B d' \<and> view B d' = spec_lock r (view B d)"
    by blast
qed

lemma settle_record_key [simp]:
  "lock_tx_id (settle_record arm h r) = lock_tx_id r" "output_index (settle_record arm h r) = output_index r"
  by (cases arm; simp add: settle_record_def)+

lemma settled_settle_record [simp]: "settled (settle_record arm h r)"
  by (cases arm) (simp_all add: settle_record_def settled_def)

lemma advance_htlc:
  assumes "bincode_ok B"
  shows "sim B (advance_htlc_within_txn B sp h) (spec_spend h sp) (\<lambda>_. True)"
proof (rule simI)
  fix d assume d: "db_ok B d"
  let ?x = "(sp_lock_tx_id sp, sp_output_index sp)"
  show "\<exists>d'. advance_htlc_within_txn B sp h d = Inr d' \<and> db_ok B d' \<and> view B d' = spec_spend h sp (view B d)"
  proof (cases "av_htlcs (view B d) ?x")
    case None
    then show ?thesis
      using d by (simp add: advance_htlc_within_txn_def db_ok_get_htlc spec_spend_def)
  next
    case (Some r)
    show ?thesis
    proof (cases "settled r")
      case True
      then show ?thesis
        using d Some by (simp add: advance_htlc_within_txn_def db_ok_get_htlc spec_spend_def settled_def)
    next
      case False
      note f = forget_htlc [OF d Some] and k = db_ok_htlc_key [OF d Some]
      obtain d2 where d2: "upsert_htlc_within_txn B (settle_record (sp_arm sp) h r)
          (forget_htlc_within_txn (htlc_primary_key (sp_lock_tx_id sp) (sp_output_index sp)) r d) = Inr d2"
        "db_ok B d2"
        "view B d2 = spec_lock (settle_record (sp_arm sp) h r)
          ((view B d)\<lparr>av_htlcs := (av_htlcs (view B d))(?x := None)\<rparr>)"
        using simE [OF upsert_htlc [OF assms] f(1)] f(2) by metis
      then show ?thesis
        using False Some k d by (simp add: advance_htlc_within_txn_def db_ok_get_htlc spec_spend_def spec_lock_def settled_def)
    qed
  qed
qed


subsection \<open>The other rows\<close>

lemma write_settlement:
  assumes "bincode_ok B"
  shows "sim B (write_settlement_within_txn B s) (spec_settlement s) (\<lambda>_. True)"
proof (rule simI)
  fix d assume d: "db_ok B d"
  obtain b where b: "ser (cd_settlement B) s = Some b" "de (cd_settlement B) b = Some s"
    by (rule codec_okE [OF bincode_okD(4) [OF assms]])
  define x where "x = (s_contract_hash s, s_observer_address s, s_block_height s, s_tx_id s)"
  define t where "t = SETTLEMENT_BY_CONTRACT d"
  define k where "k = settlement_by_contract_key (s_contract_hash s) (s_observer_address s) (s_block_height s) (s_tx_id s)"
  define mk where "mk = settlement_by_address_key (s_observer_address s) (s_contract_hash s) (s_block_height s) (s_tx_id s)"
  have ok: "settlements_ok B t (SETTLEMENT_BY_ADDRESS d)"
    using d by (simp add: view_simps t_def)
  note ok' = ok [unfolded settlements_ok_def]
  have rows': "rows (cd_settlement B) settlement_row_key (t_insert t k b) =
      (rows (cd_settlement B) settlement_row_key t)(x \<mapsto> s)"
    using contract_key.rows_insert [OF b(2), of t x] by (simp add: x_def k_def)
  have idx: "observer_idx x s = Some mk"
    by (simp add: x_def mk_def)
  have "indexed observer_idx (t_insert (SETTLEMENT_BY_ADDRESS d) mk ())
      ((rows (cd_settlement B) settlement_row_key t)(x \<mapsto> s))"
    using ok' idx by (intro by_observer.indexed_overwrite) (auto simp: x_def)
  then have "settlements_ok B (t_insert t k b) (t_insert (SETTLEMENT_BY_ADDRESS d) mk ())"
    unfolding settlements_ok_def rows'
    using ok' contract_key.stored_insert [OF _ b, of t x] by (auto simp: x_def k_def)
  then show "\<exists>d'. write_settlement_within_txn B s d = Inr d' \<and> db_ok B d' \<and>
      view B d' = spec_settlement s (view B d)"
    using d b rows' by (simp add: view_simps write_settlement_within_txn_def encode_rec_def Let_def
        spec_settlement_def t_def k_def mk_def x_def)
qed

lemma write_activity:
  assumes "bincode_ok B"
  shows "sim B (write_activity_within_txn B a h) (spec_activity h a) (\<lambda>_. True)"
proof (rule simI)
  fix d assume d: "db_ok B d"
  let ?v = "\<lparr>v_amount = a_amount a, v_is_coinbase = a_is_coinbase a, v_counterparties = a_counterparties a\<rparr>"
  obtain b where b: "ser (cd_activity B) ?v = Some b" "de (cd_activity B) b = Some ?v"
    by (rule codec_okE [OF bincode_okD(5) [OF assms]])
  define x where "x = (a_address a, h, a_tx_id a, if a_is_input a then DIR_INPUT_FROM else DIR_OUTPUT_TO)"
  have key: "activity_row_key x = tx_by_address_key (a_address a) h (a_tx_id a)
      (if a_is_input a then DIR_INPUT_FROM else DIR_OUTPUT_TO)"
    by (simp add: x_def)
  have "stored (cd_activity B) activity_row_key (t_insert (TX_BY_ADDRESS d) (activity_row_key x) b)"
    using d b by (intro activity_key.stored_insert) (auto simp: view_simps)
  moreover have "rows (cd_activity B) activity_row_key (t_insert (TX_BY_ADDRESS d) (activity_row_key x) b) =
      (rows (cd_activity B) activity_row_key (TX_BY_ADDRESS d))(x \<mapsto> ?v)"
    by (rule activity_key.rows_insert) (rule b(2))
  ultimately show "\<exists>d'. write_activity_within_txn B a h d = Inr d' \<and> db_ok B d' \<and>
      view B d' = spec_activity h a (view B d)"
    unfolding key using d b
    by (simp add: view_simps write_activity_within_txn_def encode_rec_def Let_def spec_activity_def x_def)
qed

lemma write_spent_by:
  assumes "bincode_ok B"
  shows "sim B (write_spent_by_within_txn B sb) (spec_spent sb) (\<lambda>_. True)"
proof (rule simI)
  fix d assume d: "db_ok B d"
  obtain b where b: "ser (cd_spent B) sb = Some b" "de (cd_spent B) b = Some sb"
    by (rule codec_okE [OF bincode_okD(6) [OF assms]])
  let ?k = "htlc_primary_key (sb_prev_tx_id sb) (sb_output_index sb)"
  let ?x = "(sb_prev_tx_id sb, sb_output_index sb)"
  have ok: "spent_ok B (SPENT_BY d)"
    using d by (simp add: view_simps)
  have rows': "rows (cd_spent B) outpoint_key (t_insert (SPENT_BY d) ?k b) =
      (rows (cd_spent B) outpoint_key (SPENT_BY d))(?x \<mapsto> sb)"
    using primary_key.rows_insert [OF b(2), of "SPENT_BY d" ?x] by simp
  then have "spent_ok B (t_insert (SPENT_BY d) ?k b)"
    using ok primary_key.stored_insert [OF _ b, of "SPENT_BY d" ?x] by (simp add: spent_ok_def)
  then show "\<exists>d'. write_spent_by_within_txn B sb d = Inr d' \<and> db_ok B d' \<and> view B d' = spec_spent sb (view B d)"
    using d b rows' by (simp add: view_simps write_spent_by_within_txn_def encode_rec_def spec_spent_def spent_by_key_def)
qed

text \<open>
  A settlement datum is written under an outpoint that has no row yet, or a row of the same
  quote id: on one chain an outpoint names one output, whose datum does not change.
\<close>

definition datum_agrees :: "ExtractedOutputDatum \<Rightarrow> StoreView \<Rightarrow> bool" where
  "datum_agrees od A \<longleftrightarrow>
     (case av_datums A (od_tx_id od, od_output_index od) of None \<Rightarrow> True | Some r \<Rightarrow> dr_quote_id r = od_quote_id od)"

lemma write_output_datum:
  assumes "bincode_ok B"
  shows "sim B (write_output_datum_within_txn B od h) (spec_datum h od) (datum_agrees od)"
proof (rule simI)
  fix d assume d: "db_ok B d" and agree: "datum_agrees od (view B d)"
  let ?v = "\<lparr>dr_quote_id = od_quote_id od, dr_unhonorable = od_unhonorable od, dr_block_height = h\<rparr>"
  obtain b where b: "ser (cd_datum B) ?v = Some b" "de (cd_datum B) b = Some ?v"
    by (rule codec_okE [OF bincode_okD(7) [OF assms]])
  let ?k = "htlc_primary_key (od_tx_id od) (od_output_index od)"
  let ?x = "(od_tx_id od, od_output_index od)"
  let ?m = "rows (cd_datum B) outpoint_key (OUTPUT_DATUM d)"
  define rvs where "rvs = (case od_quote_id od of
      Some q \<Rightarrow> t_insert (DATUM_BY_QUOTEID d) (datum_by_quoteid_key q (od_tx_id od) (od_output_index od)) ()
    | None \<Rightarrow> DATUM_BY_QUOTEID d)"
  have ok: "datums_ok B (OUTPUT_DATUM d) (DATUM_BY_QUOTEID d)"
    using d by (simp add: view_simps)
  have same: "\<And>r. ?m ?x = Some r \<Longrightarrow> dr_quote_id r = od_quote_id od"
    using agree by (simp add: datum_agrees_def view_def)
  have rows': "rows (cd_datum B) outpoint_key (t_insert (OUTPUT_DATUM d) ?k b) = ?m(?x \<mapsto> ?v)"
    using primary_key.rows_insert [OF b(2), of "OUTPUT_DATUM d" ?x] by simp
  have "indexed quote_idx rvs (?m(?x \<mapsto> ?v))"
  proof (cases "od_quote_id od")
    case None
    then show ?thesis
      using ok same by (auto simp: rvs_def datums_ok_def intro!: by_quote.indexed_overwrite_unlisted)
  next
    case (Some q)
    then show ?thesis
      using ok same by (auto simp: rvs_def datums_ok_def intro!: by_quote.indexed_overwrite)
  qed
  then have "datums_ok B (t_insert (OUTPUT_DATUM d) ?k b) rvs"
    using ok primary_key.stored_insert [OF _ b, of "OUTPUT_DATUM d" ?x] by (simp add: datums_ok_def rows')
  then show "\<exists>d'. write_output_datum_within_txn B od h d = Inr d' \<and> db_ok B d' \<and>
      view B d' = spec_datum h od (view B d)"
    using d b rows' by (cases "od_quote_id od")
      (simp_all add: view_simps write_output_datum_within_txn_def encode_rec_def spec_datum_def
        output_datum_key_def Let_def rvs_def)
qed

lemma write_block_meta:
  assumes "bincode_ok B"
  shows "sim B (write_block_meta B ev) (spec_block ev) (\<lambda>_. True)"
proof (rule simI)
  fix d assume d: "db_ok B d"
  let ?v = "\<lparr>bm_block_id = ev_block_id ev, bm_tx_count = ev_tx_count ev, bm_timestamp = ev_timestamp ev\<rparr>"
  obtain b where b: "ser (cd_block B) ?v = Some b" "de (cd_block B) b = Some ?v"
    by (rule codec_okE [OF bincode_okD(2) [OF assms]])
  have "stored (cd_block B) be64 (t_insert (BLOCK_META d) (be64 (ev_height ev)) b)"
    using d b by (intro meta_key.stored_insert) (auto simp: view_simps)
  moreover have "rows (cd_block B) be64 (t_insert (BLOCK_META d) (be64 (ev_height ev)) b) =
      (rows (cd_block B) be64 (BLOCK_META d))(ev_height ev \<mapsto> ?v)"
    by (rule meta_key.rows_insert) (rule b(2))
  ultimately show "\<exists>d'. write_block_meta B ev d = Inr d' \<and> db_ok B d' \<and> view B d' = spec_block ev (view B d)"
    using d b by (simp add: view_simps write_block_meta_def encode_rec_def spec_block_def)
qed

text \<open>The checkpoint row needs no valid predecessor: it is the only row of its table.\<close>

lemma write_meta_rows:
  assumes "bincode_ok B" "rows_ok B d" "keyed (\<lambda>_ :: unit. CHAIN_TIP_KEY) (CHAIN_TIP d)"
  shows "\<exists>d'. write_meta B m d = Inr d' \<and> db_ok B d' \<and> view B d' = spec_meta m (view B d)"
proof -
  obtain b where b: "ser (cd_meta B) m = Some b" "de (cd_meta B) b = Some m"
    by (rule codec_okE [OF bincode_okD(1) [OF assms(1)]])
  let ?t = "t_insert (CHAIN_TIP d) CHAIN_TIP_KEY b"
  have "stored (cd_meta B) (\<lambda>_ :: unit. CHAIN_TIP_KEY) ?t"
    using assms(3) b by (auto simp: stored_def keyed_def encoded_def)
  moreover have "rows (cd_meta B) (\<lambda>_ :: unit. CHAIN_TIP_KEY) ?t () = Some m"
    using b by (simp add: rows_def t_recs_insert)
  ultimately show ?thesis
    using assms(2) b by (simp add: view_simps write_meta_def encode_rec_def spec_meta_def)
qed

lemma write_meta: "bincode_ok B \<Longrightarrow> sim B (write_meta B m) (spec_meta m) (\<lambda>_. True)"
  by (rule simI, rule write_meta_rows) (simp_all add: db_ok_def stored_def)

end
