(* ===== verification/StoreApply.thy ===== *)
theory StoreApply
  imports StoreRefine
begin

section \<open>The per-block apply: refinement, closed forms and replay\<close>

text \<open>
  \<^verbatim>\<open>apply_block_events\<close> as a whole: it refines \<open>spec_apply\<close>, whose
  effect on each map is given in closed form. Two facts follow that the follower's recovery
  rests on: applying a block that is already applied leaves the database as it is, byte for
  byte, and so does walking again over any run of blocks.
\<close>

subsection \<open>Consistent settlement data\<close>

definition datums_consistent :: "ExtractedOutputDatum list \<Rightarrow> StoreView \<Rightarrow> bool" where
  "datums_consistent ods A \<longleftrightarrow>
     list_all (\<lambda>od. datum_agrees od A \<and>
       list_all (\<lambda>od'. od_tx_id od' = od_tx_id od \<longrightarrow> od_output_index od' = od_output_index od \<longrightarrow>
         od_quote_id od' = od_quote_id od) ods) ods"

lemma datums_consistent_cong: "av_datums A = av_datums A' \<Longrightarrow> datums_consistent ods A = datums_consistent ods A'"
  by (simp add: datums_consistent_def datum_agrees_def)

lemma datums_consistent_subset:
  "datums_consistent ods A \<Longrightarrow> set ods' \<subseteq> set ods \<Longrightarrow> datums_consistent ods' A"
  unfolding datums_consistent_def list_all_iff by blast

lemma datums_consistentD:
  assumes "datums_consistent ods A" "od \<in> set ods"
  shows "datum_agrees od A"
    and "od' \<in> set ods \<Longrightarrow> od_tx_id od' = od_tx_id od \<Longrightarrow> od_output_index od' = od_output_index od \<Longrightarrow>
      od_quote_id od' = od_quote_id od"
  using assms unfolding datums_consistent_def list_all_iff by blast+

lemma datums_consistent_step:
  assumes ok: "datums_consistent ods A" and od: "od \<in> set ods"
  shows "datums_consistent ods (spec_datum h od A)"
proof -
  have "datum_agrees od' (spec_datum h od A)" if od': "od' \<in> set ods" for od'
  proof (cases "(od_tx_id od', od_output_index od') = (od_tx_id od, od_output_index od)")
    case True
    then have "od_quote_id od' = od_quote_id od"
      using datums_consistentD(2) [OF ok od od'] by simp
    with True show ?thesis by (simp add: datum_agrees_def spec_datum_def)
  next
    case False
    then show ?thesis
      using datums_consistentD(1) [OF ok od'] by (auto simp: datum_agrees_def spec_datum_def)
  qed
  with ok show ?thesis
    unfolding datums_consistent_def list_all_iff by blast
qed

lemma datums_consistent_fold:
  assumes "datums_consistent ods A" "set ods' \<subseteq> set ods"
  shows "datums_consistent ods (fold (spec_datum h) ods' A)"
  using assms by (induction ods' arbitrary: A) (simp_all add: datums_consistent_step)


subsection \<open>Closed forms of the specification\<close>

text \<open>The rows a list of events writes: the last event of a key wins.\<close>

definition written :: "('e \<Rightarrow> 'k) \<Rightarrow> ('e \<Rightarrow> 'v) \<Rightarrow> 'e list \<Rightarrow> 'k \<rightharpoonup> 'v" where
  "written key val es = map_of (rev (map (\<lambda>e. (key e, val e)) es))"

lemma written_Nil [simp]: "written key val [] = Map.empty"
  by (simp add: written_def)

lemma written_Cons: "m ++ written key val (e # es) = m(key e \<mapsto> val e) ++ written key val es"
  by (simp add: written_def)

lemma written_eq_Some:
  "written key val es k = Some v \<Longrightarrow> \<exists>e\<in>set es. key e = k \<and> val e = v"
  by (auto simp: written_def dest!: map_of_SomeD)

lemma written_eq_None_iff: "written key val es k = None \<longleftrightarrow> k \<notin> key ` set es"
  by (force simp: written_def map_of_eq_None_iff image_iff)

definition locked :: "BlockApplyEvents \<Rightarrow> outpoint \<rightharpoonup> HtlcRecord" where
  "locked ev = written (\<lambda>l. (lock_tx_id (lk_record l), output_index (lk_record l))) lk_record (ev_locks ev)"

lemma fold_spec_lock:
  "fold (\<lambda>l. spec_lock (lk_record l)) ls A =
     A\<lparr>av_htlcs := av_htlcs A ++ written (\<lambda>l. (lock_tx_id (lk_record l), output_index (lk_record l))) lk_record ls\<rparr>"
  by (induction ls arbitrary: A) (simp_all add: written_Cons spec_lock_def)

lemma fold_spec_settlement:
  "fold spec_settlement ss A = A\<lparr>av_settlements := av_settlements A ++
     written (\<lambda>s. (s_contract_hash s, s_observer_address s, s_block_height s, s_tx_id s)) (\<lambda>s. s) ss\<rparr>"
  by (induction ss arbitrary: A) (simp_all add: written_Cons spec_settlement_def)

definition activity_key_of :: "u64 \<Rightarrow> AddressActivity \<Rightarrow> 32 bytes \<times> u64 \<times> 32 bytes \<times> u8" where
  "activity_key_of h a = (a_address a, h, a_tx_id a, if a_is_input a then DIR_INPUT_FROM else DIR_OUTPUT_TO)"

definition activity_value_of :: "AddressActivity \<Rightarrow> ActivityValue" where
  "activity_value_of a =
     \<lparr>v_amount = a_amount a, v_is_coinbase = a_is_coinbase a, v_counterparties = a_counterparties a\<rparr>"

lemma fold_spec_activity:
  "fold (spec_activity h) as A = A\<lparr>av_activity := av_activity A ++ written (activity_key_of h) activity_value_of as\<rparr>"
  by (induction as arbitrary: A)
    (simp_all add: written_Cons spec_activity_def activity_key_of_def activity_value_of_def)

lemma fold_spec_spent:
  "fold spec_spent sbs A = A\<lparr>av_spent := av_spent A ++ written (\<lambda>sb. (sb_prev_tx_id sb, sb_output_index sb)) (\<lambda>sb. sb) sbs\<rparr>"
  by (induction sbs arbitrary: A) (simp_all add: written_Cons spec_spent_def)

definition datum_value_of :: "u64 \<Rightarrow> ExtractedOutputDatum \<Rightarrow> OutputDatumRecord" where
  "datum_value_of h od = \<lparr>dr_quote_id = od_quote_id od, dr_unhonorable = od_unhonorable od, dr_block_height = h\<rparr>"

lemma fold_spec_datum:
  "fold (spec_datum h) ods A =
     A\<lparr>av_datums := av_datums A ++ written (\<lambda>od. (od_tx_id od, od_output_index od)) (datum_value_of h) ods\<rparr>"
  by (induction ods arbitrary: A) (simp_all add: written_Cons spec_datum_def datum_value_of_def)

text \<open>An HTLC under the spends of a block: the first spend of an unsettled one settles it.\<close>

definition spend_hits :: "outpoint \<Rightarrow> ExtractedHtlcSpend \<Rightarrow> bool" where
  "spend_hits x sp \<longleftrightarrow> (sp_lock_tx_id sp, sp_output_index sp) = x"

definition after_spends :: "u64 \<Rightarrow> ExtractedHtlcSpend list \<Rightarrow> outpoint \<Rightarrow> HtlcRecord \<Rightarrow> HtlcRecord" where
  "after_spends h sps x r =
     (if settled r then r
      else case find (spend_hits x) sps of None \<Rightarrow> r | Some sp \<Rightarrow> settle_record (sp_arm sp) h r)"

lemma settled_settle [simp]: "settled (settle_record arm h r)"
  by (simp add: settled_def settle_record_def split: HtlcSpendArm.split)

lemma spec_spend_fields:
  "spec_spend h sp A = A\<lparr>av_htlcs := (\<lambda>x. map_option (after_spends h [sp] x) (av_htlcs A x))\<rparr>"
proof (cases "av_htlcs A (sp_lock_tx_id sp, sp_output_index sp)")
  case None
  then have "(\<lambda>x. map_option (after_spends h [sp] x) (av_htlcs A x)) = av_htlcs A"
    by (intro ext option.map_ident_strong) (auto simp: after_spends_def spend_hits_def)
  then show ?thesis using None by (simp add: spec_spend_def)
next
  case (Some r)
  have *: "map_option (after_spends h [sp] x) (av_htlcs A x) = av_htlcs A x"
    if "x \<noteq> (sp_lock_tx_id sp, sp_output_index sp)" for x
    using that by (auto simp: after_spends_def spend_hits_def option.map_ident_strong)
  show ?thesis
  proof (cases "settled r")
    case True
    then have "(\<lambda>x. map_option (after_spends h [sp] x) (av_htlcs A x)) = av_htlcs A"
      by (intro ext option.map_ident_strong) (use Some in \<open>auto simp: after_spends_def spend_hits_def\<close>)
    then show ?thesis using Some True by (simp add: spec_spend_def)
  next
    case False
    then have "(\<lambda>x. map_option (after_spends h [sp] x) (av_htlcs A x)) =
        (av_htlcs A)((sp_lock_tx_id sp, sp_output_index sp) \<mapsto> settle_record (sp_arm sp) h r)"
      using Some * by (auto simp: fun_eq_iff after_spends_def spend_hits_def)
    then show ?thesis using Some False by (simp add: spec_spend_def)
  qed
qed

lemma after_spends_Cons: "after_spends h sps x (after_spends h [sp] x r) = after_spends h (sp # sps) x r"
  by (auto simp: after_spends_def split: option.splits)

lemma fold_spec_spend:
  "fold (spec_spend h) sps A = A\<lparr>av_htlcs := (\<lambda>x. map_option (after_spends h sps x) (av_htlcs A x))\<rparr>"
proof (induction sps arbitrary: A)
  case Nil
  have "after_spends h [] x = (\<lambda>r. r)" for x
    by (auto simp: after_spends_def)
  then show ?case by (simp add: option.map_ident)
next
  case (Cons sp sps)
  then show ?case
    by (simp add: spec_spend_fields option.map_comp comp_def after_spends_Cons)
qed

lemmas fold_specs =
  fold_spec_lock fold_spec_settlement fold_spec_activity fold_spec_spent fold_spec_datum fold_spec_spend

text \<open>The whole block, map by map.\<close>

lemma spec_apply_eq:
  "spec_apply ev A =
    \<lparr>av_meta = Some (advanced_meta ev),
     av_blocks = (av_blocks A)(ev_height ev \<mapsto>
       \<lparr>bm_block_id = ev_block_id ev, bm_tx_count = ev_tx_count ev, bm_timestamp = ev_timestamp ev\<rparr>),
     av_htlcs = (\<lambda>x. map_option (after_spends (ev_height ev) (ev_spends ev) x) ((av_htlcs A ++ locked ev) x)),
     av_settlements = av_settlements A ++
       written (\<lambda>s. (s_contract_hash s, s_observer_address s, s_block_height s, s_tx_id s)) (\<lambda>s. s) (ev_settlements ev),
     av_activity = av_activity A ++ written (activity_key_of (ev_height ev)) activity_value_of (ev_activity ev),
     av_spent = av_spent A ++ written (\<lambda>sb. (sb_prev_tx_id sb, sb_output_index sb)) (\<lambda>sb. sb) (ev_spent_by ev),
     av_datums = av_datums A ++
       written (\<lambda>od. (od_tx_id od, od_output_index od)) (datum_value_of (ev_height ev)) (ev_output_datums ev)\<rparr>"
  by (simp add: spec_apply_def fold_specs spec_meta_def spec_block_def locked_def)

lemma spec_apply_fields:
  "av_htlcs (spec_apply ev A) =
     (\<lambda>x. map_option (after_spends (ev_height ev) (ev_spends ev) x) ((av_htlcs A ++ locked ev) x))"
  "av_settlements (spec_apply ev A) = av_settlements A ++
     written (\<lambda>s. (s_contract_hash s, s_observer_address s, s_block_height s, s_tx_id s)) (\<lambda>s. s) (ev_settlements ev)"
  "av_activity (spec_apply ev A) = av_activity A ++ written (activity_key_of (ev_height ev)) activity_value_of (ev_activity ev)"
  "av_datums (spec_apply ev A) = av_datums A ++
     written (\<lambda>od. (od_tx_id od, od_output_index od)) (datum_value_of (ev_height ev)) (ev_output_datums ev)"
  by (simp_all add: spec_apply_eq)


subsection \<open>Refinement\<close>

lemma apply_refines:
  assumes "bincode_ok B"
  shows "sim B (apply_block_events B ev) (spec_apply ev) (datums_consistent (ev_output_datums ev))"
proof -
  let ?I = "datums_consistent (ev_output_datums ev)"
  have keep: "?I A' = ?I A" if "av_datums A' = av_datums A" for A A'
    using that by (rule datums_consistent_cong)
  note weak = sim_weaken [where J = "?I"]
  have locks: "sim B (fold_res (\<lambda>l. upsert_htlc_within_txn B (lk_record l)) (ev_locks ev))
      (fold (\<lambda>l. spec_lock (lk_record l)) (ev_locks ev)) ?I"
    by (rule sim_fold) (auto intro: weak [OF upsert_htlc [OF assms]] simp: spec_lock_def cong: datums_consistent_cong)
  have spends: "sim B (fold_res (\<lambda>sp. advance_htlc_within_txn B sp (ev_height ev)) (ev_spends ev))
      (fold (spec_spend (ev_height ev)) (ev_spends ev)) ?I"
    by (rule sim_fold) (auto intro: weak [OF advance_htlc [OF assms]] simp: spec_spend_fields cong: datums_consistent_cong)
  have setts: "sim B (fold_res (write_settlement_within_txn B) (ev_settlements ev))
      (fold spec_settlement (ev_settlements ev)) ?I"
    by (rule sim_fold) (auto intro: weak [OF write_settlement [OF assms]] simp: spec_settlement_def cong: datums_consistent_cong)
  have acts: "sim B (fold_res (\<lambda>a. write_activity_within_txn B a (ev_height ev)) (ev_activity ev))
      (fold (spec_activity (ev_height ev)) (ev_activity ev)) ?I"
    by (rule sim_fold) (auto intro: weak [OF write_activity [OF assms]] simp: spec_activity_def cong: datums_consistent_cong)
  have spents: "sim B (fold_res (write_spent_by_within_txn B) (ev_spent_by ev))
      (fold spec_spent (ev_spent_by ev)) ?I"
    by (rule sim_fold) (auto intro: weak [OF write_spent_by [OF assms]] simp: spec_spent_def cong: datums_consistent_cong)
  have datums: "sim B (fold_res (\<lambda>od. write_output_datum_within_txn B od (ev_height ev)) (ev_output_datums ev))
      (fold (spec_datum (ev_height ev)) (ev_output_datums ev)) ?I"
    by (rule sim_fold)
      (blast intro: sim_weaken [OF write_output_datum [OF assms]] datums_consistentD(1), rule datums_consistent_step)
  have pres: "?I A \<Longrightarrow> av_datums A' = av_datums A \<Longrightarrow> ?I A'" for A A'
    using keep by blast
  have c7: "sim B (\<lambda>d. bind_res (fold_res (\<lambda>od. write_output_datum_within_txn B od (ev_height ev)) (ev_output_datums ev) d)
        (write_meta B (advanced_meta ev)))
      (\<lambda>A. spec_meta (advanced_meta ev) (fold (spec_datum (ev_height ev)) (ev_output_datums ev) A)) ?I"
    by (rule sim_bind [OF datums write_meta [OF assms]]) simp
  note block = sim_weaken [OF write_block_meta [OF assms, of ev], of ?I, OF TrueI]
  note c6 = sim_bind [OF spents c7]
  note c5 = sim_bind [OF acts c6]
  note c4 = sim_bind [OF setts c5]
  note c3 = sim_bind [OF spends c4]
  note c2 = sim_bind [OF locks c3]
  show ?thesis
    unfolding apply_block_events_def spec_apply_def
    by (rule sim_bind [OF block c2]) (erule pres, simp add: fold_specs spec_block_def)+
qed


subsection \<open>Runs of blocks\<close>

text \<open>The follower applies the blocks of a walk one after the other, each in its own transaction.\<close>

definition apply_blocks :: "'b bincode \<Rightarrow> BlockApplyEvents list \<Rightarrow> 'b db \<Rightarrow> 'b db res" where
  "apply_blocks B evs d = fold_res (apply_block_events B) evs d"

definition run_datums :: "BlockApplyEvents list \<Rightarrow> ExtractedOutputDatum list" where
  "run_datums evs = concat (map ev_output_datums evs)"

lemma datums_consistent_apply:
  assumes "datums_consistent ods A" "set (ev_output_datums ev) \<subseteq> set ods"
  shows "datums_consistent ods (spec_apply ev A)"
proof -
  have "av_datums (spec_apply ev A) = av_datums (fold (spec_datum (ev_height ev)) (ev_output_datums ev) A)"
    by (simp add: spec_apply_eq fold_spec_datum)
  then show ?thesis
    using datums_consistent_fold [OF assms] datums_consistent_cong by blast
qed

lemma apply_blocks_refines:
  assumes "bincode_ok B"
  shows "sim B (apply_blocks B evs) (fold spec_apply evs) (datums_consistent (run_datums evs))"
proof -
  have "sim B (fold_res (apply_block_events B) evs) (fold spec_apply evs) (datums_consistent (run_datums evs))"
  proof (rule sim_fold)
    fix ev assume ev: "ev \<in> set evs"
    then have sub: "set (ev_output_datums ev) \<subseteq> set (run_datums evs)"
      by (auto simp: run_datums_def)
    show "sim B (apply_block_events B ev) (spec_apply ev) (datums_consistent (run_datums evs))"
      by (rule sim_weaken [OF apply_refines [OF assms]]) (erule datums_consistent_subset [OF _ sub])
    show "datums_consistent (run_datums evs) (spec_apply ev A)" if "datums_consistent (run_datums evs) A" for A
      using that sub by (rule datums_consistent_apply)
  qed
  then show ?thesis by (simp add: apply_blocks_def [abs_def])
qed


subsection \<open>Replay\<close>

text \<open>
  What an operation does to one row: it writes a fixed value (or removes it), whatever was
  there; or it never creates the row, leaves a final one alone, and either changes nothing or
  makes every row final. Doing such a thing twice is doing it once, and a sequence of such
  things is again such a thing.
\<close>

definition absorbing :: "('r \<Rightarrow> bool) \<Rightarrow> ('r option \<Rightarrow> 'r option) \<Rightarrow> bool" where
  "absorbing final f \<longleftrightarrow> (\<exists>c. \<forall>v. f v = c) \<or>
     (f None = None \<and> (\<forall>r. final r \<longrightarrow> f (Some r) = Some r) \<and>
      ((\<forall>r. f (Some r) = Some r) \<or> (\<forall>r. \<exists>r'. f (Some r) = Some r' \<and> final r')))"

lemma absorbing_id: "absorbing final (\<lambda>v. v)"
  by (simp add: absorbing_def)

lemma absorbing_const: "absorbing final (\<lambda>_. c)"
  by (simp add: absorbing_def)

lemma absorbing_comp: "absorbing final f \<Longrightarrow> absorbing final g \<Longrightarrow> absorbing final (\<lambda>v. g (f v))"
  unfolding absorbing_def by (elim disjE conjE exE) (simp_all, metis+)

lemma absorbing_idem: "absorbing final f \<Longrightarrow> f (f v) = f v"
  unfolding absorbing_def by (cases v) (simp_all, metis+)

definition pointwise :: "('r \<Rightarrow> bool) \<Rightarrow> (StoreView \<Rightarrow> 'k \<rightharpoonup> 'r) \<Rightarrow> (StoreView \<Rightarrow> StoreView) \<Rightarrow> bool" where
  "pointwise final sel F \<longleftrightarrow> (\<exists>f. (\<forall>A x. sel (F A) x = f x (sel A x)) \<and> (\<forall>x. absorbing final (f x)))"

lemma pointwise_comp:
  assumes "pointwise final sel F" "pointwise final sel G"
  shows "pointwise final sel (\<lambda>A. G (F A))"
proof -
  from assms obtain f g where "\<And>A x. sel (F A) x = f x (sel A x)" "\<And>x. absorbing final (f x)"
    "\<And>A x. sel (G A) x = g x (sel A x)" "\<And>x. absorbing final (g x)"
    unfolding pointwise_def by blast
  then show ?thesis
    unfolding pointwise_def by (intro exI [of _ "\<lambda>x v. g x (f x v)"]) (simp add: absorbing_comp)
qed

lemma pointwise_fold:
  assumes "\<And>e. pointwise final sel (g e)"
  shows "pointwise final sel (fold g es)"
proof (induction es)
  case Nil
  show ?case unfolding pointwise_def by (intro exI [of _ "\<lambda>x v. v"]) (simp add: absorbing_id)
next
  case (Cons e es)
  have "fold g (e # es) = (\<lambda>A. fold g es (g e A))" by (simp add: comp_def)
  then show ?case using pointwise_comp [OF assms Cons.IH] by simp
qed

lemma pointwise_idem: "pointwise final sel F \<Longrightarrow> sel (F (F A)) = sel (F A)"
  unfolding pointwise_def by (rule ext) (metis absorbing_idem)

lemma absorbing_overwrite: "absorbing final (\<lambda>v. case c of None \<Rightarrow> v | Some r \<Rightarrow> Some r)"
  by (cases c) (simp_all add: absorbing_id absorbing_const)

lemma pointwise_overwrite:
  assumes "\<And>A. sel (F A) = sel A ++ w"
  shows "pointwise (\<lambda>_. True) sel F"
  unfolding pointwise_def assms
  by (rule exI [of _ "\<lambda>x v. case w x of None \<Rightarrow> v | Some r \<Rightarrow> Some r"])
    (simp add: map_add_def absorbing_overwrite)

lemma absorbing_after_spends: "absorbing settled (map_option (after_spends h sps x))"
proof (cases "find (spend_hits x) sps")
  case None
  then have "after_spends h sps x = (\<lambda>r. r)" by (simp add: after_spends_def fun_eq_iff)
  then show ?thesis by (simp add: option.map_ident absorbing_def)
next
  case (Some sp)
  then show ?thesis by (auto simp: absorbing_def after_spends_def)
qed

lemma pointwise_htlcs: "pointwise settled av_htlcs (spec_apply ev)"
proof -
  define f where "f x v = map_option (after_spends (ev_height ev) (ev_spends ev) x)
      (case locked ev x of None \<Rightarrow> v | Some r \<Rightarrow> Some r)" for x v
  have "absorbing settled (f x)" for x
    unfolding f_def by (rule absorbing_comp [OF absorbing_overwrite absorbing_after_spends])
  moreover have "av_htlcs (spec_apply ev A) x = f x (av_htlcs A x)" for A x
    by (simp add: spec_apply_eq f_def map_add_def)
  ultimately show ?thesis unfolding pointwise_def by blast
qed

lemma pointwise_meta: "pointwise (\<lambda>_. True) (\<lambda>A (_ :: unit). av_meta A) (spec_apply ev)"
  by (rule pointwise_overwrite [where w = "\<lambda>_. Some (advanced_meta ev)"]) (simp add: spec_apply_eq map_add_def)

lemma pointwise_blocks: "pointwise (\<lambda>_. True) av_blocks (spec_apply ev)"
  by (rule pointwise_overwrite [where w = "[ev_height ev \<mapsto>
       \<lparr>bm_block_id = ev_block_id ev, bm_tx_count = ev_tx_count ev, bm_timestamp = ev_timestamp ev\<rparr>]"])
    (simp add: spec_apply_eq)

lemma pointwise_settlements: "pointwise (\<lambda>_. True) av_settlements (spec_apply ev)"
  by (rule pointwise_overwrite) (simp add: spec_apply_eq)

lemma pointwise_activity: "pointwise (\<lambda>_. True) av_activity (spec_apply ev)"
  by (rule pointwise_overwrite) (simp add: spec_apply_eq)

lemma pointwise_spent: "pointwise (\<lambda>_. True) av_spent (spec_apply ev)"
  by (rule pointwise_overwrite) (simp add: spec_apply_eq)

lemma pointwise_datums: "pointwise (\<lambda>_. True) av_datums (spec_apply ev)"
  by (rule pointwise_overwrite) (simp add: spec_apply_eq)

lemma spec_rewalk: "fold spec_apply evs (fold spec_apply evs A) = fold spec_apply evs A"
proof -
  have "pointwise (\<lambda>_. True) (\<lambda>A (_ :: unit). av_meta A) (fold spec_apply evs)"
    by (rule pointwise_fold) (rule pointwise_meta)
  from pointwise_idem [OF this, of A]
  have "av_meta (fold spec_apply evs (fold spec_apply evs A)) = av_meta (fold spec_apply evs A)"
    by (rule fun_cong)
  then show ?thesis
    by (intro StoreView.equality)
      (auto intro!: pointwise_idem pointwise_fold pointwise_htlcs pointwise_blocks pointwise_settlements
        pointwise_activity pointwise_spent pointwise_datums)
qed

end
