(* ===== verification/Reorg.thy ===== *)
theory Reorg
  imports StoreApply
begin

section \<open>Reorg support: the wipe\<close>

text \<open>
  \<^verbatim>\<open>wipe_above\<close> refines \<open>spec_wipe\<close>: in every map exactly the rows
  above the bound are dropped, by the lock height of an HTLC, the height segment of the key of
  a block, an activity row or a settlement, and the stored height of a spent-by row or a
  settlement datum, and the indexes follow.
\<close>

definition spec_wipe :: "u64 \<Rightarrow> StoreView \<Rightarrow> StoreView" where
  "spec_wipe keep A =
     A\<lparr>av_blocks := dropped (\<lambda>h _. h > keep) (av_blocks A),
       av_htlcs := dropped (\<lambda>_ r. lock_height_or_max r > keep) (av_htlcs A),
       av_settlements := dropped (\<lambda>x _. case x of (c, a, h, t) \<Rightarrow> h > keep) (av_settlements A),
       av_activity := dropped (\<lambda>x _. case x of (a, h, t, d) \<Rightarrow> h > keep) (av_activity A),
       av_spent := dropped (\<lambda>_ sb. sb_block_height sb > keep) (av_spent A),
       av_datums := dropped (\<lambda>_ r. dr_block_height r > keep) (av_datums A)\<rparr>"


subsection \<open>The victims of the HTLC table\<close>

lemma fold_forget:
  assumes "db_ok B d" "distinct (map fst xs)"
    and "\<And>x r. (x, r) \<in> set xs \<Longrightarrow> av_htlcs (view B d) x = Some r"
  shows "db_ok B (fold (\<lambda>(x, r). forget_htlc_within_txn (outpoint_key x) r) xs d) \<and>
    view B (fold (\<lambda>(x, r). forget_htlc_within_txn (outpoint_key x) r) xs d) =
      (view B d)\<lparr>av_htlcs := (\<lambda>x. if x \<in> fst ` set xs then None else av_htlcs (view B d) x)\<rparr>"
  using assms
proof (induction xs arbitrary: d)
  case (Cons xr xs)
  obtain t i r where xr: "xr = ((t, i), r)" by (metis surj_pair)
  let ?d = "forget_htlc_within_txn (htlc_primary_key t i) r d"
  have r: "av_htlcs (view B d) (t, i) = Some r"
    using Cons.prems(3) xr by simp
  note f = forget_htlc [OF Cons.prems(1) r]
  have "db_ok B (fold (\<lambda>(x, r). forget_htlc_within_txn (outpoint_key x) r) xs ?d) \<and>
    view B (fold (\<lambda>(x, r). forget_htlc_within_txn (outpoint_key x) r) xs ?d) =
      (view B ?d)\<lparr>av_htlcs := (\<lambda>x. if x \<in> fst ` set xs then None else av_htlcs (view B ?d) x)\<rparr>"
  proof (rule Cons.IH [OF f(1)])
    show "distinct (map fst xs)" using Cons.prems(2) by simp
    show "av_htlcs (view B ?d) x = Some r'" if "(x, r') \<in> set xs" for x r'
    proof -
      have "x \<noteq> (t, i)" using Cons.prems(2) xr that by force
      then show ?thesis using f(2) Cons.prems(3) [of x r'] that by simp
    qed
  qed
  then show ?case
    by (simp add: xr f(2) fun_upd_def if_distrib [of "\<lambda>m. m x" for x] cong: if_cong)
      (auto intro!: arg_cong [where f = "\<lambda>m. av_htlcs_update (\<lambda>_. m) (view B d)"])
qed simp

text \<open>The collected victims as typed rows.\<close>

lemma htlc_victims:
  assumes ok: "stored (cd_htlc B) outpoint_key t"
  obtains xs where
    "collect_res (htlc_victim B keep) (t_iter t) = Inr (map (\<lambda>(x, r). (outpoint_key x, r)) xs)"
    "distinct (map fst xs)"
    "\<forall>x r. (x, r) \<in> set xs \<longleftrightarrow> rows (cd_htlc B) outpoint_key t x = Some r \<and> lock_height_or_max r > keep"
proof -
  define pick where "pick = (\<lambda>(k, b). case de (cd_htlc B) b of
      Some r \<Rightarrow> if lock_height_or_max r > keep
        then Some ((Bytes (take 32 k) :: 32 bytes, from_be32 (drop 32 k)), r) else None
    | None \<Rightarrow> None)"
  define xs where "xs = List.map_filter pick (t_iter t)"
  have key: "(Bytes (take 32 (outpoint_key x)), from_be32 (drop 32 (outpoint_key x))) = x" for x
    by (cases x) (simp add: htlc_primary_key_def)
  have "htlc_victim B keep kb = Inr (map_option (\<lambda>(x, r). (outpoint_key x, r)) (pick kb))"
    if "kb \<in> set (t_iter t)" for kb
  proof -
    obtain k b where kb: "kb = (k, b)" by force
    from ok that [unfolded kb] obtain x r where "k = outpoint_key x" "de (cd_htlc B) b = Some r"
      by (rule stored_iterE)
    then show ?thesis using key [of x] by (simp add: kb htlc_victim_def pick_def case_prod_beta)
  qed
  then have "collect_res (htlc_victim B keep) (t_iter t) =
      Inr (List.map_filter (\<lambda>kb. map_option (\<lambda>(x, r). (outpoint_key x, r)) (pick kb)) (t_iter t))"
    by (rule collect_res_total)
  also have "List.map_filter (\<lambda>kb. map_option (\<lambda>(x, r). (outpoint_key x, r)) (pick kb)) ys =
      map (\<lambda>(x, r). (outpoint_key x, r)) (List.map_filter pick ys)" for ys
    by (induction ys) (auto split: option.splits)
  finally have "collect_res (htlc_victim B keep) (t_iter t) = Inr (map (\<lambda>(x, r). (outpoint_key x, r)) xs)"
    by (simp add: xs_def)
  moreover have "(x, r) \<in> set xs \<longleftrightarrow> rows (cd_htlc B) outpoint_key t x = Some r \<and> lock_height_or_max r > keep" for x r
  proof
    assume "(x, r) \<in> set xs"
    then obtain k b where kb: "(k, b) \<in> set (t_iter t)" "pick (k, b) = Some (x, r)"
      by (auto simp: xs_def in_map_filter_iff)
    from ok kb(1) obtain x' r' where "k = outpoint_key x'" "rows (cd_htlc B) outpoint_key t x' = Some r'"
        "de (cd_htlc B) b = Some r'"
      by (rule stored_iterE)
    then show "rows (cd_htlc B) outpoint_key t x = Some r \<and> lock_height_or_max r > keep"
      using kb(2) key [of x'] by (auto simp: pick_def case_prod_beta split: if_splits)
  next
    assume r: "rows (cd_htlc B) outpoint_key t x = Some r \<and> lock_height_or_max r > keep"
    then obtain b where "(outpoint_key x, b) \<in> set (t_iter t)" "de (cd_htlc B) b = Some r"
      using stored_rowE by metis
    moreover from this(2) r have "pick (outpoint_key x, b) = Some (x, r)"
      using key [of x] by (simp add: pick_def case_prod_beta)
    ultimately show "(x, r) \<in> set xs"
      unfolding xs_def in_map_filter_iff by blast
  qed
  moreover have "distinct (map fst xs)"
  proof -
    have "outpoint_key (fst y) = fst kb" if "kb \<in> set (t_iter t)" "pick kb = Some y" for kb y
    proof -
      obtain k b where kb: "kb = (k, b)" by force
      from ok that(1) [unfolded kb] obtain x where "k = outpoint_key x" by (rule stored_iterE)
      then show ?thesis
        using that(2) key [of x] by (auto simp: kb pick_def case_prod_beta split: option.splits if_splits)
    qed
    then have "distinct (map (\<lambda>y. outpoint_key (fst y)) xs)"
      unfolding xs_def by (intro distinct_map_filter [where g = fst] redb.iter_distinct) blast
    then have "distinct (map outpoint_key (map fst xs))"
      by (simp add: comp_def)
    then show ?thesis by (simp only: distinct_map)
  qed
  ultimately show ?thesis using that by blast
qed


subsection \<open>The wipe refines its specification\<close>

lemma wipe_htlcs:
  assumes "db_ok B d"
  obtains xs where
    "collect_res (htlc_victim B keep) (t_iter (HTLC_FULL d)) = Inr xs"
    "db_ok B (fold (\<lambda>(key, r). forget_htlc_within_txn key r) xs d)"
    "view B (fold (\<lambda>(key, r). forget_htlc_within_txn key r) xs d) =
      (view B d)\<lparr>av_htlcs := dropped (\<lambda>_ r. lock_height_or_max r > keep) (av_htlcs (view B d))\<rparr>"
proof -
  have "stored (cd_htlc B) outpoint_key (HTLC_FULL d)"
    using assms by (simp add: view_simps htlcs_ok_def)
  then obtain xs where xs:
    "collect_res (htlc_victim B keep) (t_iter (HTLC_FULL d)) = Inr (map (\<lambda>(x, r). (outpoint_key x, r)) xs)"
    "distinct (map fst xs)"
    "\<forall>x r. (x, r) \<in> set xs \<longleftrightarrow> rows (cd_htlc B) outpoint_key (HTLC_FULL d) x = Some r \<and> lock_height_or_max r > keep"
    by (rule htlc_victims [where keep = keep])
  have mem: "(x, r) \<in> set xs \<longleftrightarrow> av_htlcs (view B d) x = Some r \<and> lock_height_or_max r > keep" for x r
    using xs(3) by (cases x) (simp add: view_def)
  have "x \<in> fst ` set xs \<longleftrightarrow> (\<exists>r. (x, r) \<in> set xs)" for x
    by force
  then have "x \<in> fst ` set xs \<longleftrightarrow> (\<exists>r. av_htlcs (view B d) x = Some r \<and> lock_height_or_max r > keep)" for x
    unfolding mem .
  then have "(\<lambda>x. if x \<in> fst ` set xs then None else av_htlcs (view B d) x) =
      dropped (\<lambda>_ r. lock_height_or_max r > keep) (av_htlcs (view B d))"
    by (auto simp: fun_eq_iff dropped_def split: option.splits)
  moreover have "fold (\<lambda>(key, r). forget_htlc_within_txn key r) (map (\<lambda>(x, r). (outpoint_key x, r)) ys) e =
      fold (\<lambda>(x, r). forget_htlc_within_txn (outpoint_key x) r) ys e" for ys and e :: "'a db"
    by (induction ys arbitrary: e) auto
  ultimately show ?thesis
    using that [OF xs(1)] fold_forget [OF assms xs(2)] mem by simp
qed

lemma row_present: "stored c enc t \<Longrightarrow> rows c enc t x = Some r \<Longrightarrow> t_get t (enc x) \<noteq> None"
  by (auto simp: rows_def dest: t_recs_SomeD)

lemma wipe_block_meta:
  assumes "db_ok B d"
  shows "db_ok B (d\<lparr>BLOCK_META := remove_all (BLOCK_META d) (block_meta_tail keep d)\<rparr>)"
    and "view B (d\<lparr>BLOCK_META := remove_all (BLOCK_META d) (block_meta_tail keep d)\<rparr>) =
      (view B d)\<lparr>av_blocks := dropped (\<lambda>h _. h > keep) (av_blocks (view B d))\<rparr>"
proof -
  have st: "stored (cd_block B) be64 (BLOCK_META d)"
    using assms by (simp add: view_simps)
  have "\<forall>x r. rows (cd_block B) be64 (BLOCK_META d) x = Some r \<longrightarrow>
      (be64 x \<in> set (block_meta_tail keep d) \<longleftrightarrow> x > keep)"
  proof (intro allI impI)
    fix x r assume "rows (cd_block B) be64 (BLOCK_META d) x = Some r"
    from row_present [OF st this] show "be64 x \<in> set (block_meta_tail keep d) \<longleftrightarrow> x > keep"
      by (force simp: block_meta_tail_def redb.iter_iff)
  qed
  note w = meta_key.stored_wipe [OF st this]
  show "db_ok B (d\<lparr>BLOCK_META := remove_all (BLOCK_META d) (block_meta_tail keep d)\<rparr>)"
    using assms w(1) by (simp add: view_simps)
  show "view B (d\<lparr>BLOCK_META := remove_all (BLOCK_META d) (block_meta_tail keep d)\<rparr>) =
      (view B d)\<lparr>av_blocks := dropped (\<lambda>h _. h > keep) (av_blocks (view B d))\<rparr>"
    using w(2) by (simp add: view_def)
qed

lemma wipe_tx_by_address:
  assumes "db_ok B d"
  shows "db_ok B (wipe_tx_by_address_above keep d)"
    and "view B (wipe_tx_by_address_above keep d) =
      (view B d)\<lparr>av_activity := dropped (\<lambda>x _. case x of (a, h, t, dr) \<Rightarrow> h > keep) (av_activity (view B d))\<rparr>"
proof -
  define ks where "ks = map fst (filter (\<lambda>(k, _). 40 \<le> length k \<and> from_be64 (subslice 32 40 k) > keep)
      (t_iter (TX_BY_ADDRESS d)))"
  have st: "stored (cd_activity B) activity_row_key (TX_BY_ADDRESS d)"
    using assms by (simp add: view_simps)
  have "\<forall>x r. rows (cd_activity B) activity_row_key (TX_BY_ADDRESS d) x = Some r \<longrightarrow>
      (activity_row_key x \<in> set ks \<longleftrightarrow> (case x of (a, h, t, dr) \<Rightarrow> h > keep))"
    using activity_height.victims_iff [of 40 _ keep "TX_BY_ADDRESS d"] row_present [OF st]
    by (fastforce simp: ks_def)
  note w = activity_key.stored_wipe [OF st this]
  have eq: "wipe_tx_by_address_above keep d = d\<lparr>TX_BY_ADDRESS := remove_all (TX_BY_ADDRESS d) ks\<rparr>"
    by (simp add: wipe_tx_by_address_above_def ks_def Let_def)
  show "db_ok B (wipe_tx_by_address_above keep d)"
    using assms w(1) by (simp add: eq view_simps)
  show "view B (wipe_tx_by_address_above keep d) =
      (view B d)\<lparr>av_activity := dropped (\<lambda>x _. case x of (a, h, t, dr) \<Rightarrow> h > keep) (av_activity (view B d))\<rparr>"
    using w(2) by (simp add: eq view_def)
qed

lemma wipe_settlements:
  assumes "db_ok B d"
  shows "db_ok B (wipe_settlements_above keep d)"
    and "view B (wipe_settlements_above keep d) =
      (view B d)\<lparr>av_settlements := dropped (\<lambda>x _. case x of (c, a, h, t) \<Rightarrow> h > keep) (av_settlements (view B d))\<rparr>"
proof -
  define ks where "ks = map fst (filter (\<lambda>(k, _). 72 \<le> length k \<and> from_be64 (subslice 64 72 k) > keep)
      (t_iter (SETTLEMENT_BY_CONTRACT d)))"
  define os where "os = map fst (filter (\<lambda>(k, _). 72 \<le> length k \<and> from_be64 (subslice 64 72 k) > keep)
      (t_iter (SETTLEMENT_BY_ADDRESS d)))"
  let ?m = "rows (cd_settlement B) settlement_row_key (SETTLEMENT_BY_CONTRACT d)"
  have ok: "settlements_ok B (SETTLEMENT_BY_CONTRACT d) (SETTLEMENT_BY_ADDRESS d)"
    using assms by (simp add: view_simps)
  then have st: "stored (cd_settlement B) settlement_row_key (SETTLEMENT_BY_CONTRACT d)"
    and ix: "indexed observer_idx (SETTLEMENT_BY_ADDRESS d) ?m"
    by (simp_all add: settlements_ok_def)
  have "\<forall>x r. ?m x = Some r \<longrightarrow> (settlement_row_key x \<in> set ks \<longleftrightarrow> (case x of (c, a, h, t) \<Rightarrow> h > keep))"
    using contract_height.victims_iff [of 72 _ keep "SETTLEMENT_BY_CONTRACT d"] row_present [OF st]
    by (fastforce simp: ks_def)
  note w = contract_key.stored_wipe [OF st this]
  have "\<forall>x s k. ?m x = Some s \<longrightarrow> observer_idx x s = Some k \<longrightarrow>
      (k \<in> set os \<longleftrightarrow> (case x of (c, a, h, t) \<Rightarrow> h > keep))"
  proof (intro allI impI)
    fix x s k assume r: "?m x = Some s" and k: "observer_idx x s = Some k"
    obtain c a h t where x: "x = (c, a, h, t)" by (metis surj_pair)
    have "t_get (SETTLEMENT_BY_ADDRESS d) k \<noteq> None"
      using indexedD [OF ix, of k] r k by blast
    then show "k \<in> set os \<longleftrightarrow> (case x of (c, a, h, t) \<Rightarrow> h > keep)"
      using observer_height.victims_iff [of 72 "(a, c, h, t)" keep "SETTLEMENT_BY_ADDRESS d"] k
      by (simp add: os_def x)
  qed
  note wx = by_observer.indexed_wipe [OF ix this]
  have eq: "wipe_settlements_above keep d = d\<lparr>SETTLEMENT_BY_CONTRACT := remove_all (SETTLEMENT_BY_CONTRACT d) ks,
      SETTLEMENT_BY_ADDRESS := remove_all (SETTLEMENT_BY_ADDRESS d) os\<rparr>"
    by (simp add: wipe_settlements_above_def ks_def os_def Let_def)
  have "settlements_ok B (remove_all (SETTLEMENT_BY_CONTRACT d) ks) (remove_all (SETTLEMENT_BY_ADDRESS d) os)"
    unfolding settlements_ok_def w(2) dropped_eq_Some_iff
    using ok [unfolded settlements_ok_def] w(1) wx by (intro conjI) blast+
  then show "db_ok B (wipe_settlements_above keep d)"
    using assms by (simp add: eq view_simps)
  show "view B (wipe_settlements_above keep d) =
      (view B d)\<lparr>av_settlements := dropped (\<lambda>x _. case x of (c, a, h, t) \<Rightarrow> h > keep) (av_settlements (view B d))\<rparr>"
    using w(2) by (simp add: eq view_def)
qed


text \<open>The spent-by rows and the settlement data are found by the height in the row, which is decoded.\<close>

lemma collect_victims:
  assumes st: "stored c enc t"
    and f: "\<forall>x b r. de c b = Some r \<longrightarrow> f (enc x, b) = Inr (if P r then Some (g (enc x) r) else None)"
  obtains ys where "collect_res f (t_iter t) = Inr ys"
    and "\<forall>y. y \<in> set ys \<longleftrightarrow> (\<exists>x r. rows c enc t x = Some r \<and> P r \<and> y = g (enc x) r)"
proof -
  define pick where "pick = (\<lambda>(k, b). case de c b of Some r \<Rightarrow> if P r then Some (g k r) else None | None \<Rightarrow> None)"
  have "f kb = Inr (pick kb)" if "kb \<in> set (t_iter t)" for kb
  proof -
    obtain k b where kb: "kb = (k, b)" by force
    from st that [unfolded kb] obtain x r where "k = enc x" "de c b = Some r" by (rule stored_iterE)
    then show ?thesis using f by (simp add: kb pick_def)
  qed
  then have "collect_res f (t_iter t) = Inr (List.map_filter pick (t_iter t))"
    by (rule collect_res_total)
  moreover have "y \<in> set (List.map_filter pick (t_iter t)) \<longleftrightarrow>
      (\<exists>x r. rows c enc t x = Some r \<and> P r \<and> y = g (enc x) r)" for y
  proof
    assume "y \<in> set (List.map_filter pick (t_iter t))"
    then obtain k b where kb: "(k, b) \<in> set (t_iter t)" "pick (k, b) = Some y"
      by (auto simp: in_map_filter_iff)
    from st kb(1) obtain x r where "k = enc x" "rows c enc t x = Some r" "de c b = Some r" by (rule stored_iterE)
    then show "\<exists>x r. rows c enc t x = Some r \<and> P r \<and> y = g (enc x) r"
      using kb(2) by (auto simp: pick_def split: if_splits)
  next
    assume "\<exists>x r. rows c enc t x = Some r \<and> P r \<and> y = g (enc x) r"
    then obtain x r where r: "rows c enc t x = Some r" "P r" "y = g (enc x) r" by blast
    from r(1) obtain b where "(enc x, b) \<in> set (t_iter t)" "de c b = Some r" by (rule stored_rowE)
    moreover from this(2) r have "pick (enc x, b) = Some y" by (simp add: pick_def)
    ultimately show "y \<in> set (List.map_filter pick (t_iter t))"
      unfolding in_map_filter_iff by blast
  qed
  ultimately show ?thesis using that by blast
qed

lemma outpoint_key_eq_iff [simp]: "outpoint_key x = outpoint_key y \<longleftrightarrow> x = y"
  by (rule primary_key.enc_eq_iff)

lemma wipe_spent_by: "sim B (wipe_spent_by_above B keep)
    (\<lambda>A. A\<lparr>av_spent := dropped (\<lambda>_ sb. sb_block_height sb > keep) (av_spent A)\<rparr>) (\<lambda>_. True)"
proof (rule simI)
  fix d assume d: "db_ok B d"
  let ?f = "\<lambda>(k, val). bind_res (ok_or (de (cd_spent B) val) (Storage ''decode spent_by'')) (\<lambda>sb.
      Inr (if sb_block_height sb > keep then Some k else None))"
  have st: "stored (cd_spent B) outpoint_key (SPENT_BY d)"
    using d by (simp add: view_simps spent_ok_def)
  obtain ks where ks: "collect_res ?f (t_iter (SPENT_BY d)) = Inr ks"
    "\<forall>k. k \<in> set ks \<longleftrightarrow> (\<exists>x sb. rows (cd_spent B) outpoint_key (SPENT_BY d) x = Some sb \<and>
       sb_block_height sb > keep \<and> k = outpoint_key x)"
    by (rule collect_victims [OF st, of ?f "\<lambda>sb. sb_block_height sb > keep" "\<lambda>k sb. k"]) simp
  have "\<forall>x sb. rows (cd_spent B) outpoint_key (SPENT_BY d) x = Some sb \<longrightarrow>
      (outpoint_key x \<in> set ks \<longleftrightarrow> sb_block_height sb > keep)"
    unfolding ks(2) [rule_format] outpoint_key_eq_iff by auto
  note w = primary_key.stored_wipe [OF st this]
  have "spent_ok B (remove_all (SPENT_BY d) ks)"
    unfolding spent_ok_def w(2) dropped_eq_Some_iff
    using d [unfolded view_simps spent_ok_def] w(1) by (intro conjI) blast+
  then show "\<exists>d'. wipe_spent_by_above B keep d = Inr d' \<and> db_ok B d' \<and>
      view B d' = (view B d)\<lparr>av_spent := dropped (\<lambda>_ sb. sb_block_height sb > keep) (av_spent (view B d))\<rparr>"
    using d ks(1) w(2) by (simp add: wipe_spent_by_above_def view_simps)
qed

text \<open>The reverse key rebuilt from the raw forward key is the one the index holds.\<close>

lemma victim_quote_key: "mk \<in> set (victim_quote_key (outpoint_key x, r)) \<longleftrightarrow> quote_idx x r = Some mk"
proof -
  obtain t i where "x = (t, i)" by force
  then show ?thesis
    by (cases "dr_quote_id r") (auto simp: victim_quote_key_def htlc_primary_key_def)
qed

lemma wipe_output_datums: "sim B (wipe_output_datums_above B keep)
    (\<lambda>A. A\<lparr>av_datums := dropped (\<lambda>_ r. dr_block_height r > keep) (av_datums A)\<rparr>) (\<lambda>_. True)"
proof (rule simI)
  fix d assume d: "db_ok B d"
  let ?f = "\<lambda>(k, val). if length k \<noteq> 36 then Inr None
      else bind_res (ok_or (de (cd_datum B) val) (Storage ''decode output_datum'')) (\<lambda>r.
        Inr (if dr_block_height r > keep then Some (k, r) else None))"
  let ?m = "rows (cd_datum B) outpoint_key (OUTPUT_DATUM d)"
  have ok: "datums_ok B (OUTPUT_DATUM d) (DATUM_BY_QUOTEID d)"
    using d by (simp add: view_simps)
  then have st: "stored (cd_datum B) outpoint_key (OUTPUT_DATUM d)"
    and ix: "indexed quote_idx (DATUM_BY_QUOTEID d) ?m"
    by (simp_all add: datums_ok_def)
  obtain vs where vs: "collect_res ?f (t_iter (OUTPUT_DATUM d)) = Inr vs"
    "\<forall>v. v \<in> set vs \<longleftrightarrow> (\<exists>x r. ?m x = Some r \<and> dr_block_height r > keep \<and> v = (outpoint_key x, r))"
    by (rule collect_victims [OF st, of ?f "\<lambda>r. dr_block_height r > keep" "\<lambda>k r. (k, r)"]) auto
  have "outpoint_key x \<in> set (map fst vs) \<longleftrightarrow> dr_block_height r > keep" if "?m x = Some r" for x r
  proof -
    have mem: "(k, r) \<in> set vs \<longleftrightarrow> (\<exists>y. ?m y = Some r \<and> dr_block_height r > keep \<and> k = outpoint_key y)" for k r
      unfolding vs(2) [rule_format] by (simp only: prod.inject) blast
    have "outpoint_key x \<in> set (map fst vs) \<longleftrightarrow> (\<exists>r'. (outpoint_key x, r') \<in> set vs)"
      by force
    then have "outpoint_key x \<in> set (map fst vs) \<longleftrightarrow> (\<exists>r' y. ?m y = Some r' \<and> dr_block_height r' > keep \<and> x = y)"
      unfolding mem outpoint_key_eq_iff by blast
    then show ?thesis using that by (metis option.inject)
  qed
  then have "\<forall>x r. ?m x = Some r \<longrightarrow> (outpoint_key x \<in> set (map fst vs) \<longleftrightarrow> dr_block_height r > keep)" by blast
  note w = primary_key.stored_wipe [OF st this]
  have "mk \<in> set (concat (map victim_quote_key vs)) \<longleftrightarrow>
      (\<exists>x r. ?m x = Some r \<and> dr_block_height r > keep \<and> quote_idx x r = Some mk)" for mk
  proof -
    have "mk \<in> set (concat (map victim_quote_key vs)) \<longleftrightarrow> (\<exists>v. v \<in> set vs \<and> mk \<in> set (victim_quote_key v))"
      by auto
    then show ?thesis unfolding vs(2) [rule_format] using victim_quote_key by blast
  qed
  then have "\<forall>x r mk. ?m x = Some r \<longrightarrow> quote_idx x r = Some mk \<longrightarrow>
      (mk \<in> set (concat (map victim_quote_key vs)) \<longleftrightarrow> dr_block_height r > keep)"
    by (metis by_quote.idx_owner option.inject)
  note wx = by_quote.indexed_wipe [OF ix this]
  have "datums_ok B (remove_all (OUTPUT_DATUM d) (map fst vs))
      (remove_all (DATUM_BY_QUOTEID d) (concat (map victim_quote_key vs)))"
    unfolding datums_ok_def w(2) using w(1) wx by blast
  then show "\<exists>d'. wipe_output_datums_above B keep d = Inr d' \<and> db_ok B d' \<and>
      view B d' = (view B d)\<lparr>av_datums := dropped (\<lambda>_ r. dr_block_height r > keep) (av_datums (view B d))\<rparr>"
    using d vs(1) w(2) by (simp add: wipe_output_datums_above_def view_simps Let_def)
qed

lemma wipe_refines: "sim B (wipe_above B keep) (spec_wipe keep) (\<lambda>_. True)"
proof (rule simI)
  fix d assume d: "db_ok B d"
  obtain xs where xs: "collect_res (htlc_victim B keep) (t_iter (HTLC_FULL d)) = Inr xs"
    "db_ok B (fold (\<lambda>(key, r). forget_htlc_within_txn key r) xs d)"
    "view B (fold (\<lambda>(key, r). forget_htlc_within_txn key r) xs d) =
      (view B d)\<lparr>av_htlcs := dropped (\<lambda>_ r. lock_height_or_max r > keep) (av_htlcs (view B d))\<rparr>"
    by (rule wipe_htlcs [OF d])
  define d1 where "d1 = fold (\<lambda>(key, r). forget_htlc_within_txn key r) xs d"
  define d2 where "d2 = d1\<lparr>BLOCK_META := remove_all (BLOCK_META d1) (block_meta_tail keep d1)\<rparr>"
  define d3 where "d3 = wipe_tx_by_address_above keep d2"
  define d4 where "d4 = wipe_settlements_above keep d3"
  have ok: "db_ok B d1" "db_ok B d2" "db_ok B d3" "db_ok B d4"
    unfolding d4_def d3_def d2_def d1_def
    by (intro wipe_settlements wipe_tx_by_address wipe_block_meta xs(2))+
  obtain d5 where d5: "wipe_spent_by_above B keep d4 = Inr d5" "db_ok B d5"
    "view B d5 = (view B d4)\<lparr>av_spent := dropped (\<lambda>_ sb. sb_block_height sb > keep) (av_spent (view B d4))\<rparr>"
    by (rule simE [OF wipe_spent_by ok(4) TrueI])
  obtain d6 where d6: "wipe_output_datums_above B keep d5 = Inr d6" "db_ok B d6"
    "view B d6 = (view B d5)\<lparr>av_datums := dropped (\<lambda>_ r. dr_block_height r > keep) (av_datums (view B d5))\<rparr>"
    by (rule simE [OF wipe_output_datums d5(2) TrueI])
  have "wipe_above B keep d = Inr d6"
    using xs(1) d5(1) d6(1) by (simp add: wipe_above_def Let_def d1_def d2_def d3_def d4_def)
  moreover have "view B d6 = spec_wipe keep (view B d)"
    using d6(3) d5(3) wipe_settlements(2) [OF ok(3), of keep, folded d4_def]
      wipe_tx_by_address(2) [OF ok(2), of keep, folded d3_def] wipe_block_meta(2) [OF ok(1), of keep, folded d2_def]
      xs(3) [folded d1_def]
    by (simp add: spec_wipe_def)
  ultimately show "\<exists>d'. wipe_above B keep d = Inr d' \<and> db_ok B d' \<and> view B d' = spec_wipe keep (view B d)"
    using d6(2) by blast
qed


subsection \<open>Undoing a block\<close>

text \<open>Dropping rows that a block added, each under a key that was free.\<close>

lemma dropped_added:
  assumes "dropped P m = m" "\<And>x r. w x = Some r \<Longrightarrow> P x r \<and> m x = None"
  shows "dropped P (m ++ w) = m"
proof
  fix x
  show "dropped P (m ++ w) x = m x"
  proof (cases "w x")
    case None
    then have "dropped P (m ++ w) x = dropped P m x" by (simp add: dropped_def map_add_def)
    then show ?thesis by (simp add: assms(1))
  next
    case (Some r)
    then show ?thesis using assms(2) [of x r] by (simp add: dropped_def)
  qed
qed

lemma lock_height_settle_record [simp]: "lock_height_or_max (settle_record arm h r) = lock_height_or_max r"
  by (cases arm) (simp_all add: settle_record_def lock_height_or_max_def)

lemma lock_height_after_spends [simp]: "lock_height_or_max (after_spends h sps x r) = lock_height_or_max r"
  by (simp add: after_spends_def split: option.splits)

lemma dropped_map_option:
  "(\<And>x r. P x (f x r) = P x r) \<Longrightarrow> dropped P (\<lambda>x. map_option (f x) (m x)) = (\<lambda>x. map_option (f x) (dropped P m x))"
  by (auto simp: dropped_def fun_eq_iff split: option.splits)

lemma after_spends_untouched:
  assumes "list_all (\<lambda>sp. \<not> spend_hits x sp) sps \<or> settled r"
  shows "after_spends h sps x r = r"
proof -
  have "find (spend_hits x) sps = None" if "list_all (\<lambda>sp. \<not> spend_hits x sp) sps"
    using that by (induction sps) auto
  then show ?thesis using assms by (auto simp: after_spends_def)
qed

text \<open>
  A block that only adds to a database all of whose rows are at or below the bound: its
  height and its rows are above the bound, it writes to no row that is there, and it spends
  no unsettled HTLC that is there.
\<close>

definition extends_above :: "u64 \<Rightarrow> BlockApplyEvents \<Rightarrow> StoreView \<Rightarrow> bool" where
  "extends_above keep ev A \<longleftrightarrow>
     keep < ev_height ev \<and>
     list_all (\<lambda>l. keep < lock_height_or_max (lk_record l) \<and>
       av_htlcs A (lock_tx_id (lk_record l), output_index (lk_record l)) = None) (ev_locks ev) \<and>
     list_all (\<lambda>sp. case av_htlcs A (sp_lock_tx_id sp, sp_output_index sp) of None \<Rightarrow> True | Some r \<Rightarrow> settled r)
       (ev_spends ev) \<and>
     list_all (\<lambda>s. keep < s_block_height s) (ev_settlements ev) \<and>
     list_all (\<lambda>sb. keep < sb_block_height sb \<and> av_spent A (sb_prev_tx_id sb, sb_output_index sb) = None) (ev_spent_by ev) \<and>
     list_all (\<lambda>od. av_datums A (od_tx_id od, od_output_index od) = None) (ev_output_datums ev)"

lemma dropped_fixed_None: "dropped (\<lambda>x _. Q x) m = m \<Longrightarrow> Q x \<Longrightarrow> m x = None"
  by (metis dropped_eq_Some_iff option.exhaust)

lemma spec_wipe_htlcs:
  assumes ext: "extends_above keep ev A"
    and low: "dropped (\<lambda>_ r. lock_height_or_max r > keep) (av_htlcs A) = av_htlcs A"
  shows "dropped (\<lambda>_ r. lock_height_or_max r > keep) (av_htlcs (spec_apply ev A)) = av_htlcs A"
proof -
  have "dropped (\<lambda>_ r. lock_height_or_max r > keep) (av_htlcs A ++ locked ev) = av_htlcs A"
  proof (rule dropped_added [OF low])
    fix x r assume "locked ev x = Some r"
    then obtain l where "l \<in> set (ev_locks ev)" "(lock_tx_id (lk_record l), output_index (lk_record l)) = x" "lk_record l = r"
      unfolding locked_def by (blast dest: written_eq_Some)
    then show "lock_height_or_max r > keep \<and> av_htlcs A x = None"
      using ext by (auto simp: extends_above_def list_all_iff)
  qed
  then have "dropped (\<lambda>_ r. lock_height_or_max r > keep) (av_htlcs (spec_apply ev A)) =
      (\<lambda>x. map_option (after_spends (ev_height ev) (ev_spends ev) x) (av_htlcs A x))"
    by (simp add: spec_apply_eq dropped_map_option)
  also have "\<dots> = av_htlcs A"
  proof
    fix x
    show "map_option (after_spends (ev_height ev) (ev_spends ev) x) (av_htlcs A x) = av_htlcs A x"
    proof (rule option.map_ident_strong)
      fix r assume r: "r \<in> set_option (av_htlcs A x)"
      then have "list_all (\<lambda>sp. \<not> spend_hits x sp) (ev_spends ev) \<or> settled r"
        using ext by (fastforce simp: extends_above_def list_all_iff spend_hits_def)
      then show "after_spends (ev_height ev) (ev_spends ev) x r = r"
        by (rule after_spends_untouched)
    qed
  qed
  finally show ?thesis .
qed

lemma spec_wipe_apply:
  assumes ext: "extends_above keep ev A" and low: "spec_wipe keep A = A"
  shows "spec_wipe keep (spec_apply ev A) = A\<lparr>av_meta := Some (advanced_meta ev)\<rparr>"
proof -
  have fixed:
    "dropped (\<lambda>h _. h > keep) (av_blocks A) = av_blocks A"
    "dropped (\<lambda>_ r. lock_height_or_max r > keep) (av_htlcs A) = av_htlcs A"
    "dropped (\<lambda>x _. case x of (c, a, h, t) \<Rightarrow> h > keep) (av_settlements A) = av_settlements A"
    "dropped (\<lambda>x _. case x of (a, h, t, d) \<Rightarrow> h > keep) (av_activity A) = av_activity A"
    "dropped (\<lambda>_ sb. sb_block_height sb > keep) (av_spent A) = av_spent A"
    "dropped (\<lambda>_ r. dr_block_height r > keep) (av_datums A) = av_datums A"
    using arg_cong [OF low, of av_blocks] arg_cong [OF low, of av_htlcs] arg_cong [OF low, of av_settlements]
      arg_cong [OF low, of av_activity] arg_cong [OF low, of av_spent] arg_cong [OF low, of av_datums]
    by (simp_all add: spec_wipe_def)
  have blocks: "dropped (\<lambda>h _. h > keep) (av_blocks (spec_apply ev A)) = av_blocks A"
    using ext dropped_fixed_None [OF fixed(1), of "ev_height ev"]
    by (simp add: spec_apply_eq extends_above_def)
      (rule dropped_added [OF fixed(1), of "[ev_height ev \<mapsto> b]" for b, simplified map_add_upd map_add_empty],
        auto split: if_splits)
  have setts: "dropped (\<lambda>x _. case x of (c, a, h, t) \<Rightarrow> h > keep) (av_settlements (spec_apply ev A)) = av_settlements A"
    unfolding spec_apply_eq StoreView.simps
  proof (rule dropped_added [OF fixed(3)])
    fix x s assume "written (\<lambda>s. (s_contract_hash s, s_observer_address s, s_block_height s, s_tx_id s)) (\<lambda>s. s)
        (ev_settlements ev) x = Some s"
    from written_eq_Some [OF this] obtain s' where s': "s' \<in> set (ev_settlements ev)"
      "x = (s_contract_hash s', s_observer_address s', s_block_height s', s_tx_id s')" by blast
    have above: "case x of (c, a, h, t) \<Rightarrow> h > keep"
      using ext s' by (simp add: extends_above_def list_all_iff)
    show "(case x of (c, a, h, t) \<Rightarrow> h > keep) \<and> av_settlements A x = None"
      by (rule conjI [OF above dropped_fixed_None [OF fixed(3) above]])
  qed
  have acts: "dropped (\<lambda>x _. case x of (a, h, t, d) \<Rightarrow> h > keep) (av_activity (spec_apply ev A)) = av_activity A"
    unfolding spec_apply_eq StoreView.simps
  proof (rule dropped_added [OF fixed(4)])
    fix x v assume "written (activity_key_of (ev_height ev)) activity_value_of (ev_activity ev) x = Some v"
    from written_eq_Some [OF this] obtain act where act: "x = activity_key_of (ev_height ev) act" by blast
    have above: "case x of (a, h, t, d) \<Rightarrow> h > keep"
      using ext act by (simp add: extends_above_def activity_key_of_def)
    show "(case x of (a, h, t, d) \<Rightarrow> h > keep) \<and> av_activity A x = None"
      by (rule conjI [OF above dropped_fixed_None [OF fixed(4) above]])
  qed
  have spent: "dropped (\<lambda>_ sb. sb_block_height sb > keep) (av_spent (spec_apply ev A)) = av_spent A"
    unfolding spec_apply_eq StoreView.simps
  proof (rule dropped_added [OF fixed(5)])
    fix x sb assume "written (\<lambda>sb. (sb_prev_tx_id sb, sb_output_index sb)) (\<lambda>sb. sb) (ev_spent_by ev) x = Some sb"
    from written_eq_Some [OF this] show "sb_block_height sb > keep \<and> av_spent A x = None"
      using ext by (auto simp: extends_above_def list_all_iff)
  qed
  have datums: "dropped (\<lambda>_ r. dr_block_height r > keep) (av_datums (spec_apply ev A)) = av_datums A"
    unfolding spec_apply_eq StoreView.simps
  proof (rule dropped_added [OF fixed(6)])
    fix x r assume "written (\<lambda>od. (od_tx_id od, od_output_index od)) (datum_value_of (ev_height ev)) (ev_output_datums ev) x = Some r"
    from written_eq_Some [OF this] show "dr_block_height r > keep \<and> av_datums A x = None"
      using ext by (auto simp: extends_above_def list_all_iff datum_value_of_def)
  qed
  show ?thesis
    using blocks setts acts spent datums spec_wipe_htlcs [OF ext fixed(2)]
    by (intro StoreView.equality) (simp_all add: spec_wipe_def spec_apply_eq)
qed

end
