(* ===== verification/Sample.thy ===== *)
theory Sample
  imports Reorg
begin

section \<open>A concrete codec and sample data\<close>

text \<open>
  The instances the witnesses use: a codec of the stored records in which a blob is simply the
  record under a constructor naming its type (so that decoding a blob of another type fails,
  and so does decoding the legacy blob), and a small chain: a block that locks an HTLC, pays
  an address and carries a settlement datum, and a later block that claims the HTLC.
\<close>

datatype blob =
    BMeta FollowerMeta
  | BBlock BlockMeta
  | BHtlc HtlcRecord
  | BSettlement SettlementRecord
  | BActivity ActivityValue
  | BSpent SpentByCacheEntry
  | BDatum OutputDatumRecord
  | BLegacy

definition sample_bincode :: "blob bincode" where
  "sample_bincode =
     \<lparr>cd_meta = \<lparr>ser = \<lambda>x. Some (BMeta x), de = \<lambda>b. case b of BMeta x \<Rightarrow> Some x | _ \<Rightarrow> None\<rparr>,
      cd_block = \<lparr>ser = \<lambda>x. Some (BBlock x), de = \<lambda>b. case b of BBlock x \<Rightarrow> Some x | _ \<Rightarrow> None\<rparr>,
      cd_htlc = \<lparr>ser = \<lambda>x. Some (BHtlc x), de = \<lambda>b. case b of BHtlc x \<Rightarrow> Some x | _ \<Rightarrow> None\<rparr>,
      cd_settlement = \<lparr>ser = \<lambda>x. Some (BSettlement x), de = \<lambda>b. case b of BSettlement x \<Rightarrow> Some x | _ \<Rightarrow> None\<rparr>,
      cd_activity = \<lparr>ser = \<lambda>x. Some (BActivity x), de = \<lambda>b. case b of BActivity x \<Rightarrow> Some x | _ \<Rightarrow> None\<rparr>,
      cd_spent = \<lparr>ser = \<lambda>x. Some (BSpent x), de = \<lambda>b. case b of BSpent x \<Rightarrow> Some x | _ \<Rightarrow> None\<rparr>,
      cd_datum = \<lparr>ser = \<lambda>x. Some (BDatum x), de = \<lambda>b. case b of BDatum x \<Rightarrow> Some x | _ \<Rightarrow> None\<rparr>\<rparr>"

lemma sample_bincode_ok [simp]: "bincode_ok sample_bincode"
  by (simp add: bincode_ok_def codec_ok_def sample_bincode_def)

definition sample_params :: HtlcParams where
  "sample_params = \<lparr>sender = filled 1, receiver = filled 2, hash_lock = filled 3, timeout_height = 100\<rparr>"

definition sample_htlc :: HtlcRecord where
  "sample_htlc =
     \<lparr>lock_tx_id = filled 4, output_index = 0, params = sample_params, amount = 50, lock_block_height = Some 5,
      state = Locked, claim = None, reclaim = None, role = Observer, last_indexed_height = 5\<rparr>"

definition sample_datum :: ExtractedOutputDatum where
  "sample_datum = \<lparr>od_tx_id = filled 4, od_output_index = 1, od_quote_id = Some (filled 9), od_unhonorable = False\<rparr>"

definition sample_activity :: AddressActivity where
  "sample_activity = \<lparr>a_address = filled 6, a_tx_id = filled 4, a_amount = 70, a_is_input = False,
     a_is_coinbase = False, a_counterparties = [filled 1]\<rparr>"

definition sample_spend :: ExtractedHtlcSpend where
  "sample_spend = \<lparr>sp_lock_tx_id = filled 4, sp_output_index = 0, sp_arm = Claim [42] (filled 7) 0\<rparr>"

definition sample_settlement :: SettlementRecord where
  "sample_settlement = \<lparr>s_tx_id = filled 4, s_block_height = 6, s_contract_hash = filled 8, s_outcome = Locked,
     s_observer_address = filled 10, s_counterparty = filled 11, s_amount = 50, s_lock_tx_id = filled 4,
     s_lock_output_index = 0\<rparr>"

definition lock_block :: BlockApplyEvents where
  "lock_block =
     \<lparr>ev_height = 5, ev_block_id = filled 50, ev_tx_count = 1, ev_timestamp = 1000, ev_full_scan_complete = False,
      ev_started_at = 7, ev_locks = [\<lparr>lk_record = sample_htlc, lk_script = []\<rparr>], ev_spends = [],
      ev_settlements = [], ev_activity = [sample_activity], ev_spent_by = [], ev_output_datums = [sample_datum]\<rparr>"

definition claim_block :: BlockApplyEvents where
  "claim_block =
     \<lparr>ev_height = 6, ev_block_id = filled 60, ev_tx_count = 1, ev_timestamp = 1010, ev_full_scan_complete = True,
      ev_started_at = 7, ev_locks = [], ev_spends = [sample_spend],
      ev_settlements = [sample_settlement], ev_activity = [], ev_spent_by = [], ev_output_datums = []\<rparr>"

lemmas sample_defs =
  lock_block_def claim_block_def sample_htlc_def sample_params_def sample_datum_def sample_activity_def
  sample_spend_def sample_settlement_def

lemma view_open_all_tables [simp]:
  "view B open_all_tables = \<lparr>av_meta = None, av_blocks = Map.empty, av_htlcs = Map.empty, av_settlements = Map.empty,
     av_activity = Map.empty, av_spent = Map.empty, av_datums = Map.empty\<rparr>"
  by (simp add: view_def open_all_tables_def)

lemma sample_chain_consistent:
  "datums_consistent (run_datums [lock_block, claim_block]) (view sample_bincode open_all_tables)"
  "datums_consistent (ev_output_datums lock_block) (view sample_bincode open_all_tables)"
  by (simp_all add: datums_consistent_def datum_agrees_def run_datums_def sample_defs)

text \<open>A database that holds the first block.\<close>

lemma sample_db:
  obtains d where "apply_block_events sample_bincode lock_block open_all_tables = Inr d" "db_ok sample_bincode d"
    "view sample_bincode d = spec_apply lock_block (view sample_bincode open_all_tables)"
  using simE [OF apply_refines [OF sample_bincode_ok, of lock_block] db_ok_open_all_tables sample_chain_consistent(2)]
  by blast

lemma sample_view:
  "view sample_bincode d = spec_apply lock_block (view sample_bincode open_all_tables) \<Longrightarrow>
     av_htlcs (view sample_bincode d) = [(filled 4, 0) \<mapsto> sample_htlc]"
  by (simp add: spec_apply_eq locked_def written_def lock_block_def sample_htlc_def after_spends_def fun_eq_iff)

end
