(* ===== verification/Migration.thy ===== *)
theory Migration
  imports Sample
begin

section \<open>Opening a database: the schema migration\<close>

text \<open>
  What \<^verbatim>\<open>Db::open\<close> does to the checkpoint of the file it finds. What the walk from genesis
  that it asks for does to the rows is shown in \<open>ChainMigration\<close>.
\<close>

lemma migrate_saves:
  assumes "bincode_ok B" "rows_ok B d" "keyed (\<lambda>_ :: unit. CHAIN_TIP_KEY) (CHAIN_TIP d)"
  obtains d' where "save_meta B m d = Inr d'" "db_ok B d'" "view B d' = (view B d)\<lparr>av_meta := Some m\<rparr>"
    "d' = d\<lparr>CHAIN_TIP := CHAIN_TIP d'\<rparr>"
proof -
  obtain d' where d': "write_meta B m d = Inr d'" "db_ok B d'" "view B d' = spec_meta m (view B d)"
    using write_meta_rows [OF assms] by blast
  have "d' = d\<lparr>CHAIN_TIP := CHAIN_TIP d'\<rparr>"
    using d'(1) by (auto simp: write_meta_def encode_rec_def bind_res_eq_Inr_iff)
  with d' show ?thesis by (intro that) (simp_all add: save_meta_def spec_meta_def)
qed

lemma load_meta_view: "db_ok B d \<Longrightarrow> load_meta B d = Inr (case av_meta (view B d) of Some m \<Rightarrow> m | None \<Rightarrow> FollowerMeta_default)"
  using stored_get_rec [of "cd_meta B" "\<lambda>_ :: unit. CHAIN_TIP_KEY" "CHAIN_TIP d" _ "()"]
  by (simp add: load_meta_def db_ok_def view_def)

lemma persisted_meta_view: "db_ok B d \<Longrightarrow> persisted_meta B d = av_meta (view B d)"
  by (auto simp: persisted_meta_def db_ok_def view_def stored_def rows_def t_recs_def split: option.splits dest: encodedD)

text \<open>The checkpoint a reset writes: genesis, at the current version, keeping the start time.\<close>

definition reset_meta :: "FollowerMeta \<Rightarrow> FollowerMeta" where
  "reset_meta m =
     \<lparr>m_last_indexed_height = 0, m_last_indexed_block_id = filled 0, m_full_scan_complete = False,
      m_started_at = m_started_at m, m_schema_version = SCHEMA_VERSION\<rparr>"

text \<open>C29: opening a database whose checkpoint is below the current schema version, or does not decode at
  all, never fails: it resets the checkpoint to genesis at the current version with the start
  time kept, touches no other table, and happens once: opening the result again changes
  nothing. A database without a checkpoint is stamped with the current version, and one at
  the current version is left as it is.\<close>

theorem open_migrates_once:
  assumes "bincode_ok B" "rows_ok B d" "keyed (\<lambda>_ :: unit. CHAIN_TIP_KEY) (CHAIN_TIP d)"
  shows "\<exists>d'. db_open B (Some d) = Inr d' \<and> d' = d\<lparr>CHAIN_TIP := CHAIN_TIP d'\<rparr> \<and> db_open B (Some d') = Inr d' \<and>
    (case persisted_meta B d of
       None \<Rightarrow> load_meta B d' = Inr (FollowerMeta_default\<lparr>m_schema_version := SCHEMA_VERSION\<rparr>)
     | Some m \<Rightarrow> if SCHEMA_VERSION \<le> m_schema_version m then d' = d else load_meta B d' = Inr (reset_meta m))"
proof -
  have saved: "\<exists>d'. save_meta B m d = Inr d' \<and> d' = d\<lparr>CHAIN_TIP := CHAIN_TIP d'\<rparr> \<and>
      db_open B (Some d') = Inr d' \<and> load_meta B d' = Inr m"
    if "m_schema_version m = SCHEMA_VERSION" for m
  proof -
    obtain d' where d': "save_meta B m d = Inr d'" "db_ok B d'" "view B d' = (view B d)\<lparr>av_meta := Some m\<rparr>"
      "d' = d\<lparr>CHAIN_TIP := CHAIN_TIP d'\<rparr>"
      by (rule migrate_saves [OF assms])
    then have "db_open B (Some d') = Inr d'"
      using that by (simp add: db_open_def migrate_schema_def persisted_meta_view)
    with d' show ?thesis by (intro exI [of _ d']) (simp add: load_meta_view)
  qed
  consider (none) "persisted_meta B d = None"
    | (low) m where "persisted_meta B d = Some m" "m_schema_version m < SCHEMA_VERSION"
    | (ok) m where "persisted_meta B d = Some m" "SCHEMA_VERSION \<le> m_schema_version m"
    by (cases "persisted_meta B d") (auto, metis linorder_not_le)
  then show ?thesis
  proof cases
    case none
    then show ?thesis
      using saved [of "FollowerMeta_default\<lparr>m_schema_version := SCHEMA_VERSION\<rparr>"]
      by (simp add: db_open_def [of B "Some d"] migrate_schema_def [of B d])
  next
    case low
    then show ?thesis
      using saved [of "reset_meta m"]
      by (simp add: db_open_def [of B "Some d"] migrate_schema_def [of B d] reset_meta_def flip: not_less)
  next
    case ok
    then show ?thesis by (intro exI [of _ d]) (simp add: db_open_def migrate_schema_def)
  qed
qed

lemma db_open_migrated:
  assumes "bincode_ok B" "rows_ok B d" "keyed (\<lambda>_ :: unit. CHAIN_TIP_KEY) (CHAIN_TIP d)"
  obtains d' m where "db_open B (Some d) = Inr d'" "load_meta B d' = Inr m" "SCHEMA_VERSION \<le> m_schema_version m"
proof -
  have saved: "\<exists>d'. save_meta B m d = Inr d' \<and> load_meta B d' = Inr m" for m
  proof -
    obtain d' where "save_meta B m d = Inr d'" "db_ok B d'" "view B d' = (view B d)\<lparr>av_meta := Some m\<rparr>"
      by (rule migrate_saves [OF assms])
    then show ?thesis by (simp add: load_meta_view)
  qed
  have kept: "load_meta B d = Inr m" if "persisted_meta B d = Some m" "SCHEMA_VERSION \<le> m_schema_version m" for m
    using that by (auto simp: persisted_meta_def load_meta_def get_rec_def SCHEMA_VERSION_def split: option.splits)
  have "\<exists>d' m. db_open B (Some d) = Inr d' \<and> load_meta B d' = Inr m \<and> SCHEMA_VERSION \<le> m_schema_version m"
  proof (cases "persisted_meta B d")
    case None
    from saved [of "FollowerMeta_default\<lparr>m_schema_version := SCHEMA_VERSION\<rparr>"] show ?thesis
      using None by (auto simp: db_open_def migrate_schema_def)
  next
    case (Some m)
    show ?thesis
    proof (cases "SCHEMA_VERSION \<le> m_schema_version m")
      case True
      then show ?thesis using Some kept by (auto simp: db_open_def migrate_schema_def)
    next
      case False
      from saved [of "reset_meta m"] show ?thesis
        using Some False by (auto simp: db_open_def migrate_schema_def reset_meta_def)
    qed
  qed
  with that show ?thesis by blast
qed

text \<open>A checkpoint row written before the version field existed: it does not decode.\<close>

definition legacy_db :: "blob db" where
  "legacy_db = open_all_tables\<lparr>CHAIN_TIP := t_insert t_empty CHAIN_TIP_KEY BLegacy\<rparr>"

lemma legacy_db_facts:
  "rows_ok sample_bincode legacy_db" "keyed (\<lambda>_ :: unit. CHAIN_TIP_KEY) (CHAIN_TIP legacy_db)"
  "persisted_meta sample_bincode legacy_db = Some (FollowerMeta_default\<lparr>m_schema_version := 0\<rparr>)"
  using db_ok_open_all_tables [of sample_bincode]
  by (simp_all add: legacy_db_def db_ok_def rows_ok_def open_all_tables_def keyed_def persisted_meta_def sample_bincode_def)

theorem open_migrates_once_witness:
  "\<exists>d. db_open sample_bincode (Some legacy_db) = Inr d \<and> db_open sample_bincode (Some d) = Inr d \<and>
     load_meta sample_bincode d = Inr (FollowerMeta_default\<lparr>m_schema_version := 1\<rparr>)"
  using open_migrates_once [OF sample_bincode_ok legacy_db_facts(1,2)] legacy_db_facts(3)
  by (elim exE conjE) (simp add: reset_meta_def FollowerMeta_default_def SCHEMA_VERSION_def)

end
