(* ===== verification/StoreProps.thy ===== *)
theory StoreProps
  imports Migration
begin

section \<open>Properties of the store\<close>

text \<open>
  The store's promises, each over the operations of the code: what one block does, replay,
  and the reorg wipe (what it undoes and what it does not).
\<close>

text \<open>C1: applying a block to a well-formed database never fails; the result is well-formed (every
  secondary index is again exactly the index of its primary table) and its rows are given in
  closed form: the checkpoint is the block's, the HTLC of an outpoint is the one locked last
  in the block or the old one, settled by the block's first spend of it unless it already
  was, and every other map is overwritten by the block's rows, the last of a key winning.\<close>

theorem block_apply_exact:
  assumes "bincode_ok B" "db_ok B d" "datums_consistent (ev_output_datums ev) (view B d)"
  shows "\<exists>d'. apply_block_events B ev d = Inr d' \<and> db_ok B d' \<and>
    view B d' =
      \<lparr>av_meta = Some (advanced_meta ev),
       av_blocks = (av_blocks (view B d))(ev_height ev \<mapsto>
         \<lparr>bm_block_id = ev_block_id ev, bm_tx_count = ev_tx_count ev, bm_timestamp = ev_timestamp ev\<rparr>),
       av_htlcs = (\<lambda>x. map_option (after_spends (ev_height ev) (ev_spends ev) x)
         ((av_htlcs (view B d) ++ locked ev) x)),
       av_settlements = av_settlements (view B d) ++
         written (\<lambda>s. (s_contract_hash s, s_observer_address s, s_block_height s, s_tx_id s)) (\<lambda>s. s)
           (ev_settlements ev),
       av_activity = av_activity (view B d) ++ written (activity_key_of (ev_height ev)) activity_value_of (ev_activity ev),
       av_spent = av_spent (view B d) ++
         written (\<lambda>sb. (sb_prev_tx_id sb, sb_output_index sb)) (\<lambda>sb. sb) (ev_spent_by ev),
       av_datums = av_datums (view B d) ++
         written (\<lambda>od. (od_tx_id od, od_output_index od)) (datum_value_of (ev_height ev)) (ev_output_datums ev)\<rparr>"
  unfolding spec_apply_eq [symmetric] by (rule simE [OF apply_refines [OF assms(1), of ev] assms(2,3)]) blast

theorem block_apply_exact_witness:
  "\<exists>d. apply_block_events sample_bincode lock_block open_all_tables = Inr d \<and> db_ok sample_bincode d \<and>
     av_htlcs (view sample_bincode d) (filled 4, 0) = Some sample_htlc"
proof -
  obtain d where d: "apply_block_events sample_bincode lock_block open_all_tables = Inr d" "db_ok sample_bincode d"
    "view sample_bincode d = spec_apply lock_block (view sample_bincode open_all_tables)"
    using block_apply_exact [OF sample_bincode_ok db_ok_open_all_tables sample_chain_consistent(2)]
    unfolding spec_apply_eq [symmetric] by blast
  have "av_htlcs (view sample_bincode d) (filled 4, 0) = Some sample_htlc"
    using sample_view [OF d(3)] by simp
  with d(1,2) show ?thesis by blast
qed

lemma datums_consistent_run:
  assumes "datums_consistent (run_datums evs) A"
  shows "datums_consistent (run_datums evs) (fold spec_apply evs A)"
proof -
  have "datums_consistent (run_datums evs) (fold spec_apply es A)" if "set es \<subseteq> set evs" for es
    using that assms
  proof (induction es rule: rev_induct)
    case (snoc ev es)
    then have "set (ev_output_datums ev) \<subseteq> set (run_datums evs)"
      by (auto simp: run_datums_def)
    with snoc show ?case by (simp add: datums_consistent_apply)
  qed simp
  then show ?thesis by blast
qed

text \<open>C9: replay is idempotent to the byte: applying again the events of any run of blocks that has just been
  applied, in particular those of a single block, succeeds and leaves the database exactly as
  it is. (The follower computes the settlements among the events from the store, so walking
  over a block again may apply other events than these.)\<close>

theorem rewalk_idempotent:
  assumes "bincode_ok B" "db_ok B d" "datums_consistent (run_datums evs) (view B d)"
  shows "\<exists>d'. apply_blocks B evs d = Inr d' \<and> apply_blocks B evs d' = Inr d'"
proof -
  note R = apply_blocks_refines [OF assms(1), of evs]
  obtain d1 where d1: "apply_blocks B evs d = Inr d1" "db_ok B d1" "view B d1 = fold spec_apply evs (view B d)"
    by (rule simE [OF R assms(2,3)])
  have "datums_consistent (run_datums evs) (view B d1)"
    unfolding d1(3) by (rule datums_consistent_run [OF assms(3)])
  then obtain d2 where d2: "apply_blocks B evs d1 = Inr d2" "db_ok B d2" "view B d2 = fold spec_apply evs (view B d1)"
    by (rule simE [OF R d1(2)])
  have "d2 = d1"
    using d2 d1 by (intro db_eqI [of B]) (simp_all add: spec_rewalk)
  with d1(1) d2(1) show ?thesis by blast
qed

theorem rewalk_idempotent_witness:
  "\<exists>d. apply_blocks sample_bincode [lock_block, claim_block] open_all_tables = Inr d \<and>
     apply_blocks sample_bincode [lock_block, claim_block] d = Inr d"
  by (rule rewalk_idempotent [OF sample_bincode_ok db_ok_open_all_tables sample_chain_consistent(1)])

text \<open>C8: the wipe of a reorg never fails or panics on a well-formed database, keeps it well-formed,
  leaves the checkpoint, and in every table keeps exactly the rows at or below the bound,
  unchanged.\<close>

theorem wipe_above_exact:
  assumes "bincode_ok B" "db_ok B d"
  shows "\<exists>d'. wipe_above B keep d = Inr d' \<and> db_ok B d' \<and> av_meta (view B d') = av_meta (view B d) \<and>
    (\<forall>x r. av_htlcs (view B d') x = Some r \<longleftrightarrow> av_htlcs (view B d) x = Some r \<and> lock_height_or_max r \<le> keep) \<and>
    (\<forall>h b. av_blocks (view B d') h = Some b \<longleftrightarrow> av_blocks (view B d) h = Some b \<and> h \<le> keep) \<and>
    (\<forall>a h t dr v. av_activity (view B d') (a, h, t, dr) = Some v \<longleftrightarrow>
       av_activity (view B d) (a, h, t, dr) = Some v \<and> h \<le> keep) \<and>
    (\<forall>c a h t s. av_settlements (view B d') (c, a, h, t) = Some s \<longleftrightarrow>
       av_settlements (view B d) (c, a, h, t) = Some s \<and> h \<le> keep) \<and>
    (\<forall>x sb. av_spent (view B d') x = Some sb \<longleftrightarrow> av_spent (view B d) x = Some sb \<and> sb_block_height sb \<le> keep) \<and>
    (\<forall>x r. av_datums (view B d') x = Some r \<longleftrightarrow> av_datums (view B d) x = Some r \<and> dr_block_height r \<le> keep)"
proof -
  obtain d' where "wipe_above B keep d = Inr d'" "db_ok B d'" "view B d' = spec_wipe keep (view B d)"
    by (rule simE [OF wipe_refines assms(2) TrueI])
  then show ?thesis by (intro exI [of _ d']) (simp add: spec_wipe_def dropped_eq_Some_iff not_less)
qed

theorem wipe_above_exact_witness:
  "\<exists>d d'. apply_block_events sample_bincode lock_block open_all_tables = Inr d \<and>
     wipe_above sample_bincode 4 d = Inr d' \<and> av_htlcs (view sample_bincode d) (filled 4, 0) = Some sample_htlc \<and>
     av_htlcs (view sample_bincode d') (filled 4, 0) = None"
proof -
  obtain d where d: "apply_block_events sample_bincode lock_block open_all_tables = Inr d" "db_ok sample_bincode d"
    "view sample_bincode d = spec_apply lock_block (view sample_bincode open_all_tables)"
    by (rule sample_db)
  from wipe_above_exact [OF sample_bincode_ok d(2), of 4] obtain d' where
    d': "wipe_above sample_bincode 4 d = Inr d'"
    "\<forall>x r. av_htlcs (view sample_bincode d') x = Some r \<longleftrightarrow>
       av_htlcs (view sample_bincode d) x = Some r \<and> lock_height_or_max r \<le> 4"
    by blast
  have "av_htlcs (view sample_bincode d') (filled 4, 0) = None"
    using d'(2) sample_view [OF d(3)]
    by (cases "av_htlcs (view sample_bincode d') (filled 4, 0)")
      (auto simp: sample_htlc_def lock_height_or_max_def)
  with d(1) d'(1) sample_view [OF d(3)] show ?thesis by auto
qed


text \<open>C27: rolling back a block that only added to the index restores every row: when the database
  holds nothing above the bound, and the block lies above it, writes to no row that is there
  and spends no unsettled HTLC that is there, then applying the block and wiping above the
  bound gives a database equal to the old one in everything but the checkpoint.\<close>

theorem apply_wipe_restores:
  assumes "bincode_ok B" "db_ok B d" "wipe_above B keep d = Inr d" "extends_above keep ev (view B d)"
    and "datums_consistent (ev_output_datums ev) (view B d)"
  shows "\<exists>d1 d2. apply_block_events B ev d = Inr d1 \<and> wipe_above B keep d1 = Inr d2 \<and>
    d2 = d\<lparr>CHAIN_TIP := CHAIN_TIP d1\<rparr> \<and> load_meta B d2 = Inr (advanced_meta ev)"
proof -
  obtain d1 where d1: "apply_block_events B ev d = Inr d1" "db_ok B d1" "view B d1 = spec_apply ev (view B d)"
    by (rule simE [OF apply_refines [OF assms(1)] assms(2,5)])
  obtain d2 where d2: "wipe_above B keep d1 = Inr d2" "db_ok B d2" "view B d2 = spec_wipe keep (view B d1)"
    by (rule simE [OF wipe_refines d1(2) TrueI])
  have low: "spec_wipe keep (view B d) = view B d"
    using simE [OF wipe_refines assms(2) TrueI, of keep] assms(3) by (metis sum.inject(2))
  have v2: "view B d2 = (view B d)\<lparr>av_meta := Some (advanced_meta ev)\<rparr>"
    using spec_wipe_apply [OF assms(4) low] d2(3) d1(3) by simp
  have tip: "av_meta (view B (d\<lparr>CHAIN_TIP := CHAIN_TIP d1\<rparr>)) = Some (advanced_meta ev)"
    using arg_cong [OF d1(3), of av_meta] by (simp add: view_def spec_apply_eq)
  have "d2 = d\<lparr>CHAIN_TIP := CHAIN_TIP d1\<rparr>"
  proof (rule db_eqI [OF d2(2)])
    show "db_ok B (d\<lparr>CHAIN_TIP := CHAIN_TIP d1\<rparr>)"
      using assms(2) d1(2) by (simp add: db_ok_def rows_ok_def)
    show "view B d2 = view B (d\<lparr>CHAIN_TIP := CHAIN_TIP d1\<rparr>)"
      using v2 tip by (simp add: view_def)
  qed
  moreover have "load_meta B d2 = Inr (advanced_meta ev)"
    using d2(2) v2 by (simp add: load_meta_view)
  ultimately show ?thesis using d1(1) d2(1) by blast
qed

theorem apply_wipe_restores_witness:
  "\<exists>d1 d2. apply_block_events sample_bincode lock_block open_all_tables = Inr d1 \<and>
     wipe_above sample_bincode 4 d1 = Inr d2 \<and> d2 = open_all_tables\<lparr>CHAIN_TIP := CHAIN_TIP d1\<rparr> \<and>
     load_meta sample_bincode d2 = Inr (advanced_meta lock_block)"
proof (rule apply_wipe_restores [OF sample_bincode_ok db_ok_open_all_tables _ _ sample_chain_consistent(2)])
  obtain d where d: "wipe_above sample_bincode 4 open_all_tables = Inr d" "db_ok sample_bincode d"
    "view sample_bincode d = spec_wipe 4 (view sample_bincode open_all_tables)"
    by (rule simE [OF wipe_refines db_ok_open_all_tables TrueI])
  then have "d = open_all_tables"
    by (intro db_eqI [of sample_bincode]) (simp_all add: spec_wipe_def dropped_def)
  with d(1) show "wipe_above sample_bincode 4 open_all_tables = Inr open_all_tables" by simp
  show "extends_above 4 lock_block (view sample_bincode open_all_tables)"
    by (simp add: extends_above_def sample_defs lock_height_or_max_def)
qed

text \<open>C28: what a reorg does not undo: when a block settles an HTLC that was locked at or below the bound,
  wiping above the bound keeps the HTLC settled by the rolled-back block, and no later block
  can correct it, since a settled HTLC is left alone unless its lock is applied again.\<close>

theorem reorg_keeps_settlement:
  assumes "bincode_ok B" "db_ok B d" "datums_consistent (ev_output_datums ev) (view B d)"
    and "av_htlcs (view B d) x = Some r" "\<not> settled r" "lock_height_or_max r \<le> keep" "keep < ev_height ev"
    and "locked ev x = None" "find (spend_hits x) (ev_spends ev) = Some sp"
  shows "\<exists>d1 d2. apply_block_events B ev d = Inr d1 \<and> wipe_above B keep d1 = Inr d2 \<and>
    av_htlcs (view B d2) x = Some (settle_record (sp_arm sp) (ev_height ev) r) \<and>
    (\<forall>ev' d3. locked ev' x = None \<longrightarrow> datums_consistent (ev_output_datums ev') (view B d2) \<longrightarrow>
       apply_block_events B ev' d2 = Inr d3 \<longrightarrow>
       av_htlcs (view B d3) x = Some (settle_record (sp_arm sp) (ev_height ev) r))"
proof -
  obtain d1 where d1: "apply_block_events B ev d = Inr d1" "db_ok B d1" "view B d1 = spec_apply ev (view B d)"
    by (rule simE [OF apply_refines [OF assms(1)] assms(2,3)])
  obtain d2 where d2: "wipe_above B keep d1 = Inr d2" "db_ok B d2" "view B d2 = spec_wipe keep (view B d1)"
    by (rule simE [OF wipe_refines d1(2) TrueI])
  have x1: "av_htlcs (view B d1) x = Some (settle_record (sp_arm sp) (ev_height ev) r)"
    using assms(4,5,8,9) by (simp add: d1(3) spec_apply_eq map_add_def after_spends_def)
  then have x2: "av_htlcs (view B d2) x = Some (settle_record (sp_arm sp) (ev_height ev) r)"
    using assms(6) by (simp add: d2(3) spec_wipe_def dropped_eq_Some_iff not_less)
  have "av_htlcs (view B d3) x = Some (settle_record (sp_arm sp) (ev_height ev) r)"
    if "locked ev' x = None" "datums_consistent (ev_output_datums ev') (view B d2)"
      "apply_block_events B ev' d2 = Inr d3" for ev' d3
  proof -
    have "view B d3 = spec_apply ev' (view B d2)"
      using simE [OF apply_refines [OF assms(1)] d2(2) that(2)] that(3) by (metis sum.inject(2))
    then show ?thesis using x2 that(1) by (simp add: spec_apply_eq map_add_def after_spends_def)
  qed
  with d1(1) d2(1) x2 show ?thesis by blast
qed

theorem reorg_keeps_settlement_witness:
  "\<exists>d d1 d2. apply_block_events sample_bincode lock_block open_all_tables = Inr d \<and>
     apply_block_events sample_bincode claim_block d = Inr d1 \<and> wipe_above sample_bincode 5 d1 = Inr d2 \<and>
     map_option state (av_htlcs (view sample_bincode d2) (filled 4, 0)) = Some Claimed"
proof -
  obtain d where d: "apply_block_events sample_bincode lock_block open_all_tables = Inr d" "db_ok sample_bincode d"
    "view sample_bincode d = spec_apply lock_block (view sample_bincode open_all_tables)"
    by (rule sample_db)
  have "\<exists>d1 d2. apply_block_events sample_bincode claim_block d = Inr d1 \<and> wipe_above sample_bincode 5 d1 = Inr d2 \<and>
    av_htlcs (view sample_bincode d2) (filled 4, 0) =
      Some (settle_record (sp_arm sample_spend) (ev_height claim_block) sample_htlc) \<and>
    (\<forall>ev' d3. locked ev' (filled 4, 0) = None \<longrightarrow> datums_consistent (ev_output_datums ev') (view sample_bincode d2) \<longrightarrow>
       apply_block_events sample_bincode ev' d2 = Inr d3 \<longrightarrow> av_htlcs (view sample_bincode d3) (filled 4, 0) =
         Some (settle_record (sp_arm sample_spend) (ev_height claim_block) sample_htlc))"
    by (rule reorg_keeps_settlement [OF sample_bincode_ok d(2)])
      (simp_all add: sample_view [OF d(3)] sample_defs datums_consistent_def settled_def lock_height_or_max_def
        locked_def spend_hits_def)
  then show ?thesis
    using d(1) by (elim exE conjE) (auto simp: settle_record_def sample_spend_def)
qed

end
