(* ===== verification/Upstream.thy ===== *)
theory Upstream
  imports Errors
begin

section \<open>The upstream node client (\<^verbatim>\<open>src/upstream.rs\<close>)\<close>

text \<open>
  The JSON-RPC client of the node: the URL list with its round-robin counter, the retry loop
  with linear backoff, the reading of a reply, and the four requests. The HTTP exchange is
  the parameter \<open>post\<close> (what the attempt of a given number at a given URL gives
  for a request), JSON access and the derived decoders of the response types are the
  parameters \<open>J\<close> and \<open>D\<close>; all three are third-party. The counter is a u64
  that wraps around. The loop also returns the attempts it made, each with the pause before
  it, on which the failover and backoff properties are stated.
\<close>

subsection \<open>Response shapes\<close>

record TipResponse =
  tip_height :: u64
  tip_block_id :: string

record BlockSummary =
  b_block_id :: string
  b_height :: u64
  b_timestamp :: u64
  b_tx_count :: u64
  b_transactions :: "string list"
  b_prev_block_id :: string
  b_difficulty_target :: string
  b_nonce :: u64
  b_state_root :: string
  b_tx_root :: string

record TxStatus =
  st_tx_id :: string
  st_tx_hex :: string
  st_in_mempool :: bool
  st_block_id :: "string option"
  st_block_height :: "u64 option"

datatype SpentByResponse =
    Spent bool string u32 u64
  | Unspent bool

text \<open>The requests, with their parameters, and what an HTTP exchange can give.\<close>

datatype node_request =
    GetBlockHeight
  | GetBlock u64
  | GetTransaction string
  | GetOutputSpentBy string u32

datatype 'j http_reply =
    SendFailed string
  | NotJson string
  | Body 'j

record 'j json_ops =
  j_get :: "'j \<Rightarrow> string \<Rightarrow> 'j option"
  j_as_i64 :: "'j \<Rightarrow> int option"
  j_as_str :: "'j \<Rightarrow> string option"

record 'j node_decoders =
  d_tip :: "'j \<Rightarrow> TipResponse option"
  d_block :: "'j \<Rightarrow> BlockSummary option"
  d_tx_status :: "'j \<Rightarrow> TxStatus option"
  d_spent_by :: "'j \<Rightarrow> SpentByResponse option"


subsection \<open>The client\<close>

definition DEFAULT_RETRY_ATTEMPTS :: u32 where
  "DEFAULT_RETRY_ATTEMPTS = 4"

definition DEFAULT_BACKOFF_MS :: u64 where
  "DEFAULT_BACKOFF_MS = 500"

record NodeClient =
  nc_urls :: "string list"
  nc_next :: u64
  nc_attempts :: u32
  nc_backoff_ms :: u64

text \<open>\<^verbatim>\<open>str::split\<close> at a comma, and \<^verbatim>\<open>str::trim\<close> of ASCII text.\<close>

fun split_comma :: "string \<Rightarrow> string list" where
  "split_comma [] = [[]]"
| "split_comma (c # cs) =
     (if c = CHR '','' then [] # split_comma cs
      else (case split_comma cs of s # ss \<Rightarrow> (c # s) # ss | [] \<Rightarrow> [[c]]))"

definition is_space :: "char \<Rightarrow> bool" where
  "is_space c \<longleftrightarrow> c \<in> {CHR '' '', CHR 0x09, CHR 0x0A, CHR 0x0B, CHR 0x0C, CHR 0x0D}"

definition trim :: "string \<Rightarrow> string" where
  "trim s = rev (dropWhile is_space (rev (dropWhile is_space s)))"

definition node_client_new :: "string \<Rightarrow> (error + NodeClient)" where
  "node_client_new node_rpc =
     (let urls = filter (\<lambda>s. s \<noteq> []) (map trim (split_comma node_rpc))
      in if urls = [] then Inl (Internal ''node_rpc: at least one URL required'')
         else Inr \<lparr>nc_urls = urls, nc_next = 0, nc_attempts = DEFAULT_RETRY_ATTEMPTS,
                   nc_backoff_ms = DEFAULT_BACKOFF_MS\<rparr>)"

definition with_retry :: "u32 \<Rightarrow> u64 \<Rightarrow> NodeClient \<Rightarrow> NodeClient" where
  "with_retry attempts backoff_ms c = c\<lparr>nc_attempts := max attempts 1, nc_backoff_ms := backoff_ms\<rparr>"

definition next_url :: "NodeClient \<Rightarrow> string \<times> NodeClient" where
  "next_url c = (nc_urls c ! (unat (nc_next c) mod length (nc_urls c)), c\<lparr>nc_next := nc_next c + 1\<rparr>)"

text \<open>\<^verbatim>\<open>u64::saturating_mul\<close>, and the pause before an attempt.\<close>

definition saturating_mul :: "u64 \<Rightarrow> u64 \<Rightarrow> u64" where
  "saturating_mul a b = (if unat a * unat b < 2 ^ 64 then a * b else - 1)"

definition backoff :: "u64 \<Rightarrow> nat \<Rightarrow> u64" where
  "backoff backoff_ms attempt = (if attempt > 0 then saturating_mul backoff_ms (word_of_nat attempt) else 0)"

text \<open>The reading of a JSON reply. The code is cut to an i32, stored as its bits.\<close>

definition read_reply :: "'j json_ops \<Rightarrow> 'j \<Rightarrow> (error + 'j)" where
  "read_reply J v =
     (case j_get J v ''error'' of
        Some err \<Rightarrow>
          Inl (UpstreamRpc
            (word_of_int (case Option.bind (j_get J err ''code'') (j_as_i64 J) of Some c \<Rightarrow> c | None \<Rightarrow> - 32603))
            (case Option.bind (j_get J err ''message'') (j_as_str J) of
               Some m \<Rightarrow> m
             | None \<Rightarrow> ''unspecified upstream error''))
      | None \<Rightarrow>
          (case j_get J v ''result'' of
             Some result \<Rightarrow> Inr result
           | None \<Rightarrow> Inl (UpstreamRpc (- 32603) ''missing result field'')))"

fun call_from ::
  "'j json_ops \<Rightarrow> (nat \<Rightarrow> string \<Rightarrow> node_request \<Rightarrow> 'j http_reply) \<Rightarrow> node_request \<Rightarrow> nat \<Rightarrow> nat \<Rightarrow> string option \<Rightarrow>
   NodeClient \<Rightarrow> (error + 'j) \<times> (u64 \<times> string) list \<times> NodeClient" where
  "call_from J post req attempt 0 last_err c =
     (Inl (UpstreamUnreachable (case last_err of Some m \<Rightarrow> m | None \<Rightarrow> ''all attempts exhausted'')), [], c)"
| "call_from J post req attempt (Suc left) last_err c =
     (let pause = backoff (nc_backoff_ms c) attempt;
          (url, c) = next_url c;
          again = (\<lambda>m. let (r, tried, c) = call_from J post req (Suc attempt) left (Some m) c
                       in (r, (pause, url) # tried, c))
      in case post attempt url req of
           Body v \<Rightarrow> (read_reply J v, [(pause, url)], c)
         | NotJson e \<Rightarrow> again (''decode: '' @ e)
         | SendFailed e \<Rightarrow> again e)"

definition call ::
  "'j json_ops \<Rightarrow> (nat \<Rightarrow> string \<Rightarrow> node_request \<Rightarrow> 'j http_reply) \<Rightarrow> node_request \<Rightarrow>
   NodeClient \<Rightarrow> (error + 'j) \<times> (u64 \<times> string) list \<times> NodeClient" where
  "call J post req c = call_from J post req 0 (unat (nc_attempts c)) None c"


subsection \<open>The requests\<close>

definition decode_as :: "('j \<Rightarrow> 'a option) \<Rightarrow> string \<Rightarrow> (error + 'j) \<Rightarrow> (error + 'a)" where
  "decode_as dec msg r =
     (case r of Inl e \<Rightarrow> Inl e
      | Inr v \<Rightarrow> (case dec v of Some x \<Rightarrow> Inr x | None \<Rightarrow> Inl (Internal msg)))"

type_synonym 'j transport = "nat \<Rightarrow> string \<Rightarrow> node_request \<Rightarrow> 'j http_reply"

definition get_block_height ::
  "'j json_ops \<Rightarrow> 'j node_decoders \<Rightarrow> 'j transport \<Rightarrow> NodeClient \<Rightarrow> (error + TipResponse) \<times> NodeClient" where
  "get_block_height J D post c =
     (let (r, _, c) = call J post GetBlockHeight c in (decode_as (d_tip D) ''get_block_height: decode'' r, c))"

definition get_block_by_height ::
  "'j json_ops \<Rightarrow> 'j node_decoders \<Rightarrow> 'j transport \<Rightarrow> u64 \<Rightarrow> NodeClient \<Rightarrow> (error + BlockSummary) \<times> NodeClient" where
  "get_block_by_height J D post height c =
     (let (r, _, c) = call J post (GetBlock height) c
      in (decode_as (d_block D) ''get_block_by_height: decode'' r, c))"

definition get_transaction ::
  "'j json_ops \<Rightarrow> 'j node_decoders \<Rightarrow> 'j transport \<Rightarrow> string \<Rightarrow> NodeClient \<Rightarrow> (error + TxStatus) \<times> NodeClient" where
  "get_transaction J D post tx_id_hex c =
     (let (r, _, c) = call J post (GetTransaction tx_id_hex) c
      in (decode_as (d_tx_status D) ''get_transaction: decode'' r, c))"

definition node_get_output_spent_by ::
  "'j json_ops \<Rightarrow> 'j node_decoders \<Rightarrow> 'j transport \<Rightarrow> string \<Rightarrow> u32 \<Rightarrow> NodeClient \<Rightarrow>
   (error + SpentByResponse) \<times> NodeClient" where
  "node_get_output_spent_by J D post tx_id_hex output_index c =
     (let (r, _, c) = call J post (GetOutputSpentBy tx_id_hex output_index) c
      in (decode_as (d_spent_by D) ''get_output_spent_by: decode'' r, c))"

text \<open>
  What the follower and the RPC layer see of a client: its answers, as functions of the
  request, for a client in a given state.
\<close>

record node =
  n_get_block_height :: "error + TipResponse"
  n_get_block_by_height :: "u64 \<Rightarrow> (error + BlockSummary)"
  n_get_transaction :: "string \<Rightarrow> (error + TxStatus)"
  n_get_output_spent_by :: "string \<Rightarrow> u32 \<Rightarrow> (error + SpentByResponse)"

definition node_of :: "'j json_ops \<Rightarrow> 'j node_decoders \<Rightarrow> 'j transport \<Rightarrow> NodeClient \<Rightarrow> node" where
  "node_of J D post c =
     \<lparr>n_get_block_height = fst (get_block_height J D post c),
      n_get_block_by_height = (\<lambda>h. fst (get_block_by_height J D post h c)),
      n_get_transaction = (\<lambda>t. fst (get_transaction J D post t c)),
      n_get_output_spent_by = (\<lambda>t i. fst (node_get_output_spent_by J D post t i c))\<rparr>"


subsection \<open>The URL list\<close>

lemma split_comma_not_Nil [simp]: "split_comma s \<noteq> []"
  by (induction s) (auto split: list.splits)

lemma split_comma_no_comma: "u \<in> set (split_comma s) \<Longrightarrow> CHR '','' \<notin> set u"
  by (induction s arbitrary: u) (auto split: list.splits if_splits)

lemma set_trim: "set (trim s) \<subseteq> set s"
  by (auto simp: trim_def dest!: set_dropWhileD)

lemma trim_ends: "trim s \<noteq> [] \<Longrightarrow> \<not> is_space (hd (trim s)) \<and> \<not> is_space (last (trim s))"
proof -
  let ?t = "dropWhile is_space s"
  assume ne: "trim s \<noteq> []"
  then have "dropWhile is_space (rev ?t) \<noteq> []" by (simp add: trim_def)
  then have last: "\<not> is_space (last (trim s))"
    using hd_dropWhile [of is_space "rev ?t"] by (simp add: trim_def last_rev)
  have "?t \<noteq> []"
  proof
    assume "?t = []"
    then have "trim s = []" by (simp only: trim_def rev.simps dropWhile.simps)
    with ne show False by simp
  qed
  then have "\<not> is_space (hd ?t)" by (rule hd_dropWhile)
  moreover have "hd (trim s) = hd ?t"
  proof -
    have "?t = trim s @ rev (takeWhile is_space (rev ?t))"
      unfolding trim_def by (metis rev_append rev_rev_ident takeWhile_dropWhile_id)
    then show ?thesis using ne by (metis hd_append2)
  qed
  ultimately show ?thesis using last by simp
qed

text \<open>A client is built exactly when the comma-separated list has a URL that is not blank; its URLs are
  then the trimmed non-blank entries in order: none empty, none with a comma, none with white
  space at either end; it starts at the first URL with four attempts.\<close>

theorem node_client_new_exact:
  "node_client_new s =
     (if list_all (\<lambda>u. trim u = []) (split_comma s)
      then Inl (Internal ''node_rpc: at least one URL required'')
      else Inr \<lparr>nc_urls = filter (\<lambda>u. u \<noteq> []) (map trim (split_comma s)), nc_next = 0, nc_attempts = 4,
                nc_backoff_ms = 500\<rparr>) \<and>
   list_all (\<lambda>u. u \<noteq> [] \<and> CHR '','' \<notin> set u \<and> \<not> is_space (hd u) \<and> \<not> is_space (last u))
     (filter (\<lambda>u. u \<noteq> []) (map trim (split_comma s))) \<and>
   concat (map (\<lambda>u. u @ '','') (split_comma s)) = s @ '',''"
proof -
  have "filter (\<lambda>u. u \<noteq> []) (map trim us) = [] \<longleftrightarrow> list_all (\<lambda>u. trim u = []) us" for us
    by (induction us) auto
  moreover have "list_all (\<lambda>u. u \<noteq> [] \<and> CHR '','' \<notin> set u \<and> \<not> is_space (hd u) \<and> \<not> is_space (last u))
      (filter (\<lambda>u. u \<noteq> []) (map trim (split_comma s)))"
    using trim_ends set_trim split_comma_no_comma by (fastforce simp: list_all_iff)
  moreover have "concat (map (\<lambda>u. u @ '','') (split_comma s)) = s @ '',''"
    by (induction s) (auto split: list.splits)
  ultimately show ?thesis
    by (simp add: node_client_new_def DEFAULT_RETRY_ATTEMPTS_def DEFAULT_BACKOFF_MS_def Let_def)
qed


subsection \<open>The retry loop\<close>

definition url_at :: "NodeClient \<Rightarrow> nat \<Rightarrow> string" where
  "url_at c i = nc_urls c ! (unat (nc_next c + word_of_nat i) mod length (nc_urls c))"

fun transport_failed :: "'j http_reply \<Rightarrow> bool" where
  "transport_failed (Body _) = False"
| "transport_failed _ = True"

fun failure_text :: "'j http_reply \<Rightarrow> string" where
  "failure_text (SendFailed e) = e"
| "failure_text (NotJson e) = ''decode: '' @ e"
| "failure_text (Body _) = []"

fun body_of :: "'j http_reply \<Rightarrow> 'j option" where
  "body_of (Body v) = Some v"
| "body_of _ = None"

definition advanced :: "nat \<Rightarrow> NodeClient \<Rightarrow> NodeClient" where
  "advanced n c = c\<lparr>nc_next := nc_next c + word_of_nat n\<rparr>"

lemma find_upt_Suc:
  "find P [0..<Suc n] = (if P 0 then Some 0 else map_option Suc (find (\<lambda>i. P (Suc i)) [0..<n]))"
proof -
  have "find P (map Suc xs) = map_option Suc (find (\<lambda>i. P (Suc i)) xs)" for xs
    by (induction xs) simp_all
  moreover have "[0..<Suc n] = 0 # map Suc [0..<n]" by (simp add: map_Suc_upt upt_conv_Cons del: upt_Suc)
  ultimately show ?thesis by (simp only: find.simps)
qed

lemma map_upt_Suc_shift: "map f [0..<Suc n] = f 0 # map (\<lambda>i. f (Suc i)) [0..<n]"
  by (simp add: map_upt_Suc del: upt_Suc)

lemma call_from_exact:
  "call_from J post req a left last_err c =
     (case find (\<lambda>i. \<not> transport_failed (post (a + i) (url_at c i) req)) [0..<left] of
        Some k \<Rightarrow>
          (read_reply J (the (body_of (post (a + k) (url_at c k) req))),
           map (\<lambda>i. (backoff (nc_backoff_ms c) (a + i), url_at c i)) [0..<Suc k], advanced (Suc k) c)
      | None \<Rightarrow>
          (Inl (UpstreamUnreachable
             (case left of
                0 \<Rightarrow> (case last_err of Some m \<Rightarrow> m | None \<Rightarrow> ''all attempts exhausted'')
              | Suc n \<Rightarrow> failure_text (post (a + n) (url_at c n) req))),
           map (\<lambda>i. (backoff (nc_backoff_ms c) (a + i), url_at c i)) [0..<left], advanced left c))"
proof (induction left arbitrary: a last_err c)
  case 0
  then show ?case by (simp add: advanced_def)
next
  case (Suc left)
  let ?c = "c\<lparr>nc_next := nc_next c + 1\<rparr>"
  have url: "url_at ?c i = url_at c (Suc i)" "nc_backoff_ms ?c = nc_backoff_ms c" for i
    by (simp_all add: url_at_def algebra_simps)
  have adv: "advanced n ?c = advanced (Suc n) c" for n
    by (simp add: advanced_def algebra_simps)
  have start: "next_url c = (url_at c 0, ?c)" by (simp add: next_url_def url_at_def)
  have more: "call_from J post req (Suc a) left (Some (failure_text (post a (url_at c 0) req))) ?c =
     (case find (\<lambda>i. \<not> transport_failed (post (a + Suc i) (url_at c (Suc i)) req)) [0..<left] of
        Some k \<Rightarrow>
          (read_reply J (the (body_of (post (a + Suc k) (url_at c (Suc k)) req))),
           map (\<lambda>i. (backoff (nc_backoff_ms c) (a + Suc i), url_at c (Suc i))) [0..<Suc k], advanced (Suc (Suc k)) c)
      | None \<Rightarrow>
          (Inl (UpstreamUnreachable (failure_text (post (a + left) (url_at c left) req))),
           map (\<lambda>i. (backoff (nc_backoff_ms c) (a + Suc i), url_at c (Suc i))) [0..<left], advanced (Suc left) c))"
    unfolding Suc.IH [of "Suc a" _ ?c] url adv by (simp split: option.splits nat.splits del: upt_Suc)
  show ?case
  proof (cases "post a (url_at c 0) req")
    case (Body v)
    then show ?thesis by (simp add: start find_upt_Suc advanced_def Let_def del: upt_Suc) simp
  next
    case (SendFailed e)
    then show ?thesis
      using more by (simp add: start find_upt_Suc Let_def map_upt_Suc_shift del: upt_Suc split: option.splits)
  next
    case (NotJson e)
    then show ?thesis
      using more by (simp add: start find_upt_Suc Let_def map_upt_Suc_shift del: upt_Suc split: option.splits)
  qed
qed

text \<open>C25: a request ends after at most the configured number of attempts, in round-robin order of the URLs
  with a linearly growing pause before each: the first attempt that brings JSON back decides
  the call, whatever it says, and ends it; when none does, the call fails as unreachable with
  the message of the last attempt. The counter advances by the number of attempts made.\<close>

theorem call_exact:
  "call J post req c =
     (let n = unat (nc_attempts c);
          attempt = (\<lambda>i. (backoff (nc_backoff_ms c) i, url_at c i))
      in case find (\<lambda>i. \<not> transport_failed (post i (url_at c i) req)) [0..<n] of
           Some k \<Rightarrow>
             (read_reply J (the (body_of (post k (url_at c k) req))), map attempt [0..<Suc k], advanced (Suc k) c)
         | None \<Rightarrow>
             (Inl (UpstreamUnreachable
                (if n = 0 then ''all attempts exhausted''
                 else failure_text (post (n - 1) (url_at c (n - 1)) req))),
              map attempt [0..<n], advanced n c))"
  unfolding call_def call_from_exact Let_def
  by (cases "unat (nc_attempts c)") (simp_all split: option.splits del: upt_Suc)

lemma round_robin_onto:
  assumes "0 < len" "len \<le> n" "j < len"
  shows "\<exists>i<n. (k + i) mod len = (j :: nat)"
proof -
  define i where "i = (j + (len - k mod len)) mod len"
  have "(k + i) mod len = (k mod len + (j + (len - k mod len))) mod len"
    unfolding i_def by (simp add: mod_simps)
  also have "k mod len + (j + (len - k mod len)) = j + len"
    using less_imp_le [OF mod_less_divisor [OF assms(1), of k]] by linarith
  finally have "(k + i) mod len = j" using assms(3) by simp
  moreover have "i < n" using assms unfolding i_def by (meson less_le_trans mod_less_divisor)
  ultimately show ?thesis by blast
qed

lemma url_at_no_wrap:
  assumes "unat (nc_next c) + i < 2 ^ 64"
  shows "url_at c i = nc_urls c ! ((unat (nc_next c) + i) mod length (nc_urls c))"
proof -
  have "unat (word_of_nat i :: u64) = i"
    using assms by (simp add: unat_of_nat)
  then have "unat (nc_next c + word_of_nat i) = unat (nc_next c) + i"
    using assms by (simp add: unat_word_ariths)
  then show ?thesis by (simp add: url_at_def)
qed

lemma read_reply_reachable: "read_reply J v \<noteq> Inl (UpstreamUnreachable m)"
  by (simp add: read_reply_def split: option.splits)

text \<open>Failover reaches every node: with no more URLs than attempts, a call that ends as unreachable has
  tried every configured URL, and every one of them failed to bring JSON back on some attempt
  (as long as the counter does not wrap around during the call). With more URLs than attempts
  it may give up while a healthy node was never asked.\<close>

theorem unreachable_tried_all:
  assumes "length (nc_urls c) \<le> unat (nc_attempts c)" "unat (nc_next c) + unat (nc_attempts c) < 2 ^ 64"
    and "call J post req c = (Inl (UpstreamUnreachable m), tried, c')"
  shows "set (nc_urls c) \<subseteq> set (map snd tried) \<and> length tried = unat (nc_attempts c) \<and>
    list_all (\<lambda>u. \<exists>i. i < unat (nc_attempts c) \<and> transport_failed (post i u req)) (nc_urls c)"
proof -
  let ?n = "unat (nc_attempts c)" and ?us = "nc_urls c"
  have none: "find (\<lambda>i. \<not> transport_failed (post i (url_at c i) req)) [0..<?n] = None"
    and tried: "tried = map (\<lambda>i. (backoff (nc_backoff_ms c) i, url_at c i)) [0..<?n]"
    using assms(3) read_reply_reachable [of J _ m]
    unfolding call_def call_from_exact Let_def
    by (cases "unat (nc_attempts c)"; auto split: option.splits simp del: upt_Suc)+
  have failed: "transport_failed (post i (url_at c i) req)" if "i < ?n" for i
    using none that by (auto simp: find_None_iff)
  have hit: "\<exists>i<?n. url_at c i = u" if u: "u \<in> set ?us" for u
  proof -
    from u obtain j where j: "j < length ?us" "u = ?us ! j" by (auto simp: in_set_conv_nth)
    obtain i where i: "i < ?n" "(unat (nc_next c) + i) mod length ?us = j"
      using round_robin_onto [OF less_le_trans [OF _ order_refl] assms(1) j(1)] j(1) by (cases "length ?us") auto
    have "url_at c i = u"
      using url_at_no_wrap [of c i] i assms(2) j(2) by simp
    with i(1) show ?thesis by blast
  qed
  have "set ?us \<subseteq> set (map snd tried)"
  proof
    fix u assume "u \<in> set ?us"
    from hit [OF this] obtain i where "i < ?n" "url_at c i = u" by blast
    then show "u \<in> set (map snd tried)" by (auto simp: tried)
  qed
  moreover have "list_all (\<lambda>u. \<exists>i. i < ?n \<and> transport_failed (post i u req)) ?us"
    unfolding list_all_iff using hit failed by blast
  ultimately show ?thesis by (simp add: tried)
qed

text \<open>Two URLs, both down: four attempts alternate between them.\<close>

definition down_client :: NodeClient where
  "down_client = \<lparr>nc_urls = [''http://a'', ''http://b''], nc_next = 1, nc_attempts = 4, nc_backoff_ms = 500\<rparr>"

theorem unreachable_tried_all_witness:
  "\<forall>J :: 'j json_ops. \<exists>tried c'. call J (\<lambda>i u req. SendFailed ''refused'') GetBlockHeight down_client =
     (Inl (UpstreamUnreachable ''refused''), tried, c') \<and> {''http://a'', ''http://b''} \<subseteq> set (map snd tried)"
proof
  fix J :: "'j json_ops"
  obtain tried c' where r: "call J (\<lambda>i u req. SendFailed ''refused'') GetBlockHeight down_client =
      (Inl (UpstreamUnreachable ''refused''), tried, c')"
  proof -
    have "find (\<lambda>i :: nat. False) xs = None" for xs by (induction xs) simp_all
    then show ?thesis
      using that unfolding call_def call_from_exact Let_def by (simp add: down_client_def)
  qed
  show "\<exists>tried c'. call J (\<lambda>i u req. SendFailed ''refused'') GetBlockHeight down_client =
     (Inl (UpstreamUnreachable ''refused''), tried, c') \<and> {''http://a'', ''http://b''} \<subseteq> set (map snd tried)"
    using unreachable_tried_all [OF _ _ r] r by (auto simp: down_client_def)
qed

text \<open>A reply is read by its fields alone: it succeeds exactly when it has no \<open>error\<close> field and a
  \<open>result\<close> field, so an error field makes the call fail even when it is null or a result
  stands beside it; it fails as an error of the node, and only as that, with the code cut to 32 bits
  (-32603 when there is none). No reply makes a node look unreachable.\<close>

theorem read_reply_exact:
  "(read_reply J v = Inr r \<longleftrightarrow> j_get J v ''error'' = None \<and> j_get J v ''result'' = Some r) \<and>
   (read_reply J v = Inl e \<longleftrightarrow> (\<exists>c m. e = UpstreamRpc c m \<and>
     (case j_get J v ''error'' of
        Some err \<Rightarrow>
          c = word_of_int (case Option.bind (j_get J err ''code'') (j_as_i64 J) of Some k \<Rightarrow> k | None \<Rightarrow> - 32603) \<and>
          m = (case Option.bind (j_get J err ''message'') (j_as_str J) of
                 Some t \<Rightarrow> t | None \<Rightarrow> ''unspecified upstream error'')
      | None \<Rightarrow> j_get J v ''result'' = None \<and> c = word_of_int (- 32603) \<and> m = ''missing result field'')))"
  by (auto simp: read_reply_def split: option.splits)

end
