(* ===== verification/Follower.thy ===== *)
theory Follower
  imports Upstream Sample
begin

section \<open>The block follower (\<^verbatim>\<open>src/follower.rs\<close>)\<close>

text \<open>
  The task that keeps the store at the node's tip: one block's transactions are fetched and
  turned into the events of that block, the events are applied atomically, and a tick
  compares the checkpoint with the node, steps back on a mismatch and walks forward to the
  tip. The node's answers are the parameter \<open>N\<close> while one block is processed, and may change
  between the other requests of a tick (\<open>answers\<close>); what redb reports for the tick's reads and
  write transactions is \<open>faults\<close>. Hex coding is \<open>H\<close>, the transaction crate \<open>E\<close>, the record
  codecs \<open>B\<close>. A tick is a function on the follower's state that returns its result with the
  state it left, so an error in the middle keeps what was committed before it.
\<close>

subsection \<open>Hex and lifted results\<close>

record hex =
  hex_encode :: "u8 list \<Rightarrow> string"
  hex_decode :: "string \<Rightarrow> u8 list option"

definition hex_ok :: "hex \<Rightarrow> bool" where
  "hex_ok H \<longleftrightarrow> (\<forall>bs. hex_decode H (hex_encode H bs) = Some bs)"

definition decode_hex32 :: "hex \<Rightarrow> string \<Rightarrow> 32 bytes res" where
  "decode_hex32 H s =
     bind_res (ok_or (hex_decode H s) (BadHex ''hex'')) (\<lambda>b.
       if length b \<noteq> 32 then Inl (Fail (BadAddressLen (length b))) else copy_from_slice b)"

lemma decode_hex32_encode [simp]: "hex_ok H \<Longrightarrow> decode_hex32 H (hex_encode H (byte_list b)) = Inr b"
  by (simp add: decode_hex32_def hex_ok_def)

lemma decode_hex32_eq_Inr_iff: "decode_hex32 H s = Inr b \<longleftrightarrow> hex_decode H s = Some (byte_list b)"
proof (cases "hex_decode H s")
  case (Some bs)
  then show ?thesis using length_byte_list [of b] by (auto simp: decode_hex32_def)
qed (simp add: decode_hex32_def)

lemma decode_hex32_no_panic [simp]: "decode_hex32 H s \<noteq> Inl Panic"
  by (auto simp: decode_hex32_def ok_or_def bind_res_def split: option.splits)

definition lift :: "(error + 'a) \<Rightarrow> 'a res" where
  "lift r = (case r of Inl e \<Rightarrow> Inl (Fail e) | Inr x \<Rightarrow> Inr x)"

lemma lift_simps [simp]: "lift (Inl e) = Inl (Fail e)" "lift (Inr x) = Inr x"
  by (simp_all add: lift_def)

lemma lift_eq_Inr_iff [res_simps]: "lift r = Inr x \<longleftrightarrow> r = Inr x"
  by (cases r) simp_all

lemma lift_no_panic [simp]: "lift r \<noteq> Inl Panic"
  by (cases r) simp_all


subsection \<open>The events of one block\<close>

definition fetch_tx :: "'p exfer \<Rightarrow> hex \<Rightarrow> node \<Rightarrow> 32 bytes \<Rightarrow> Transaction option res" where
  "fetch_tx E H N tx_id =
     bind_res (lift (n_get_transaction N (hex_encode H (byte_list tx_id)))) (\<lambda>status.
       if st_tx_hex status = [] then Inr None
       else bind_res (ok_or (hex_decode H (st_tx_hex status)) (Internal ''decode prev tx_hex'')) (\<lambda>tx_bytes.
            bind_res (ok_or (deserialize_tx E tx_bytes) (Internal ''decode prev tx'')) (\<lambda>tx.
              Inr (Some tx))))"

text \<open>A read of the store; \<open>fault\<close> is an error redb reports for it.\<close>

definition read_txn :: "redb_error option \<Rightarrow> 'a res \<Rightarrow> 'a res" where
  "read_txn fault r = (case fault of Some e \<Rightarrow> Inl (Fail (from_redb e)) | None \<Rightarrow> r)"

lemma read_txn_simps [simp]: "read_txn None r = r" "read_txn (Some e) r = Inl (Fail (from_redb e))"
  by (simp_all add: read_txn_def)

definition peek_htlc :: "redb_error option \<Rightarrow> 'b db \<Rightarrow> 32 bytes \<Rightarrow> u32 \<Rightarrow> 'b option res" where
  "peek_htlc fault d tx_id out_index =
     read_txn fault (Inr (t_get (HTLC_FULL d) (htlc_primary_key tx_id out_index)))"

text \<open>Appending an address unless the list has it.\<close>

definition push_new :: "'a \<Rightarrow> 'a list \<Rightarrow> 'a list" where
  "push_new x xs = (if x \<in> set xs then xs else xs @ [x])"

text \<open>What the walk over one transaction's inputs collects, and what the walk over a block does.\<close>

record InputScan =
  in_spent_by :: "SpentByCacheEntry list"
  in_cache :: "32 bytes \<rightharpoonup> Transaction"
  in_addrs :: "32 bytes list"
  in_activity :: "AddressActivity list"

record BlockScan =
  bs_locks :: "ExtractedHtlcLock list"
  bs_spends :: "ExtractedHtlcSpend list"
  bs_activity :: "AddressActivity list"
  bs_spent_by :: "SpentByCacheEntry list"
  bs_output_datums :: "ExtractedOutputDatum list"
  bs_cache :: "32 bytes \<rightharpoonup> Transaction"

text \<open>The output an input spends, when the previous transaction is known and has it.\<close>

definition spent_output :: "(32 bytes \<rightharpoonup> Transaction) \<Rightarrow> TxInput \<Rightarrow> TxOutput option" where
  "spent_output cache inp =
     (case cache (prev_tx_id inp) of
        None \<Rightarrow> None
      | Some ptx \<Rightarrow>
          (if unat (prev_output_index inp) < length (tx_outputs ptx)
           then Some (tx_outputs ptx ! unat (prev_output_index inp)) else None))"

text \<open>The three parts of the input loop: the spent-by entry, the cached previous transaction, the row.\<close>

definition spent_entry :: "32 bytes \<Rightarrow> u64 \<Rightarrow> nat \<times> TxInput \<Rightarrow> SpentByCacheEntry" where
  "spent_entry tx_id height = (\<lambda>(vin, inp).
     \<lparr>sb_prev_tx_id = prev_tx_id inp, sb_output_index = prev_output_index inp, sb_spending_tx_id = tx_id,
      sb_input_index = word_of_nat vin, sb_block_height = height\<rparr>)"

definition cache_prev_tx :: "'p exfer \<Rightarrow> hex \<Rightarrow> node \<Rightarrow> TxInput \<Rightarrow> (32 bytes \<rightharpoonup> Transaction) \<Rightarrow> (32 bytes \<rightharpoonup> Transaction) res" where
  "cache_prev_tx E H N inp cache =
     (case cache (prev_tx_id inp) of
        Some _ \<Rightarrow> Inr cache
      | None \<Rightarrow> bind_res (fetch_tx E H N (prev_tx_id inp)) (\<lambda>fetched.
          Inr (case fetched of Some ptx \<Rightarrow> cache(prev_tx_id inp \<mapsto> ptx) | None \<Rightarrow> cache)))"

definition note_sender :: "32 bytes \<Rightarrow> TxOutput option \<Rightarrow> InputScan \<Rightarrow> InputScan" where
  "note_sender tx_id prevout s =
     (case prevout of
        Some out \<Rightarrow>
          (if length (out_script out) = 32
           then s\<lparr>in_addrs := push_new (Bytes (out_script out)) (in_addrs s),
                  in_activity := in_activity s @
                    [\<lparr>a_address = Bytes (out_script out), a_tx_id = tx_id, a_amount = out_value out,
                      a_is_input = True, a_is_coinbase = False, a_counterparties = []\<rparr>]\<rparr>
           else s)
      | None \<Rightarrow> s)"

definition scan_input ::
  "'p exfer \<Rightarrow> hex \<Rightarrow> node \<Rightarrow> 32 bytes \<Rightarrow> u64 \<Rightarrow> nat \<times> TxInput \<Rightarrow> InputScan \<Rightarrow> InputScan res" where
  "scan_input E H N tx_id height = (\<lambda>(vin, inp) s.
     let s = s\<lparr>in_spent_by := in_spent_by s @ [spent_entry tx_id height (vin, inp)]\<rparr>
     in bind_res (cache_prev_tx E H N inp (in_cache s)) (\<lambda>cache.
        Inr (note_sender tx_id (spent_output cache inp) (s\<lparr>in_cache := cache\<rparr>))))"

text \<open>A received row's counterparties are the senders, a sent row's the recipients, without itself.\<close>

definition attach_counterparties :: "32 bytes list \<Rightarrow> 32 bytes list \<Rightarrow> AddressActivity \<Rightarrow> AddressActivity" where
  "attach_counterparties output_addrs input_addrs row =
     row\<lparr>a_counterparties := filter (\<lambda>a. a \<noteq> a_address row) (if a_is_input row then output_addrs else input_addrs)\<rparr>"

definition scan_tx ::
  "'p exfer \<Rightarrow> hex \<Rightarrow> node \<Rightarrow> u64 \<Rightarrow> string \<Rightarrow> BlockScan \<Rightarrow> BlockScan res" where
  "scan_tx E H N height tx_id_hex s =
     bind_res (lift (n_get_transaction N tx_id_hex)) (\<lambda>status.
     bind_res (ok_or (hex_decode H (st_tx_hex status)) (Internal ''decode tx_hex'')) (\<lambda>tx_bytes.
     bind_res (ok_or (deserialize_tx E tx_bytes) (Internal ''decode tx'')) (\<lambda>tx.
       let extracted = extract_from_tx E tx height 0;
           s = s\<lparr>bs_locks := bs_locks s @ x_locks extracted,
                 bs_spends := bs_spends s @ x_spends extracted,
                 bs_output_datums := bs_output_datums s @ x_output_datums extracted\<rparr>;
           tx_activity = x_activity extracted;
           output_addrs = fold push_new (map a_address tx_activity) []
       in bind_res
            (fold_res (scan_input E H N (x_tx_id extracted) height)
               (if is_coinbase E tx then [] else enumerate 0 (tx_inputs tx))
               \<lparr>in_spent_by = bs_spent_by s, in_cache = bs_cache s, in_addrs = [], in_activity = tx_activity\<rparr>) (\<lambda>i.
          Inr (s\<lparr>bs_spent_by := in_spent_by i, bs_cache := in_cache i,
                 bs_activity := bs_activity s @
                   map (attach_counterparties output_addrs (in_addrs i)) (in_activity i)\<rparr>)))))"

definition empty_scan :: BlockScan where
  "empty_scan = \<lparr>bs_locks = [], bs_spends = [], bs_activity = [], bs_spent_by = [], bs_output_datums = [],
                 bs_cache = Map.empty\<rparr>"

text \<open>
  The settlements of the block's spends, against the HTLCs the store has before the block. The
  code matches on \<^verbatim>\<open>Ok(Some(blob))\<close>: a read that fails counts as an HTLC that is not there.
  \<open>peeks\<close> is what redb reports for the read made for each spend.
\<close>

type_synonym peeks = "ExtractedHtlcSpend \<Rightarrow> redb_error option"

definition spend_settlements ::
  "'b bincode \<Rightarrow> 'p exfer \<Rightarrow> peeks \<Rightarrow> 'b db \<Rightarrow> u64 \<Rightarrow> ExtractedHtlcSpend \<Rightarrow> SettlementRecord list res" where
  "spend_settlements B E peek d height spend =
     (case peek_htlc (peek spend) d (sp_lock_tx_id spend) (sp_output_index spend) of
        Inr (Some blob) \<Rightarrow>
          bind_res (ok_or (de (cd_htlc B) blob) (Storage ''decode peek htlc'')) (\<lambda>r.
            Inr (settlements_for_settled_htlc E
              (r\<lparr>state := (case sp_arm spend of Claim _ _ _ \<Rightarrow> Claimed | Reclaim _ _ \<Rightarrow> Reclaimed)\<rparr>) height))
      | _ \<Rightarrow> Inr [])"

definition block_events ::
  "'b bincode \<Rightarrow> 'p exfer \<Rightarrow> hex \<Rightarrow> node \<Rightarrow> peeks \<Rightarrow> u64 \<Rightarrow> BlockSummary \<Rightarrow> u64 \<Rightarrow> 'b db \<Rightarrow> BlockApplyEvents res" where
  "block_events B E H N peek height block started_at d =
     bind_res (decode_hex32 H (b_block_id block)) (\<lambda>block_id.
     bind_res (fold_res (scan_tx E H N height) (b_transactions block) empty_scan) (\<lambda>s.
     bind_res (map_res (spend_settlements B E peek d height) (bs_spends s)) (\<lambda>settlements.
       Inr \<lparr>ev_height = height, ev_block_id = block_id, ev_tx_count = b_tx_count block,
            ev_timestamp = b_timestamp block, ev_full_scan_complete = False, ev_started_at = started_at,
            ev_locks = bs_locks s, ev_spends = bs_spends s, ev_settlements = concat settlements,
            ev_activity = bs_activity s, ev_spent_by = bs_spent_by s, ev_output_datums = bs_output_datums s\<rparr>)))"


subsection \<open>Steps that keep what they committed\<close>

type_synonym ('s, 'a) step = "'s \<Rightarrow> 'a res \<times> 's"

definition bind_step :: "('s, 'a) step \<Rightarrow> ('a \<Rightarrow> ('s, 'b) step) \<Rightarrow> ('s, 'b) step" where
  "bind_step m f = (\<lambda>s. case m s of (Inl e, s) \<Rightarrow> (Inl e, s) | (Inr x, s) \<Rightarrow> f x s)"

definition pure_step :: "'a res \<Rightarrow> ('s, 'a) step" where
  "pure_step r = (\<lambda>s. (r, s))"

fun for_step :: "('x \<Rightarrow> ('s, unit) step) \<Rightarrow> 'x list \<Rightarrow> ('s, unit) step" where
  "for_step f [] = pure_step (Inr ())"
| "for_step f (x # xs) = bind_step (f x) (\<lambda>_. for_step f xs)"

lemma bind_step_apply:
  "bind_step m f s = (case m s of (r, s') \<Rightarrow> (case r of Inl e \<Rightarrow> (Inl e, s') | Inr x \<Rightarrow> f x s'))"
  by (auto simp: bind_step_def split: prod.splits sum.splits)

lemma pure_step_apply [simp]: "pure_step r s = (r, s)"
  by (simp add: pure_step_def)

text \<open>The follower's state: the store, and the tip height its watchers see.\<close>

record 'b FollowerState =
  fs_db :: "'b db"
  fs_tip :: u64

text \<open>A write transaction on the store; \<open>fault\<close> is what redb reports for it.\<close>

definition on_db :: "redb_error option \<Rightarrow> ('b db \<Rightarrow> 'b db res) \<Rightarrow> ('b FollowerState, unit) step" where
  "on_db fault body = (\<lambda>s. let (r, d) = write_txn fault body (fs_db s) in (r, s\<lparr>fs_db := d\<rparr>))"

definition send_tip :: "u64 \<Rightarrow> ('b FollowerState, unit) step" where
  "send_tip h = (\<lambda>s. (Inr (), s\<lparr>fs_tip := h\<rparr>))"

text \<open>\<^verbatim>\<open>Follower::new\<close>: the watchers start at the checkpoint's height, or 0.\<close>

definition follower_new :: "'b bincode \<Rightarrow> 'b db \<Rightarrow> 'b FollowerState" where
  "follower_new B d =
     \<lparr>fs_db = d, fs_tip = (case load_meta B d of Inr m \<Rightarrow> m_last_indexed_height m | Inl _ \<Rightarrow> 0)\<rparr>"


subsection \<open>The tick\<close>

text \<open>What redb reports for the reads and the write transactions of one tick.\<close>

record faults =
  ft_load :: "redb_error option"
  ft_peek :: "u64 \<Rightarrow> peeks"
  ft_wipe :: "redb_error option"
  ft_save_reorg :: "redb_error option"
  ft_save_complete :: "redb_error option"
  ft_apply :: "u64 \<Rightarrow> redb_error option"

definition no_faults :: faults where
  "no_faults = \<lparr>ft_load = None, ft_peek = (\<lambda>_ _. None), ft_wipe = None, ft_save_reorg = None, ft_save_complete = None, ft_apply = (\<lambda>_. None)\<rparr>"

lemma no_faults_reads [simp]: "ft_load no_faults = None" "ft_peek no_faults h = (\<lambda>_. None)"
  by (simp_all add: no_faults_def)

text \<open>
  What the node answers during one tick: to the request for its tip, to the reorg check's, to
  the one for the ancestor, and while each block of the walk is processed. The chain may
  change between these.
\<close>

record answers =
  at_tip :: node
  at_check :: node
  at_ancestor :: node
  at_block :: "u64 \<Rightarrow> node"

definition steady :: "node \<Rightarrow> answers" where
  "steady N = \<lparr>at_tip = N, at_check = N, at_ancestor = N, at_block = (\<lambda>_. N)\<rparr>"

lemma steady_simps [simp]:
  "at_tip (steady N) = N" "at_check (steady N) = N" "at_ancestor (steady N) = N" "at_block (steady N) h = N"
  by (simp_all add: steady_def)

definition process_block ::
  "'b bincode \<Rightarrow> 'p exfer \<Rightarrow> hex \<Rightarrow> node \<Rightarrow> peeks \<Rightarrow> redb_error option \<Rightarrow> u64 \<Rightarrow> BlockSummary \<Rightarrow> u64 \<Rightarrow>
   ('b FollowerState, unit) step" where
  "process_block B E H N peek fault height block started_at = (\<lambda>s.
     bind_step (pure_step (block_events B E H N peek height block started_at (fs_db s)))
       (\<lambda>ev. on_db fault (apply_block_events B ev)) s)"

definition find_common_ancestor :: "hex \<Rightarrow> node \<Rightarrow> u64 \<Rightarrow> (u64 \<times> 32 bytes) res" where
  "find_common_ancestor H N from_height =
     (if from_height = 0
      then bind_res (lift (n_get_block_by_height N 0)) (\<lambda>b.
           bind_res (decode_hex32 H (b_block_id b)) (\<lambda>block_id. Inr (0, block_id)))
      else let h = from_height - 1
           in bind_res (lift (n_get_block_by_height N h)) (\<lambda>b.
              bind_res (decode_hex32 H (b_block_id b)) (\<lambda>block_id. Inr (h, block_id))))"

text \<open>On a mismatch the store is wiped above the ancestor, and the checkpoint moves there.\<close>

definition rewind ::
  "'b bincode \<Rightarrow> hex \<Rightarrow> answers \<Rightarrow> faults \<Rightarrow> FollowerMeta \<Rightarrow> ('b FollowerState, FollowerMeta) step" where
  "rewind B H A ft meta =
     bind_step (pure_step (find_common_ancestor H (at_ancestor A) (m_last_indexed_height meta))) (\<lambda>(h, block_id).
     bind_step (on_db (ft_wipe ft) (wipe_above B h)) (\<lambda>_.
       let meta = meta\<lparr>m_last_indexed_height := h, m_last_indexed_block_id := block_id,
                       m_full_scan_complete := False\<rparr>
       in bind_step (on_db (ft_save_reorg ft) (save_meta B meta)) (\<lambda>_.
          pure_step (Inr meta))))"

text \<open>The reorg check: the checkpoint as it is after it.\<close>

definition check_reorg ::
  "'b bincode \<Rightarrow> hex \<Rightarrow> answers \<Rightarrow> faults \<Rightarrow> FollowerMeta \<Rightarrow> ('b FollowerState, FollowerMeta) step" where
  "check_reorg B H A ft meta =
     (if m_last_indexed_height meta > 0
      then bind_step (pure_step (lift (n_get_block_by_height (at_check A) (m_last_indexed_height meta)))) (\<lambda>on_chain.
           bind_step (pure_step (decode_hex32 H (b_block_id on_chain))) (\<lambda>on_chain_id.
             if on_chain_id \<noteq> m_last_indexed_block_id meta then rewind B H A ft meta
             else pure_step (Inr meta)))
      else pure_step (Inr meta))"

definition start_height :: "FollowerMeta \<Rightarrow> u64" where
  "start_height meta =
     (if m_last_indexed_block_id meta = filled 0 \<and> m_last_indexed_height meta = 0 then 0
      else m_last_indexed_height meta + 1)"

text \<open>\<^verbatim>\<open>for h in start..=tip.height\<close>.\<close>

definition heights :: "u64 \<Rightarrow> u64 \<Rightarrow> u64 list" where
  "heights lo hi = map word_of_nat [unat lo..<Suc (unat hi)]"

definition index_block ::
  "'b bincode \<Rightarrow> 'p exfer \<Rightarrow> hex \<Rightarrow> node \<Rightarrow> faults \<Rightarrow> u64 \<Rightarrow> u64 \<Rightarrow> ('b FollowerState, unit) step" where
  "index_block B E H N ft started_at h =
     bind_step (pure_step (lift (n_get_block_by_height N h))) (\<lambda>block.
     bind_step (process_block B E H N (ft_peek ft h) (ft_apply ft h) h block started_at) (\<lambda>_.
       send_tip h))"

text \<open>The forward walk, or the end of the full scan when the checkpoint is at the tip.\<close>

definition walk_forward ::
  "'b bincode \<Rightarrow> 'p exfer \<Rightarrow> hex \<Rightarrow> answers \<Rightarrow> faults \<Rightarrow> TipResponse \<Rightarrow> FollowerMeta \<Rightarrow> ('b FollowerState, unit) step" where
  "walk_forward B E H A ft tip meta =
     (let start = start_height meta
      in if start > tip_height tip
         then bind_step
                (if \<not> m_full_scan_complete meta
                 then on_db (ft_save_complete ft) (save_meta B (meta\<lparr>m_full_scan_complete := True\<rparr>))
                 else pure_step (Inr ())) (\<lambda>_.
              send_tip (tip_height tip))
         else for_step (\<lambda>h. index_block B E H (at_block A h) ft (m_started_at meta) h) (heights start (tip_height tip)))"

definition with_start :: "u64 \<Rightarrow> FollowerMeta \<Rightarrow> FollowerMeta" where
  "with_start unix_now meta = (if m_started_at meta = 0 then meta\<lparr>m_started_at := unix_now\<rparr> else meta)"

definition tick ::
  "'b bincode \<Rightarrow> 'p exfer \<Rightarrow> hex \<Rightarrow> answers \<Rightarrow> faults \<Rightarrow> u64 \<Rightarrow> ('b FollowerState, unit) step" where
  "tick B E H A ft unix_now =
     bind_step (pure_step (lift (n_get_block_height (at_tip A)))) (\<lambda>tip.
     bind_step (\<lambda>s. (read_txn (ft_load ft) (load_meta B (fs_db s)), s)) (\<lambda>meta.
     bind_step (check_reorg B H A ft (with_start unix_now meta)) (\<lambda>meta.
       walk_forward B E H A ft tip meta)))"

text \<open>The loop of \<^verbatim>\<open>run\<close> over a sequence of polls: a failed tick is only logged.\<close>

fun run_polls ::
  "'b bincode \<Rightarrow> 'p exfer \<Rightarrow> hex \<Rightarrow> (answers \<times> faults \<times> u64) list \<Rightarrow> 'b FollowerState \<Rightarrow> 'b FollowerState" where
  "run_polls B E H [] s = s"
| "run_polls B E H ((A, ft, unix_now) # polls) s = run_polls B E H polls (snd (tick B E H A ft unix_now s))"

end
