(* ===== verification/FollowerBlocks.thy ===== *)
theory FollowerBlocks
  imports Follower Migration
begin

section \<open>What the follower writes for one block\<close>

text \<open>
  The events of a block, taken apart: where its activity rows get their counterparties, which
  spent-by entries and settlements it writes, that its datum rows agree with those already
  stored when a transaction id commits to the outputs, and that the events of a block are
  applied whole or not at all.
\<close>

subsection \<open>Collecting distinct addresses\<close>

lemma push_new_props [simp]:
  "set (push_new x xs) = insert x (set xs)" "distinct (push_new x xs) = distinct xs"
  by (auto simp: push_new_def)

lemma fold_push_new: "set (fold push_new ys xs) = set ys \<union> set xs" "distinct (fold push_new ys xs) = distinct xs"
  by (induction ys arbitrary: xs) auto


subsection \<open>The walk over the inputs of a transaction\<close>

text \<open>The addresses noted are those of the input-side rows added so far.\<close>

definition scan_ok :: "32 bytes \<Rightarrow> AddressActivity list \<Rightarrow> InputScan \<Rightarrow> bool" where
  "scan_ok tx_id outs s \<longleftrightarrow>
     (\<exists>ins. in_activity s = outs @ ins \<and> list_all (\<lambda>r. a_is_input r \<and> a_tx_id r = tx_id) ins \<and>
        set (in_addrs s) = a_address ` set ins \<and> distinct (in_addrs s))"

lemma note_sender_ok:
  assumes "scan_ok tx_id outs s"
  shows "scan_ok tx_id outs (note_sender tx_id prevout s)"
proof (cases "\<exists>out. prevout = Some out \<and> length (out_script out) = 32")
  case True
  then obtain out where out: "prevout = Some out" "length (out_script out) = 32" by blast
  obtain ins where "in_activity s = outs @ ins" "list_all (\<lambda>r. a_is_input r \<and> a_tx_id r = tx_id) ins"
    "set (in_addrs s) = a_address ` set ins" "distinct (in_addrs s)"
    using assms by (auto simp: scan_ok_def)
  then show ?thesis
    unfolding scan_ok_def
    by (intro exI [of _ "ins @ [\<lparr>a_address = Bytes (out_script out), a_tx_id = tx_id, a_amount = out_value out,
      a_is_input = True, a_is_coinbase = False, a_counterparties = []\<rparr>]"]) (simp add: note_sender_def out)
next
  case False
  then show ?thesis using assms by (cases prevout) (auto simp: note_sender_def)
qed

lemma scan_inputE:
  assumes "scan_input E H N tx_id height x s = Inr s'"
  obtains cache prevout where "s' = note_sender tx_id prevout
    (s\<lparr>in_spent_by := in_spent_by s @ [spent_entry tx_id height x], in_cache := cache\<rparr>)"
  using assms by (cases x) (auto simp: scan_input_def Let_def bind_res_eq_Inr_iff)

lemma scan_input_ok:
  assumes "scan_input E H N tx_id height x s = Inr s'" "scan_ok tx_id outs s"
  shows "scan_ok tx_id outs s'"
proof -
  obtain cache prevout where s': "s' = note_sender tx_id prevout
    (s\<lparr>in_spent_by := in_spent_by s @ [spent_entry tx_id height x], in_cache := cache\<rparr>)"
    by (rule scan_inputE [OF assms(1)])
  have "scan_ok tx_id outs (s\<lparr>in_spent_by := in_spent_by s @ [spent_entry tx_id height x], in_cache := cache\<rparr>)"
    using assms(2) by (simp add: scan_ok_def)
  then show ?thesis unfolding s' by (rule note_sender_ok)
qed

text \<open>Every input leaves its spent-by entry, whatever is known of the transaction it spends.\<close>

lemma note_sender_spent_by [simp]: "in_spent_by (note_sender tx_id prevout s) = in_spent_by s"
  by (simp add: note_sender_def split: option.splits)

lemma scan_input_spent_by:
  assumes "scan_input E H N tx_id height x s = Inr s'"
  shows "in_spent_by s' = in_spent_by s @ [spent_entry tx_id height x]"
  by (rule scan_inputE [OF assms]) simp

lemma scan_inputs_spent_by:
  "fold_res (scan_input E H N tx_id height) xs s = Inr s' \<Longrightarrow>
     in_spent_by s' = in_spent_by s @ map (spent_entry tx_id height) xs"
  by (induction xs arbitrary: s) (auto simp: bind_res_eq_Inr_iff dest!: scan_input_spent_by)


subsection \<open>One transaction of a block\<close>

lemma extracted_activity_side:
  "a \<in> set (x_activity (extract_from_tx E tx h l)) \<Longrightarrow> \<not> a_is_input a"
  by (cases "tx_id_of E tx")
     (auto simp: extract_from_tx_Some extract_from_tx_None ExtractedTx_default_def extract_activity_def split: if_splits)

lemma scan_txE:
  assumes "scan_tx E H N height tx_hex s = Inr s'"
  obtains status bytes tx i where
    "n_get_transaction N tx_hex = Inr status" "hex_decode H (st_tx_hex status) = Some bytes" "deserialize_tx E bytes = Some tx"
    "fold_res (scan_input E H N (x_tx_id (extract_from_tx E tx height 0)) height)
       (if is_coinbase E tx then [] else enumerate 0 (tx_inputs tx))
       \<lparr>in_spent_by = bs_spent_by s, in_cache = bs_cache s, in_addrs = [], in_activity = x_activity (extract_from_tx E tx height 0)\<rparr> = Inr i"
    "s' = s\<lparr>bs_locks := bs_locks s @ x_locks (extract_from_tx E tx height 0),
            bs_spends := bs_spends s @ x_spends (extract_from_tx E tx height 0),
            bs_output_datums := bs_output_datums s @ x_output_datums (extract_from_tx E tx height 0),
            bs_spent_by := in_spent_by i, bs_cache := in_cache i,
            bs_activity := bs_activity s @ map (attach_counterparties
              (fold push_new (map a_address (x_activity (extract_from_tx E tx height 0))) []) (in_addrs i)) (in_activity i)\<rparr>"
proof -
  from assms obtain status where st: "n_get_transaction N tx_hex = Inr status"
    by (auto simp: scan_tx_def res_simps)
  with assms obtain bytes where by': "hex_decode H (st_tx_hex status) = Some bytes"
    by (auto simp: scan_tx_def bind_res_eq_Inr_iff ok_or_eq_Inr_iff)
  with assms st obtain tx where tx: "deserialize_tx E bytes = Some tx"
    by (auto simp: scan_tx_def bind_res_eq_Inr_iff ok_or_eq_Inr_iff)
  let ?x = "extract_from_tx E tx height 0"
  from assms st by' tx obtain i where i: "fold_res (scan_input E H N (x_tx_id ?x) height)
       (if is_coinbase E tx then [] else enumerate 0 (tx_inputs tx))
       \<lparr>in_spent_by = bs_spent_by s, in_cache = bs_cache s, in_addrs = [], in_activity = x_activity ?x\<rparr> = Inr i"
    by (simp add: scan_tx_def Let_def bind_res_eq_Inr_iff) blast
  show ?thesis
    using assms by (intro that [OF st by' tx i]) (auto simp: scan_tx_def st by' tx i Let_def)
qed

text \<open>Attaching counterparties changes neither the address nor the side of a row.\<close>

lemma attach_counterparties_keeps [simp]:
  "a_address (attach_counterparties outs ins r) = a_address r" "a_is_input (attach_counterparties outs ins r) = a_is_input r"
  by (simp_all add: attach_counterparties_def)

lemma attached_side:
  "{a_address r' | r'. r' \<in> set (map (attach_counterparties outs ins) rs) \<and> a_is_input r' \<noteq> b} =
     a_address ` {r \<in> set rs. a_is_input r \<noteq> b}" (is "?L = ?R")
proof (intro set_eqI iffI)
  fix y assume "y \<in> ?L"
  then obtain r where "r \<in> set rs" "a_is_input r \<noteq> b" "y = a_address r" by auto blast
  then show "y \<in> ?R" by blast
next
  fix y assume "y \<in> ?R"
  then obtain r where r: "r \<in> set rs" "a_is_input r \<noteq> b" "y = a_address r" by blast
  let ?r = "attach_counterparties outs ins r"
  have "?r \<in> set (map (attach_counterparties outs ins) rs)" "a_is_input ?r \<noteq> b" "y = a_address ?r" using r by simp_all
  then show "y \<in> ?L" by blast
qed

text \<open>C26: the counterparties of a transaction's activity rows are exact: a received row lists the distinct
  addresses of the transaction's input-side rows, a spent row those of its output-side rows,
  in both cases without the row's own address and without repetition.\<close>

theorem counterparties_exact:
  assumes "scan_tx E H N height tx_hex s = Inr s'"
  shows "\<exists>rows. bs_activity s' = bs_activity s @ rows \<and>
    list_all (\<lambda>r. distinct (a_counterparties r) \<and>
      set (a_counterparties r) =
        {a_address r' | r'. r' \<in> set rows \<and> a_is_input r' \<noteq> a_is_input r} - {a_address r}) rows"
proof -
  obtain status bytes tx i where tx: "deserialize_tx E bytes = Some tx"
    and i: "fold_res (scan_input E H N (x_tx_id (extract_from_tx E tx height 0)) height)
       (if is_coinbase E tx then [] else enumerate 0 (tx_inputs tx))
       \<lparr>in_spent_by = bs_spent_by s, in_cache = bs_cache s, in_addrs = [], in_activity = x_activity (extract_from_tx E tx height 0)\<rparr> = Inr i"
    and s': "bs_activity s' = bs_activity s @ map (attach_counterparties
             (fold push_new (map a_address (x_activity (extract_from_tx E tx height 0))) []) (in_addrs i)) (in_activity i)"
    by (rule scan_txE [OF assms]) simp
  let ?outs = "x_activity (extract_from_tx E tx height 0)"
  have "scan_ok (x_tx_id (extract_from_tx E tx height 0)) ?outs i"
    by (rule fold_res_invariant [OF i]) (simp add: scan_ok_def, rule scan_input_ok)
  then obtain ins where ins: "in_activity i = ?outs @ ins" "list_all a_is_input ins"
    "set (in_addrs i) = a_address ` set ins" "distinct (in_addrs i)"
    by (auto simp: scan_ok_def list_all_iff)
  define out_addrs where "out_addrs = fold push_new (map a_address ?outs) []"
  have out_addrs: "set out_addrs = a_address ` set ?outs" "distinct out_addrs"
    by (simp_all add: out_addrs_def fold_push_new)
  have side: "a_is_input r \<longleftrightarrow> r \<in> set ins" "\<not> a_is_input r \<longleftrightarrow> r \<in> set ?outs" if "r \<in> set (in_activity i)" for r
    using that ins(1,2) extracted_activity_side [of _ E tx height 0] by (auto simp: list_all_iff)
  let ?rows = "map (attach_counterparties out_addrs (in_addrs i)) (in_activity i)"
  have others: "{a_address r' | r'. r' \<in> set ?rows \<and> a_is_input r' \<noteq> b} = (if b then set out_addrs else set (in_addrs i))" for b
  proof -
    have "{r \<in> set (in_activity i). a_is_input r \<noteq> b} = (if b then set ?outs else set ins)"
      using side ins(1) by auto
    then show ?thesis unfolding attached_side by (simp add: out_addrs(1) ins(3))
  qed
  have "list_all (\<lambda>r. distinct (a_counterparties r) \<and>
      set (a_counterparties r) =
        {a_address r' | r'. r' \<in> set ?rows \<and> a_is_input r' \<noteq> a_is_input r} - {a_address r}) ?rows"
    unfolding others using out_addrs(2) ins(4) by (auto simp: list_all_iff attach_counterparties_def)
  then show ?thesis
    using s' unfolding out_addrs_def [symmetric] by blast
qed

subsection \<open>Datum rows that a transaction id determines\<close>

text \<open>
  What the store relies on of the transaction crate: an id commits to the outputs (it is a
  hash of the transaction), and a transaction has at most 2^32 of them.
\<close>

definition exfer_ok :: "'p exfer \<Rightarrow> bool" where
  "exfer_ok E \<longleftrightarrow> (\<forall>tx tx' t. tx_id_of E tx = Some t \<longrightarrow> tx_id_of E tx' = Some t \<longrightarrow>
     tx_outputs tx = tx_outputs tx' \<and> length (tx_outputs tx) \<le> 2 ^ 32)"

text \<open>The datum signals of transactions, and a store that holds no others.\<close>

definition datum_signal :: "'p exfer \<Rightarrow> 32 bytes \<Rightarrow> u32 \<Rightarrow> 16 bytes option \<Rightarrow> bool" where
  "datum_signal E t i q \<longleftrightarrow>
     (\<exists>tx h od. od \<in> set (x_output_datums (extract_from_tx E tx h 0)) \<and>
        od_tx_id od = t \<and> od_output_index od = i \<and> od_quote_id od = q)"

definition datums_known :: "'p exfer \<Rightarrow> StoreView \<Rightarrow> bool" where
  "datums_known E A \<longleftrightarrow> (\<forall>t i r. av_datums A (t, i) = Some r \<longrightarrow> datum_signal E t i (dr_quote_id r))"

lemma datum_signal_source:
  assumes "od \<in> set (x_output_datums (extract_from_tx E tx h l))"
  obtains t v where "tx_id_of E tx = Some t" "v < length (tx_outputs tx)" "od_tx_id od = t"
    "od_output_index od = word_of_nat v" "extract_datum t v (tx_outputs tx ! v) = [od]"
proof (cases "tx_id_of E tx")
  case None
  with assms show ?thesis by (simp add: extract_from_tx_None ExtractedTx_default_def)
next
  case (Some t)
  with assms obtain v where v: "v < length (tx_outputs tx)" "od \<in> set (extract_datum t v (tx_outputs tx ! v))"
    by (auto simp: extract_from_tx_Some in_concat_enumerate_iff simp del: set_concat)
  then have "od_tx_id od = t" "od_output_index od = word_of_nat v"
    by (simp_all add: in_extract_datum_iff)
  moreover from v(2) have "extract_datum t v (tx_outputs tx ! v) = [od]"
  proof -
    have "extract_datum t v out = [] \<or> (\<exists>x. extract_datum t v out = [x])" for out
      by (auto simp: extract_datum_def split: option.splits)
    with v(2) show ?thesis by (metis empty_iff empty_set list.set_intros(1) set_ConsD)
  qed
  ultimately show ?thesis using that Some v(1) by blast
qed

lemma word_of_nat_u32_eq:
  assumes "v < n" "v' < n" "n \<le> 2 ^ 32" "(word_of_nat v :: u32) = word_of_nat v'"
  shows "v = v'"
proof -
  have "unat (word_of_nat v :: u32) = v" "unat (word_of_nat v' :: u32) = v'"
    using assms(1-3) by (simp_all add: unat_of_nat)
  with assms(4) show ?thesis by metis
qed

lemma datum_signal_unique:
  assumes "exfer_ok E" "datum_signal E t i q" "datum_signal E t i q'"
  shows "q = q'"
proof -
  from assms(2) obtain tx h od where od: "od \<in> set (x_output_datums (extract_from_tx E tx h 0))"
    "od_tx_id od = t" "od_output_index od = i" "od_quote_id od = q" by (auto simp: datum_signal_def)
  from assms(3) obtain tx' h' od' where od': "od' \<in> set (x_output_datums (extract_from_tx E tx' h' 0))"
    "od_tx_id od' = t" "od_output_index od' = i" "od_quote_id od' = q'" by (auto simp: datum_signal_def)
  obtain v where v: "tx_id_of E tx = Some t" "v < length (tx_outputs tx)" "word_of_nat v = i"
    "extract_datum t v (tx_outputs tx ! v) = [od]"
    by (rule datum_signal_source [OF od(1)]) (use od(2,3) in auto)
  obtain v' where v': "tx_id_of E tx' = Some t" "v' < length (tx_outputs tx')" "word_of_nat v' = i"
    "extract_datum t v' (tx_outputs tx' ! v') = [od']"
    by (rule datum_signal_source [OF od'(1)]) (use od'(2,3) in auto)
  have outs: "tx_outputs tx = tx_outputs tx'" "length (tx_outputs tx) \<le> 2 ^ 32"
    using assms(1) v(1) v'(1) unfolding exfer_ok_def by blast+
  have "v = v'"
    using word_of_nat_u32_eq [of v "length (tx_outputs tx)" v'] v(2,3) v'(2,3) outs by simp
  then show ?thesis using v(4) v'(4) outs(1) od(4) od'(4) by simp
qed

lemma known_consistent:
  assumes "exfer_ok E" "datums_known E A"
    and "list_all (\<lambda>od. datum_signal E (od_tx_id od) (od_output_index od) (od_quote_id od)) ods"
  shows "datums_consistent ods A"
proof -
  have uniq: "od_quote_id od' = od_quote_id od"
    if "od \<in> set ods" "od' \<in> set ods" "od_tx_id od' = od_tx_id od" "od_output_index od' = od_output_index od" for od od'
    using assms(3) that datum_signal_unique [OF assms(1)] by (metis list_all_iff)
  have "datum_agrees od A" if "od \<in> set ods" for od
  proof (cases "av_datums A (od_tx_id od, od_output_index od)")
    case (Some r)
    then have "datum_signal E (od_tx_id od) (od_output_index od) (dr_quote_id r)"
      using assms(2) by (simp add: datums_known_def)
    moreover have "datum_signal E (od_tx_id od) (od_output_index od) (od_quote_id od)"
      using assms(3) that by (simp add: list_all_iff)
    ultimately show ?thesis
      using datum_signal_unique [OF assms(1)] by (simp add: datum_agrees_def Some)
  qed (simp add: datum_agrees_def)
  then show ?thesis
    unfolding datums_consistent_def list_all_iff using uniq by blast
qed

lemma datums_known_apply:
  assumes "datums_known E A"
    and "list_all (\<lambda>od. datum_signal E (od_tx_id od) (od_output_index od) (od_quote_id od)) (ev_output_datums ev)"
  shows "datums_known E (spec_apply ev A)"
proof -
  have "datums_known E A \<Longrightarrow> datums_known E (spec_datum h od A)"
    if "datum_signal E (od_tx_id od) (od_output_index od) (od_quote_id od)" for h od A
    using that by (auto simp: datums_known_def spec_datum_def)
  then have "datums_known E A \<Longrightarrow> datums_known E (fold (spec_datum h) ods A)"
    if "list_all (\<lambda>od. datum_signal E (od_tx_id od) (od_output_index od) (od_quote_id od)) ods" for h ods
    using that by (induction ods arbitrary: A) auto
  moreover have "av_datums (spec_apply ev A) = av_datums (fold (spec_datum (ev_height ev)) (ev_output_datums ev) A)"
    by (simp add: spec_apply_eq fold_spec_datum)
  ultimately show ?thesis using assms by (simp add: datums_known_def)
qed

lemma datums_known_wipe: "datums_known E A \<Longrightarrow> datums_known E (spec_wipe keep A)"
  by (simp add: datums_known_def spec_wipe_def dropped_eq_Some_iff)

lemma datums_known_meta: "datums_known E (A\<lparr>av_meta := m\<rparr>) = datums_known E A"
  by (simp add: datums_known_def)

lemma scan_block_datums:
  assumes "fold_res (scan_tx E H N height) txs empty_scan = Inr s"
  shows "list_all (\<lambda>od. datum_signal E (od_tx_id od) (od_output_index od) (od_quote_id od)) (bs_output_datums s)"
proof (rule fold_res_invariant [OF assms])
  fix x s s'
  assume ok: "list_all (\<lambda>od. datum_signal E (od_tx_id od) (od_output_index od) (od_quote_id od)) (bs_output_datums s)"
    and step: "scan_tx E H N height x s = Inr s'"
  obtain tx where "bs_output_datums s' = bs_output_datums s @ x_output_datums (extract_from_tx E tx height 0)"
    by (rule scan_txE [OF step]) simp
  with ok show "list_all (\<lambda>od. datum_signal E (od_tx_id od) (od_output_index od) (od_quote_id od)) (bs_output_datums s')"
    by (auto simp: list_all_iff datum_signal_def)
qed (simp add: empty_scan_def)

subsection \<open>The events of a block\<close>

lemma block_eventsE:
  assumes "block_events B E H N peek height block started_at d = Inr ev"
  obtains s ss where "decode_hex32 H (b_block_id block) = Inr (ev_block_id ev)"
    "fold_res (scan_tx E H N height) (b_transactions block) empty_scan = Inr s"
    "map_res (spend_settlements B E peek d height) (bs_spends s) = Inr ss"
    "ev_height ev = height" "ev_spends ev = bs_spends s" "ev_settlements ev = concat ss"
    "ev_output_datums ev = bs_output_datums s" "ev_full_scan_complete ev = False" "ev_started_at ev = started_at"
    "ev_locks ev = bs_locks s" "ev_activity ev = bs_activity s" "ev_spent_by ev = bs_spent_by s"
  using assms by (auto simp: block_events_def bind_res_eq_Inr_iff)

text \<open>The settlements of one spend, on the abstract rows.\<close>

definition settlements_for :: "'p exfer \<Rightarrow> StoreView \<Rightarrow> u64 \<Rightarrow> ExtractedHtlcSpend \<Rightarrow> SettlementRecord list" where
  "settlements_for E A height spend =
     (case av_htlcs A (sp_lock_tx_id spend, sp_output_index spend) of
        Some r \<Rightarrow> settlements_for_settled_htlc E
          (r\<lparr>state := (case sp_arm spend of Claim _ _ _ \<Rightarrow> Claimed | Reclaim _ _ \<Rightarrow> Reclaimed)\<rparr>) height
      | None \<Rightarrow> [])"

text \<open>What the follower sees of them: nothing when the read for the spend fails.\<close>

definition seen_settlements ::
  "'p exfer \<Rightarrow> peeks \<Rightarrow> StoreView \<Rightarrow> u64 \<Rightarrow> ExtractedHtlcSpend \<Rightarrow> SettlementRecord list" where
  "seen_settlements E peek A height spend = (if peek spend = None then settlements_for E A height spend else [])"

lemma seen_settlements_no_fault [simp]: "seen_settlements E (\<lambda>_. None) A height = settlements_for E A height"
  by (simp add: fun_eq_iff seen_settlements_def)

lemma peek_view:
  assumes "db_ok B d"
  shows "spend_settlements B E peek d height spend = Inr (seen_settlements E peek (view B d) height spend)"
proof (cases "peek spend")
  case (Some e)
  then show ?thesis by (simp add: spend_settlements_def peek_htlc_def seen_settlements_def)
next
  case ok: None
  let ?x = "(sp_lock_tx_id spend, sp_output_index spend)"
  have enc: "encoded (cd_htlc B) (HTLC_FULL d)"
    using assms by (simp add: view_simps htlcs_ok_def stored_def)
  have get: "get_rec (cd_htlc B) ''decode peek htlc'' (HTLC_FULL d) (htlc_primary_key (sp_lock_tx_id spend) (sp_output_index spend)) =
      Inr (av_htlcs (view B d) ?x)"
    by (rule db_ok_get_htlc [OF assms])
  show ?thesis
  proof (cases "t_get (HTLC_FULL d) (htlc_primary_key (sp_lock_tx_id spend) (sp_output_index spend))")
    case None
    with get ok show ?thesis
      by (simp add: spend_settlements_def seen_settlements_def settlements_for_def peek_htlc_def get_rec_encoded [OF enc] t_recs_def)
  next
    case (Some blob)
    with encodedD [OF enc] obtain r where "de (cd_htlc B) blob = Some r" by blast
    moreover from this Some get have "av_htlcs (view B d) ?x = Some r"
      by (simp add: get_rec_encoded [OF enc] t_recs_def)
    ultimately show ?thesis
      using Some ok by (simp add: spend_settlements_def seen_settlements_def settlements_for_def peek_htlc_def)
  qed
qed

lemma block_events_settlements:
  assumes "db_ok B d" "block_events B E H N peek height block started_at d = Inr ev"
  shows "ev_settlements ev = concat (map (seen_settlements E peek (view B d) height) (ev_spends ev))" "ev_height ev = height"
proof -
  obtain s :: BlockScan and ss where s: "map_res (spend_settlements B E peek d height) (bs_spends s) = Inr ss"
    "ev_spends ev = bs_spends s" "ev_settlements ev = concat ss" "ev_height ev = height"
    by (rule block_eventsE [OF assms(2)])
  have "map_res (spend_settlements B E peek d height) (bs_spends s) = Inr (map (seen_settlements E peek (view B d) height) (bs_spends s))"
    by (rule map_res_total) (rule peek_view [OF assms(1)])
  with s show "ev_settlements ev = concat (map (seen_settlements E peek (view B d) height) (ev_spends ev))" "ev_height ev = height"
    by simp_all
qed

text \<open>Membership in the pair of records of a settled HTLC.\<close>

lemma settlement_pair_iff:
  "s \<in> set [\<lparr>s_tx_id = t, s_block_height = h, s_contract_hash = c, s_outcome = out, s_observer_address = a,
           s_counterparty = b, s_amount = m, s_lock_tx_id = l, s_lock_output_index = i\<rparr>,
          \<lparr>s_tx_id = t, s_block_height = h, s_contract_hash = c, s_outcome = out, s_observer_address = b,
           s_counterparty = a, s_amount = m, s_lock_tx_id = l, s_lock_output_index = i\<rparr>] \<longleftrightarrow>
     s_block_height s = h \<and> s_amount s = m \<and> s_outcome s = out \<and> s_lock_tx_id s = l \<and> s_lock_output_index s = i \<and>
     s_contract_hash s = c \<and> (s_observer_address s, s_counterparty s) \<in> {(a, b), (b, a)} \<and> s_tx_id s = t"
  by (cases s) auto

text \<open>C10: the settlements of a block are made from the HTLCs the store held before the block: each spend of
  one of those gives the two records of its sender and its receiver, with the outcome of the
  spend's arm and the block's height; a spend of an HTLC that is not there, one locked in the
  same block included, gives none, and neither does one whose read fails. For an HTLC not
  settled before, the record's transaction is the one that locked the HTLC, not the one that settled it.\<close>

theorem block_settlements_exact:
  assumes "db_ok B d" "block_events B E H N peek height block started_at d = Inr ev"
  shows "s \<in> set (ev_settlements ev) \<longleftrightarrow>
    (\<exists>sp r. sp \<in> set (ev_spends ev) \<and> peek sp = None \<and> av_htlcs (view B d) (sp_lock_tx_id sp, sp_output_index sp) = Some r \<and>
      s_block_height s = height \<and> s_amount s = amount r \<and>
      s_outcome s = (case sp_arm sp of Claim _ _ _ \<Rightarrow> Claimed | Reclaim _ _ \<Rightarrow> Reclaimed) \<and>
      s_lock_tx_id s = sp_lock_tx_id sp \<and> s_lock_output_index s = sp_output_index sp \<and>
      s_contract_hash s = structural_merkle_hash E
        (build_htlc E (sender (params r)) (receiver (params r)) (hash_lock (params r)) (timeout_height (params r))) \<and>
      (s_observer_address s, s_counterparty s) \<in>
        {(pubkey_hash_from_key E (sender (params r)), pubkey_hash_from_key E (receiver (params r))),
         (pubkey_hash_from_key E (receiver (params r)), pubkey_hash_from_key E (sender (params r)))} \<and>
      s_tx_id s = (case claim r of
          Some c \<Rightarrow> c_tx_id c
        | None \<Rightarrow> (case reclaim r of Some rc \<Rightarrow> r_tx_id rc | None \<Rightarrow> sp_lock_tx_id sp)))"
proof -
  let ?Q = "\<lambda>sp r. s_block_height s = height \<and> s_amount s = amount r \<and>
      s_outcome s = (case sp_arm sp of Claim _ _ _ \<Rightarrow> Claimed | Reclaim _ _ \<Rightarrow> Reclaimed) \<and>
      s_lock_tx_id s = sp_lock_tx_id sp \<and> s_lock_output_index s = sp_output_index sp \<and>
      s_contract_hash s = structural_merkle_hash E
        (build_htlc E (sender (params r)) (receiver (params r)) (hash_lock (params r)) (timeout_height (params r))) \<and>
      (s_observer_address s, s_counterparty s) \<in>
        {(pubkey_hash_from_key E (sender (params r)), pubkey_hash_from_key E (receiver (params r))),
         (pubkey_hash_from_key E (receiver (params r)), pubkey_hash_from_key E (sender (params r)))} \<and>
      s_tx_id s = (case claim r of
          Some c \<Rightarrow> c_tx_id c
        | None \<Rightarrow> (case reclaim r of Some rc \<Rightarrow> r_tx_id rc | None \<Rightarrow> sp_lock_tx_id sp))"
  have pair: "s \<in> set (settlements_for_settled_htlc E
      (r\<lparr>state := (case sp_arm sp of Claim _ _ _ \<Rightarrow> Claimed | Reclaim _ _ \<Rightarrow> Reclaimed)\<rparr>) height) \<longleftrightarrow> ?Q sp r"
    if r: "av_htlcs (view B d) (sp_lock_tx_id sp, sp_output_index sp) = Some r" for sp r
  proof -
    have key: "lock_tx_id r = sp_lock_tx_id sp" "output_index r = sp_output_index sp"
      using db_ok_htlc_at [OF assms(1) r] by simp_all
    have tx: "(case settled_tx_id (r\<lparr>state := st\<rparr>) of Some t \<Rightarrow> t | None \<Rightarrow> lock_tx_id (r\<lparr>state := st\<rparr>)) =
        (case claim r of Some c \<Rightarrow> c_tx_id c
         | None \<Rightarrow> (case reclaim r of Some rc \<Rightarrow> r_tx_id rc | None \<Rightarrow> sp_lock_tx_id sp))" for st
      by (simp add: settled_tx_id_def key split: option.splits)
    show ?thesis
      unfolding settlements_for_settled_htlc_def derive_address_from_pubkey_def Let_def tx settlement_pair_iff
      by (simp add: key)
  qed
  have mem: "s \<in> set (if p then xs else []) \<longleftrightarrow> p \<and> s \<in> set xs" for p xs by simp
  have found: "(\<exists>r'. p \<and> Some r = Some r' \<and> Q r') \<longleftrightarrow> p \<and> Q r" for p r and Q :: "HtlcRecord \<Rightarrow> bool" by blast
  have each: "s \<in> set (seen_settlements E peek (view B d) height sp) \<longleftrightarrow>
     (\<exists>r. peek sp = None \<and> av_htlcs (view B d) (sp_lock_tx_id sp, sp_output_index sp) = Some r \<and> ?Q sp r)" for sp
  proof (cases "av_htlcs (view B d) (sp_lock_tx_id sp, sp_output_index sp)")
    case (Some r)
    have "s \<in> set (settlements_for E (view B d) height sp) \<longleftrightarrow> ?Q sp r"
      unfolding settlements_for_def Some option.case pair [OF Some] ..
    then show ?thesis unfolding seen_settlements_def mem Some found by (rule arg_cong)
  qed (simp add: seen_settlements_def settlements_for_def)
  have "s \<in> set (concat (map f xs)) \<longleftrightarrow> (\<exists>x. x \<in> set xs \<and> s \<in> set (f x))" for f :: "ExtractedHtlcSpend \<Rightarrow> _" and xs
    by auto
  then show ?thesis
    unfolding block_events_settlements(1) [OF assms] by (simp only: each ex_simps)
qed

end
