(* ===== verification/FollowerTick.thy ===== *)
theory FollowerTick
  imports FollowerBlocks
begin

section \<open>The tick as a sequence of commits\<close>

text \<open>
  Whatever a tick does to the store, in every outcome, is a sequence of atomic commits: a
  block's events, a wipe, or a checkpoint. The relation \<open>commit\<close> is that step;
  invariants of the follower are proved for it by rule induction and lifted to ticks and to
  the polling loop. The second part shows that a tick against a node that serves its chain
  ends at the tip.
\<close>

subsection \<open>The step relation\<close>

inductive commit ::
  "'b bincode \<Rightarrow> 'p exfer \<Rightarrow> hex \<Rightarrow> bool \<Rightarrow> u64 set \<Rightarrow> 'b db \<Rightarrow> 'b db \<Rightarrow> bool"
  for B E H G W where
  Index: "G \<Longrightarrow> block_events B E H N peek h block started_at d = Inr ev \<Longrightarrow> apply_block_events B ev d = Inr d' \<Longrightarrow>
    commit B E H G W d d'"
| Wipe: "keep \<in> W \<Longrightarrow> wipe_above B keep d = Inr d' \<Longrightarrow> commit B E H G W d d'"
| Save: "save_meta B m d = Inr d' \<Longrightarrow> commit B E H G W d d'"

inductive_cases commitE: "commit B E H G W d d'"

abbreviation commits where
  "commits B E H G W \<equiv> (commit B E H G W)\<^sup>*\<^sup>*"

text \<open>A follower step that only commits, whatever it returns; \<open>W\<close> holds the bounds it may wipe
  above, and \<open>G\<close> says whether it may index blocks.\<close>

definition only_commits :: "'b bincode \<Rightarrow> 'p exfer \<Rightarrow> hex \<Rightarrow> bool \<Rightarrow> u64 set \<Rightarrow> ('b FollowerState, 'a) step \<Rightarrow> bool" where
  "only_commits B E H G W m \<longleftrightarrow> (\<forall>s. commits B E H G W (fs_db s) (fs_db (snd (m s))))"

named_theorems commit_intros \<open>steps that only commit\<close>

lemma only_commits_pure [commit_intros]: "only_commits B E H G W (pure_step r)"
  by (simp add: only_commits_def)

lemma only_commits_send [commit_intros]: "only_commits B E H G W (send_tip h)"
  by (simp add: only_commits_def send_tip_def)

lemma only_commits_bind [commit_intros]:
  assumes "only_commits B E H G W m" "\<And>x. only_commits B E H G W (f x)"
  shows "only_commits B E H G W (bind_step m f)"
  unfolding only_commits_def
proof
  fix s
  obtain r s1 where m: "m s = (r, s1)" by force
  have first: "commits B E H G W (fs_db s) (fs_db s1)" using assms(1) m by (auto simp: only_commits_def dest: spec [of _ s])
  show "commits B E H G W (fs_db s) (fs_db (snd (bind_step m f s)))"
  proof (cases r)
    case (Inl e)
    then show ?thesis using first m by (simp add: bind_step_def)
  next
    case (Inr x)
    have "commits B E H G W (fs_db s1) (fs_db (snd (f x s1)))" using assms(2) by (simp add: only_commits_def)
    with first show ?thesis using m Inr by (simp add: bind_step_def)
  qed
qed

lemma only_commits_for [commit_intros]:
  "(\<And>x. only_commits B E H G W (f x)) \<Longrightarrow> only_commits B E H G W (for_step f xs)"
  by (induction xs) (auto intro: commit_intros)

lemma only_commits_on_db:
  assumes "\<And>d d'. body d = Inr d' \<Longrightarrow> commit B E H G W d d'"
  shows "only_commits B E H G W (on_db fault body)"
  unfolding only_commits_def on_db_def write_txn_def
  using assms by (auto split: option.splits sum.splits)

lemma only_commits_process_block [commit_intros]:
  "only_commits B E H True W (process_block B E H N peek fault h block started_at)"
  unfolding only_commits_def process_block_def bind_step_def on_db_def write_txn_def
  by (auto split: option.splits sum.splits intro: commit.Index)

lemma only_commits_wipe: "keep \<in> W \<Longrightarrow> only_commits B E H G W (on_db fault (wipe_above B keep))"
  by (rule only_commits_on_db) (rule commit.Wipe)

lemma only_commits_save [commit_intros]: "only_commits B E H G W (on_db fault (save_meta B m))"
  by (rule only_commits_on_db) (rule commit.Save)

text \<open>A reorg check wipes no lower than one block below the checkpoint.\<close>

lemma find_common_ancestor_height:
  "find_common_ancestor H N h = Inr (a, i) \<Longrightarrow> 0 < h \<Longrightarrow> a = h - 1"
  by (auto simp: find_common_ancestor_def Let_def bind_res_eq_Inr_iff split: if_splits)

lemma only_commits_rewind:
  assumes "0 < m_last_indexed_height meta"
  shows "only_commits B E H G {m_last_indexed_height meta - 1} (rewind B H A ft meta)"
proof (cases "find_common_ancestor H (at_ancestor A) (m_last_indexed_height meta)")
  case (Inl e)
  then show ?thesis by (simp add: rewind_def only_commits_def bind_step_def pure_step_def)
next
  case (Inr a)
  obtain h i where a: "a = (h, i)" by force
  then have h: "h = m_last_indexed_height meta - 1" using find_common_ancestor_height Inr assms by blast
  have "rewind B H A ft meta = bind_step (on_db (ft_wipe ft) (wipe_above B h)) (\<lambda>_.
      let meta = meta\<lparr>m_last_indexed_height := h, m_last_indexed_block_id := i, m_full_scan_complete := False\<rparr>
      in bind_step (on_db (ft_save_reorg ft) (save_meta B meta)) (\<lambda>_. pure_step (Inr meta)))"
    using Inr a by (simp add: rewind_def bind_step_def [of "pure_step _"] fun_eq_iff)
  then show ?thesis
    by (auto simp: h Let_def intro!: commit_intros only_commits_wipe)
qed

lemma only_commits_check_reorg:
  "only_commits B E H G {m_last_indexed_height meta - 1} (check_reorg B H A ft meta)"
  unfolding check_reorg_def by (auto intro!: commit_intros intro: only_commits_rewind)

lemma only_commits_walk: "only_commits B E H True W (walk_forward B E H A ft tip meta)"
  unfolding walk_forward_def index_block_def Let_def by (auto intro!: commit_intros)

lemma with_start_simps [simp]:
  "m_last_indexed_height (with_start now m) = m_last_indexed_height m"
  "m_last_indexed_block_id (with_start now m) = m_last_indexed_block_id m"
  by (simp_all add: with_start_def)

text \<open>A whole tick, for the checkpoint it started from: the reorg check, then the walk.\<close>

lemma tick_commits:
  assumes "load_meta B (fs_db s) = Inr m"
  obtains d where "commits B E H False {m_last_indexed_height m - 1} (fs_db s) d"
    "commits B E H True {} d (fs_db (snd (tick B E H A ft now s)))"
proof (cases "n_get_block_height (at_tip A)")
  case (Inl e)
  then show ?thesis by (intro that [of "fs_db s"]) (simp_all add: tick_def bind_step_def pure_step_def)
next
  case (Inr tip)
  show ?thesis
  proof (cases "ft_load ft")
    case (Some e)
    then show ?thesis by (intro that [of "fs_db s"]) (simp_all add: tick_def bind_step_apply Inr)
  next
    case None
  obtain r s1 where check: "check_reorg B H A ft (with_start now m) s = (r, s1)" by force
  have first: "commits B E H False {m_last_indexed_height m - 1} (fs_db s) (fs_db s1)"
    using only_commits_check_reorg [of B E H False "with_start now m" A ft] check
    by (auto simp: only_commits_def dest: spec [of _ s])
  have start: "tick B E H A ft now s =
      (case r of Inl e \<Rightarrow> (Inl e, s1) | Inr meta \<Rightarrow> walk_forward B E H A ft tip meta s1)"
    by (simp add: tick_def bind_step_apply Inr assms check None)
  show ?thesis
  proof (cases r)
    case (Inl e)
    then show ?thesis using first start by (intro that [of "fs_db s1"]) simp_all
  next
    case (Inr meta)
    have "commits B E H True {} (fs_db s1) (fs_db (snd (walk_forward B E H A ft tip meta s1)))"
      using only_commits_walk [of B E H "{}" A ft tip meta] by (simp add: only_commits_def)
    then show ?thesis using first start Inr by (intro that [of "fs_db s1"]) simp_all
  qed
  qed
qed


subsection \<open>The invariant of the store\<close>

definition store_ok :: "'b bincode \<Rightarrow> 'p exfer \<Rightarrow> 'b db \<Rightarrow> bool" where
  "store_ok B E d \<longleftrightarrow> db_ok B d \<and> datums_known E (view B d)"

lemma store_ok_empty [simp]: "store_ok B E open_all_tables"
  by (simp add: store_ok_def datums_known_def)

text \<open>What applying the events of a block does to a store that satisfies the invariant.\<close>

lemma index_view:
  assumes "bincode_ok B" "exfer_ok E" "store_ok B E d" "block_events B E H N peek h block started_at d = Inr ev"
  obtains d' where "apply_block_events B ev d = Inr d'" "store_ok B E d'" "view B d' = spec_apply ev (view B d)"
proof -
  obtain s :: BlockScan and ss where s: "fold_res (scan_tx E H N h) (b_transactions block) empty_scan = Inr s"
    "ev_output_datums ev = bs_output_datums s"
    by (rule block_eventsE [OF assms(4)])
  then have sig: "list_all (\<lambda>od. datum_signal E (od_tx_id od) (od_output_index od) (od_quote_id od)) (ev_output_datums ev)"
    using scan_block_datums by simp
  have d: "db_ok B d" "datums_known E (view B d)" using assms(3) by (simp_all add: store_ok_def)
  obtain d' where "apply_block_events B ev d = Inr d'" "db_ok B d'" "view B d' = spec_apply ev (view B d)"
    by (rule simE [OF apply_refines [OF assms(1)] d(1) known_consistent [OF assms(2) d(2) sig]])
  with datums_known_apply [OF d(2) sig] that show ?thesis by (simp add: store_ok_def)
qed

lemma wipe_view:
  assumes "store_ok B E d"
  obtains d' where "wipe_above B keep d = Inr d'" "store_ok B E d'" "view B d' = spec_wipe keep (view B d)"
proof -
  have d: "db_ok B d" "datums_known E (view B d)" using assms by (simp_all add: store_ok_def)
  obtain d' where "wipe_above B keep d = Inr d'" "db_ok B d'" "view B d' = spec_wipe keep (view B d)"
    by (rule simE [OF wipe_refines d(1)]) simp
  with datums_known_wipe [OF d(2)] that show ?thesis by (simp add: store_ok_def)
qed

lemma save_view:
  assumes "bincode_ok B" "store_ok B E d"
  obtains d' where "save_meta B m d = Inr d'" "store_ok B E d'" "view B d' = (view B d)\<lparr>av_meta := Some m\<rparr>"
proof -
  have d: "db_ok B d" "datums_known E (view B d)" using assms(2) by (simp_all add: store_ok_def)
  have "\<exists>d'. write_meta B m d = Inr d' \<and> db_ok B d' \<and> view B d' = spec_meta m (view B d)"
    using simE [OF write_meta [OF assms(1)] d(1)] by (metis TrueI)
  then show ?thesis
    using that d(2) by (auto simp: store_ok_def save_meta_def spec_meta_def datums_known_meta)
qed

lemma commit_keeps_store:
  assumes "bincode_ok B" "exfer_ok E" "commit B E H G W d d'" "store_ok B E d"
  shows "store_ok B E d'"
  using assms(3,4)
proof cases
  case (Index N peek h block started_at ev)
  obtain d1 where "apply_block_events B ev d = Inr d1" "store_ok B E d1"
    by (rule index_view [OF assms(1,2,4) Index(2)])
  with Index(3) show ?thesis by simp
next
  case (Wipe keep)
  obtain d1 where "wipe_above B keep d = Inr d1" "store_ok B E d1"
    by (rule wipe_view [OF assms(4)])
  with Wipe(2) show ?thesis by simp
next
  case (Save m)
  obtain d1 where "save_meta B m d = Inr d1" "store_ok B E d1"
    by (rule save_view [OF assms(1,4)])
  with Save show ?thesis by simp
qed

lemma commits_keep_store:
  assumes "bincode_ok B" "exfer_ok E" "commits B E H G W d d'" "store_ok B E d"
  shows "store_ok B E d'"
  using assms(3,4) by (induction rule: rtranclp_induct) (auto intro: commit_keeps_store [OF assms(1,2)])

lemma tick_keeps_store:
  assumes "bincode_ok B" "exfer_ok E" "store_ok B E (fs_db s)"
  shows "store_ok B E (fs_db (snd (tick B E H A ft now s)))"
proof -
  have "db_ok B (fs_db s)" using assms(3) by (simp add: store_ok_def)
  from load_meta_view [OF this] obtain m where m: "load_meta B (fs_db s) = Inr m" by blast
  obtain d where d: "commits B E H False {m_last_indexed_height m - 1} (fs_db s) d"
    "commits B E H True {} d (fs_db (snd (tick B E H A ft now s)))"
    by (rule tick_commits [OF m])
  have "store_ok B E d" by (rule commits_keep_store [OF assms(1,2) d(1) assms(3)])
  from commits_keep_store [OF assms(1,2) d(2) this] show ?thesis .
qed

lemma run_polls_store_ok:
  assumes "bincode_ok B" "exfer_ok E" "store_ok B E (fs_db s)"
  shows "store_ok B E (fs_db (run_polls B E H polls s))"
  using assms(3)
proof (induction polls arbitrary: s)
  case (Cons p polls)
  then show ?case
    using tick_keeps_store [OF assms(1,2)] by (cases p) simp
qed simp

text \<open>C2: the follower never corrupts the store: whatever the node answers in any sequence of polls (errors,
  malformed replies, reorgs between ticks or in the middle of one), and whatever reads and writes redb refuses, the store keeps its invariant:
  every row decodes and stands under its own key, every secondary index is exactly the one
  its rows determine, and every datum row is one some transaction carries. It needs the codec
  to round-trip and a transaction id to commit to the outputs.\<close>

theorem polls_keep_store:
  assumes "bincode_ok B" "exfer_ok E" "store_ok B E (fs_db s)"
  shows "store_ok B E (fs_db (run_polls B E H polls s))"
  by (rule run_polls_store_ok [OF assms])

subsection \<open>A tick ends at the tip\<close>

text \<open>The node serves a block at a height, with every transaction it needs; and the id it reports there.\<close>

definition readable :: "'p exfer \<Rightarrow> hex \<Rightarrow> node \<Rightarrow> u64 \<Rightarrow> bool" where
  "readable E H N h \<longleftrightarrow>
     (\<exists>block i s. n_get_block_by_height N h = Inr block \<and> decode_hex32 H (b_block_id block) = Inr i \<and>
        fold_res (scan_tx E H N h) (b_transactions block) empty_scan = Inr s)"

definition block_id_at :: "hex \<Rightarrow> node \<Rightarrow> u64 \<Rightarrow> 32 bytes res" where
  "block_id_at H N h = bind_res (lift (n_get_block_by_height N h)) (\<lambda>b. decode_hex32 H (b_block_id b))"

lemma readable_block_id: "readable E H N h \<Longrightarrow> \<exists>i. block_id_at H N h = Inr i"
  by (auto simp: readable_def block_id_at_def)

text \<open>The checkpoint names a height and the node's block at it.\<close>

definition checkpoint_at :: "'b bincode \<Rightarrow> hex \<Rightarrow> node \<Rightarrow> u64 \<Rightarrow> 'b db \<Rightarrow> bool" where
  "checkpoint_at B H N h d \<longleftrightarrow> (\<exists>m. load_meta B d = Inr m \<and> m_last_indexed_height m = h \<and>
     (h > 0 \<longrightarrow> block_id_at H N h = Inr (m_last_indexed_block_id m)))"

lemma index_block_ok:
  assumes "bincode_ok B" "exfer_ok E" "store_ok B E (fs_db s)" "readable E H N h" "ft_apply ft h = None"
  obtains s' where "index_block B E H N ft started_at h s = (Inr (), s')" "store_ok B E (fs_db s')"
    "fs_tip s' = h" "checkpoint_at B H N h (fs_db s')"
proof -
  from assms(4) obtain block i sc where r: "n_get_block_by_height N h = Inr block" "decode_hex32 H (b_block_id block) = Inr i"
    "fold_res (scan_tx E H N h) (b_transactions block) empty_scan = Inr sc"
    unfolding readable_def by blast
  have db: "db_ok B (fs_db s)" using assms(3) by (simp add: store_ok_def)
  have "map_res (spend_settlements B E (ft_peek ft h) (fs_db s) h) (bs_spends sc) =
      Inr (map (seen_settlements E (ft_peek ft h) (view B (fs_db s)) h) (bs_spends sc))"
    by (rule map_res_total) (rule peek_view [OF db])
  with r obtain ev where ev: "block_events B E H N (ft_peek ft h) h block started_at (fs_db s) = Inr ev"
    "ev_block_id ev = i" "ev_height ev = h"
    by (simp add: block_events_def)
  obtain d' where d': "apply_block_events B ev (fs_db s) = Inr d'" "store_ok B E d'"
    "view B d' = spec_apply ev (view B (fs_db s))"
    by (rule index_view [OF assms(1-3) ev(1)])
  have "load_meta B d' = Inr (advanced_meta ev)"
    using load_meta_view [of B d'] d'(2,3) by (simp add: store_ok_def spec_apply_eq)
  then have "checkpoint_at B H N h d'"
    using r(1,2) ev(2,3) by (simp add: checkpoint_at_def advanced_meta_def block_id_at_def)
  moreover have "index_block B E H N ft started_at h s = (Inr (), s\<lparr>fs_db := d', fs_tip := h\<rparr>)"
    by (simp add: index_block_def process_block_def bind_step_apply r(1) ev(1) on_db_def write_txn_def assms(5) d'(1) send_tip_def)
  ultimately show ?thesis using that [of "s\<lparr>fs_db := d', fs_tip := h\<rparr>"] d'(2) by simp
qed

lemma index_blocks_ok:
  assumes "bincode_ok B" "exfer_ok E" "store_ok B E (fs_db s)" "hs \<noteq> []"
    and "list_all (\<lambda>h. readable E H (N h) h) hs" "\<forall>h. ft_apply ft h = None"
  shows "\<exists>s'. for_step (\<lambda>h. index_block B E H (N h) ft started_at h) hs s = (Inr (), s') \<and> store_ok B E (fs_db s') \<and>
    fs_tip s' = last hs \<and> checkpoint_at B H (N (last hs)) (last hs) (fs_db s')"
  using assms(3-5)
proof (induction hs arbitrary: s)
  case (Cons h hs)
  have "readable E H (N h) h" "ft_apply ft h = None" using Cons.prems(3) assms(6) by simp_all
  from index_block_ok [OF assms(1,2) Cons.prems(1) this] obtain s1 where
    s1: "index_block B E H (N h) ft started_at h s = (Inr (), s1)" "store_ok B E (fs_db s1)"
    "fs_tip s1 = h" "checkpoint_at B H (N h) h (fs_db s1)"
    by blast
  show ?case
  proof (cases "hs = []")
    case True
    with s1 show ?thesis by (simp add: bind_step_apply)
  next
    case False
    then have "\<exists>s'. for_step (\<lambda>h. index_block B E H (N h) ft started_at h) hs s1 = (Inr (), s') \<and> store_ok B E (fs_db s') \<and>
        fs_tip s' = last hs \<and> checkpoint_at B H (N (last hs)) (last hs) (fs_db s')"
      using Cons.prems(3) s1(2) by (intro Cons.IH) simp_all
    with s1(1) False show ?thesis by (simp add: bind_step_apply)
  qed
qed simp

lemma heights_props:
  assumes "lo \<le> hi"
  shows "heights lo hi \<noteq> []" "last (heights lo hi) = hi" "set (heights lo hi) = {lo..hi}"
proof -
  have le: "unat lo \<le> unat hi" using assms by (simp add: word_le_nat_alt)
  then show "heights lo hi \<noteq> []" "last (heights lo hi) = hi"
    by (simp_all add: heights_def last_map)
  show "set (heights lo hi) = {lo..hi}"
  proof (intro set_eqI iffI)
    fix h assume "h \<in> set (heights lo hi)"
    then obtain n where n: "unat lo \<le> n" "n \<le> unat hi" "h = word_of_nat n" by (auto simp: heights_def simp del: upt_Suc)
    from n(2) have "n < 18446744073709551616" using unat_u64_less [of hi] by (rule order_le_less_trans)
    with n(3) have "unat h = n" by (simp add: unat_of_nat)
    with n show "h \<in> {lo..hi}" by (simp add: word_le_nat_alt)
  next
    fix h assume "h \<in> {lo..hi}"
    then have "unat h \<in> set [unat lo..<Suc (unat hi)]" by (auto simp: word_le_nat_alt)
    then have "word_of_nat (unat h) \<in> set (heights lo hi)" unfolding heights_def set_map by (rule imageI)
    then show "h \<in> set (heights lo hi)" by simp
  qed
qed

text \<open>The reorg check against a node that serves the blocks at the checkpoint and one below.\<close>

lemma check_reorg_ok:
  assumes "bincode_ok B" "store_ok B E (fs_db s)"
    and "0 < m_last_indexed_height meta \<Longrightarrow> block_id_at H N (m_last_indexed_height meta) = Inr i"
    and "0 < m_last_indexed_height meta \<Longrightarrow> block_id_at H N (m_last_indexed_height meta - 1) = Inr j"
  shows "\<exists>s' meta'. check_reorg B H (steady N) no_faults meta s = (Inr meta', s') \<and> store_ok B E (fs_db s') \<and> fs_tip s' = fs_tip s \<and>
    (if 0 < m_last_indexed_height meta \<and> i \<noteq> m_last_indexed_block_id meta
     then meta' = meta\<lparr>m_last_indexed_height := m_last_indexed_height meta - 1, m_last_indexed_block_id := j,
                       m_full_scan_complete := False\<rparr> \<and>
       view B (fs_db s') = (spec_wipe (m_last_indexed_height meta - 1) (view B (fs_db s)))\<lparr>av_meta := Some meta'\<rparr>
     else meta' = meta \<and> s' = s)"
proof (cases "0 < m_last_indexed_height meta \<and> i \<noteq> m_last_indexed_block_id meta")
  case False
  then show ?thesis
    using assms(2,3) by (auto simp: check_reorg_def bind_step_apply block_id_at_def bind_res_eq_Inr_iff lift_eq_Inr_iff)
next
  case True
  let ?h = "m_last_indexed_height meta - 1"
  let ?meta = "meta\<lparr>m_last_indexed_height := ?h, m_last_indexed_block_id := j, m_full_scan_complete := False\<rparr>"
  obtain d1 where d1: "wipe_above B ?h (fs_db s) = Inr d1" "store_ok B E d1" "view B d1 = spec_wipe ?h (view B (fs_db s))"
    by (rule wipe_view [OF assms(2)])
  obtain d2 where d2: "save_meta B ?meta d1 = Inr d2" "store_ok B E d2" "view B d2 = (view B d1)\<lparr>av_meta := Some ?meta\<rparr>"
    by (rule save_view [OF assms(1) d1(2)])
  have anc: "find_common_ancestor H N (m_last_indexed_height meta) = Inr (?h, j)"
    using True assms(4) by (auto simp: find_common_ancestor_def Let_def block_id_at_def bind_res_eq_Inr_iff lift_eq_Inr_iff)
  have "rewind B H (steady N) no_faults meta s = (Inr ?meta, s\<lparr>fs_db := d2\<rparr>)"
    by (simp add: rewind_def bind_step_apply anc on_db_def write_txn_def no_faults_def d1(1) d2(1) Let_def)
  moreover have "check_reorg B H (steady N) no_faults meta s = rewind B H (steady N) no_faults meta s"
    using True assms(3) by (auto simp: check_reorg_def bind_step_apply block_id_at_def bind_res_eq_Inr_iff lift_eq_Inr_iff)
  ultimately show ?thesis
    using True d1(3) d2(2,3) by (intro exI [of _ "s\<lparr>fs_db := d2\<rparr>"] exI [of _ ?meta]) simp
qed

lemma unat_succ_u64:
  fixes a :: u64
  assumes "a \<noteq> - 1"
  shows "unat (a + 1) = Suc (unat a)"
proof -
  have "unat a \<noteq> 18446744073709551615"
  proof
    assume "unat a = 18446744073709551615"
    then have "word_of_nat (unat a) = (word_of_nat 18446744073709551615 :: u64)" by (simp only:)
    with assms show False by simp
  qed
  then have "Suc (unat a) < 18446744073709551616" using unat_u64_less [of a] by linarith
  then show ?thesis by (simp add: unat_word_ariths)
qed

lemma less_succ_u64: "a \<noteq> - 1 \<Longrightarrow> t < a + 1 \<longleftrightarrow> t \<le> a" for a t :: u64
  by (simp add: word_less_nat_alt word_le_nat_alt less_Suc_eq_le unat_succ_u64)

lemma unat_pred_u64:
  fixes h :: u64
  assumes "0 < h"
  shows "unat h = Suc (unat (h - 1))"
proof -
  have "h - 1 \<noteq> - 1" using assms by auto
  from unat_succ_u64 [OF this] show ?thesis by simp
qed

lemma pred_le_u64: "0 < h \<Longrightarrow> h \<le> t \<Longrightarrow> h - 1 \<le> t" for h t :: u64
  by (simp add: word_le_nat_alt unat_pred_u64)

lemma less_le_pred_u64: "a < h \<Longrightarrow> a \<le> h - 1" for a h :: u64
  using unat_pred_u64 [of h] by (simp add: word_le_nat_alt word_less_nat_alt)

text \<open>The walk from a checkpoint at or below the tip.\<close>

lemma walk_forward_ok:
  assumes "bincode_ok B" "exfer_ok E" "store_ok B E (fs_db s)"
    and "list_all (readable E H N) (heights (start_height meta) (tip_height tip))"
    and "m_last_indexed_height meta \<le> tip_height tip" "tip_height tip \<noteq> - 1"
    and "load_meta B (fs_db s) = Inr m" "m_last_indexed_height m = m_last_indexed_height meta"
      "m_last_indexed_block_id m = m_last_indexed_block_id meta"
    and "0 < m_last_indexed_height meta \<Longrightarrow> block_id_at H N (m_last_indexed_height meta) = Inr (m_last_indexed_block_id meta)"
  shows "\<exists>s'. walk_forward B E H (steady N) no_faults tip meta s = (Inr (), s') \<and> store_ok B E (fs_db s') \<and>
    fs_tip s' = tip_height tip \<and> checkpoint_at B H N (tip_height tip) (fs_db s')"
proof (cases "start_height meta > tip_height tip")
  case False
  then have le: "start_height meta \<le> tip_height tip" by simp
  show ?thesis
    using index_blocks_ok [OF assms(1-3) heights_props(1) [OF le], of H "\<lambda>_. N" no_faults "m_started_at meta"] assms(4) False
    by (simp add: walk_forward_def Let_def heights_props(2) [OF le] no_faults_def)
next
  case True
  have top: "m_last_indexed_height meta = tip_height tip"
  proof -
    have "m_last_indexed_height meta \<noteq> - 1" using assms(5,6) by (metis max_word_max order_antisym)
    then have "start_height meta \<le> m_last_indexed_height meta + 1" "tip_height tip < m_last_indexed_height meta + 1"
      using True by (auto simp: start_height_def split: if_splits)
    then have "tip_height tip \<le> m_last_indexed_height meta"
      using \<open>m_last_indexed_height meta \<noteq> - 1\<close> by (simp add: less_succ_u64)
    with assms(5) show ?thesis by simp
  qed
  let ?done = "meta\<lparr>m_full_scan_complete := True\<rparr>"
  show ?thesis
  proof (cases "m_full_scan_complete meta")
    case complete: True
    then have "walk_forward B E H (steady N) no_faults tip meta s = (Inr (), s\<lparr>fs_tip := tip_height tip\<rparr>)"
      using True by (simp add: walk_forward_def Let_def bind_step_apply send_tip_def)
    moreover have "checkpoint_at B H N (tip_height tip) (fs_db s)"
      using assms(7-10) by (simp add: checkpoint_at_def top)
    ultimately show ?thesis using assms(3) by simp
  next
    case incomplete: False
    obtain d' where d': "save_meta B ?done (fs_db s) = Inr d'" "store_ok B E d'"
      "view B d' = (view B (fs_db s))\<lparr>av_meta := Some ?done\<rparr>"
      by (rule save_view [OF assms(1,3)])
    then have "walk_forward B E H (steady N) no_faults tip meta s = (Inr (), s\<lparr>fs_db := d', fs_tip := tip_height tip\<rparr>)"
      using True incomplete
      by (simp add: walk_forward_def Let_def bind_step_apply send_tip_def on_db_def write_txn_def no_faults_def)
    moreover have "load_meta B d' = Inr ?done"
      using load_meta_view [of B d'] d'(2,3) by (simp add: store_ok_def)
    then have "checkpoint_at B H N (tip_height tip) d'"
      using assms(10) by (simp add: checkpoint_at_def top)
    ultimately show ?thesis using d'(2) by simp
  qed
qed

text \<open>The reorg check against such a node ends at a checkpoint that is the node's, not above its tip.\<close>

lemma check_reorg_reaches:
  assumes "bincode_ok B" "store_ok B E (fs_db s)" "\<forall>h. h \<le> hi \<longrightarrow> readable E H N h"
    and "load_meta B (fs_db s) = Inr m" "m_last_indexed_height m \<le> hi"
  obtains meta s1 m1 where "check_reorg B H (steady N) no_faults (with_start now m) s = (Inr meta, s1)"
    "store_ok B E (fs_db s1)" "load_meta B (fs_db s1) = Inr m1" "m_last_indexed_height m1 = m_last_indexed_height meta"
    "m_last_indexed_block_id m1 = m_last_indexed_block_id meta" "m_last_indexed_height meta \<le> hi"
    "0 < m_last_indexed_height meta \<longrightarrow> block_id_at H N (m_last_indexed_height meta) = Inr (m_last_indexed_block_id meta)"
proof -
  let ?meta = "with_start now m"
  have pred: "m_last_indexed_height m - 1 \<le> hi" if "0 < m_last_indexed_height m"
    using that assms(5) by (rule pred_le_u64)
  then obtain i j where ids: "0 < m_last_indexed_height m \<Longrightarrow> block_id_at H N (m_last_indexed_height m) = Inr i"
    "0 < m_last_indexed_height m \<Longrightarrow> block_id_at H N (m_last_indexed_height m - 1) = Inr j"
    using readable_block_id assms(3,5) by metis
  from check_reorg_ok [OF assms(1,2), of ?meta H N i j] ids obtain s1 meta where
    c: "check_reorg B H (steady N) no_faults ?meta s = (Inr meta, s1)" "store_ok B E (fs_db s1)"
    and branch: "if 0 < m_last_indexed_height m \<and> i \<noteq> m_last_indexed_block_id m
     then meta = ?meta\<lparr>m_last_indexed_height := m_last_indexed_height m - 1, m_last_indexed_block_id := j,
                       m_full_scan_complete := False\<rparr> \<and>
       view B (fs_db s1) = (spec_wipe (m_last_indexed_height m - 1) (view B (fs_db s)))\<lparr>av_meta := Some meta\<rparr>
     else meta = ?meta \<and> s1 = s"
    by auto
  show ?thesis
  proof (cases "0 < m_last_indexed_height m \<and> i \<noteq> m_last_indexed_block_id m")
    case True
    with branch have meta: "meta = ?meta\<lparr>m_last_indexed_height := m_last_indexed_height m - 1, m_last_indexed_block_id := j,
        m_full_scan_complete := False\<rparr>" and "av_meta (view B (fs_db s1)) = Some meta" by simp_all
    then have "load_meta B (fs_db s1) = Inr meta"
      using load_meta_view [of B "fs_db s1"] c(2) by (simp add: store_ok_def)
    then show ?thesis
      using True ids(2) pred by (intro that [OF c, of meta]) (simp_all add: meta)
  next
    case False
    with branch have "meta = ?meta" "s1 = s" by presburger+
    then show ?thesis using assms(4,5) ids(1) False by (intro that [OF c, of m]) auto
  qed
qed

text \<open>C6: a tick catches up: against a node that serves every block up to its tip, with all the transactions
  it needs, and with no redb fault, a tick from any valid store whose checkpoint is not above
  the tip succeeds and leaves a valid store whose checkpoint is the node's tip and its block
  id, whatever the checkpoint was before (a mismatch included); the watchers see the tip. At
  height 0 the id is not compared.\<close>

theorem tick_reaches_tip:
  assumes "bincode_ok B" "exfer_ok E" "store_ok B E (fs_db s)"
    and "n_get_block_height N = Inr tip" "tip_height tip \<noteq> - 1"
    and "\<forall>h. h \<le> tip_height tip \<longrightarrow> readable E H N h"
    and "load_meta B (fs_db s) = Inr m" "m_last_indexed_height m \<le> tip_height tip"
  shows "\<exists>s'. tick B E H (steady N) no_faults now s = (Inr (), s') \<and> store_ok B E (fs_db s') \<and>
    fs_tip s' = tip_height tip \<and> checkpoint_at B H N (tip_height tip) (fs_db s')"
proof -
  obtain meta s1 m1 where c: "check_reorg B H (steady N) no_faults (with_start now m) s = (Inr meta, s1)" "store_ok B E (fs_db s1)"
    and m1: "load_meta B (fs_db s1) = Inr m1" "m_last_indexed_height m1 = m_last_indexed_height meta"
    "m_last_indexed_block_id m1 = m_last_indexed_block_id meta" "m_last_indexed_height meta \<le> tip_height tip"
    "0 < m_last_indexed_height meta \<longrightarrow> block_id_at H N (m_last_indexed_height meta) = Inr (m_last_indexed_block_id meta)"
    by (rule check_reorg_reaches [OF assms(1,3,6-8), where now = now])
  have hs: "list_all (readable E H N) (heights (start_height meta) (tip_height tip))"
  proof (cases "start_height meta \<le> tip_height tip")
    case True
    then show ?thesis using assms(6) by (simp add: list_all_iff heights_props(3))
  next
    case False
    then have "heights (start_height meta) (tip_height tip) = []" by (simp add: heights_def word_le_nat_alt)
    then show ?thesis by simp
  qed
  from walk_forward_ok [OF assms(1,2) c(2) hs m1(4) assms(5) m1(1-3) m1(5) [rule_format]] obtain s' where
    "walk_forward B E H (steady N) no_faults tip meta s1 = (Inr (), s')" "store_ok B E (fs_db s')" "fs_tip s' = tip_height tip"
    "checkpoint_at B H N (tip_height tip) (fs_db s')" by auto
  moreover have "tick B E H (steady N) no_faults now s = walk_forward B E H (steady N) no_faults tip meta s1"
    by (simp add: tick_def bind_step_apply assms(4,7) c(1))
  ultimately show ?thesis by simp
qed

text \<open>C15: a reorg is undone one block deep only: a tick never removes an HTLC locked below the height of the
  checkpoint it started from, even if the node's chain has other blocks at those heights. So
  after a reorganisation of two blocks or more the HTLCs of the older orphaned blocks stay in
  the index, whatever the tick returns.\<close>

theorem tick_rewinds_one_block:
  assumes "bincode_ok B" "exfer_ok E" "store_ok B E (fs_db s)"
    and "load_meta B (fs_db s) = Inr m" "av_htlcs (view B (fs_db s)) x = Some r"
    and "lock_height_or_max r < m_last_indexed_height m"
  shows "av_htlcs (view B (fs_db (snd (tick B E H A ft now s)))) x \<noteq> None"
proof -
  let ?k = "m_last_indexed_height m - 1"
  obtain d where d: "commits B E H False {?k} (fs_db s) d" "commits B E H True {} d (fs_db (snd (tick B E H A ft now s)))"
    by (rule tick_commits [OF assms(4)])
  have low: "lock_height_or_max r \<le> ?k"
    using assms(6) by (rule less_le_pred_u64)
  have "store_ok B E d \<and> av_htlcs (view B d) x = Some r"
    using d(1)
  proof (induction rule: rtranclp_induct)
    case (step d1 d2)
    from step.hyps(2) show ?case
    proof cases
      case (Wipe keep)
      obtain d' where "wipe_above B keep d1 = Inr d'" "store_ok B E d'" "view B d' = spec_wipe keep (view B d1)"
        by (rule wipe_view) (use step.IH in blast)
      with Wipe step.IH low show ?thesis by (simp add: spec_wipe_def dropped_eq_Some_iff not_less)
    next
      case (Save m')
      obtain d' where "save_meta B m' d1 = Inr d'" "store_ok B E d'" "view B d' = (view B d1)\<lparr>av_meta := Some m'\<rparr>"
        by (rule save_view [OF assms(1)]) (use step.IH in blast)
      with Save step.IH show ?thesis by simp
    qed simp
  qed (use assms(3,5) in simp)
  then have start: "store_ok B E d \<and> av_htlcs (view B d) x \<noteq> None" by simp
  have "store_ok B E d' \<and> av_htlcs (view B d') x \<noteq> None" if "commits B E H True {} d d'" for d'
    using that
  proof (induction rule: rtranclp_induct)
    case (step d1 d2)
    from step.hyps(2) show ?case
    proof cases
      case (Index N peek h block started_at ev)
      obtain d' where "apply_block_events B ev d1 = Inr d'" "store_ok B E d'" "view B d' = spec_apply ev (view B d1)"
        by (rule index_view [OF assms(1,2) _ Index(2)]) (use step.IH in blast)
      with Index(3) step.IH show ?thesis by (auto simp: spec_apply_fields map_add_def split: option.splits)
    next
      case (Save m')
      obtain d' where "save_meta B m' d1 = Inr d'" "store_ok B E d'" "view B d' = (view B d1)\<lparr>av_meta := Some m'\<rparr>"
        by (rule save_view [OF assms(1)]) (use step.IH in blast)
      with Save step.IH show ?thesis by simp
    qed simp
  qed (rule start)
  with d(2) show ?thesis by blast
qed

end
