(* ===== verification/FollowerWitness.thy ===== *)
theory FollowerWitness
  imports FollowerTick
begin

section \<open>A concrete follower\<close>

text \<open>
  The instances the follower's witnesses run on: a hex codec that writes a byte as the
  character of its code, a transaction crate that knows three transactions (a coinbase that
  funds the sender, a transaction that locks an HTLC and signals a quote, a claim of that
  HTLC), and nodes that serve a chain of seven blocks with these transactions, or a fork of it.
\<close>

subsection \<open>The third-party functions\<close>

definition sample_hex :: hex where
  "sample_hex = \<lparr>hex_encode = map (\<lambda>b. char_of (unat b)), hex_decode = (\<lambda>s. Some (map (\<lambda>c. word_of_nat (of_char c)) s))\<rparr>"

lemma word_of_char_code [simp]: "word_of_nat (of_char (char_of (unat b) :: char)) = (b :: u8)"
proof -
  have "unat b < 256" using unsigned_less [of b] by simp
  then show ?thesis by simp
qed

lemma sample_hex_decode [simp]: "hex_decode sample_hex (hex_encode sample_hex bs) = Some bs"
  by (induction bs) (simp_all add: sample_hex_def)

lemma sample_hex_ok [simp]: "hex_ok sample_hex"
  by (simp add: hex_ok_def)

lemma sample_hex_eq [simp]: "hex_encode sample_hex a = hex_encode sample_hex b \<longleftrightarrow> a = b"
  by (metis option.inject sample_hex_decode)

definition fund_tx :: Transaction where
  "fund_tx = \<lparr>tx_inputs = [], tx_outputs =
     [\<lparr>out_value = 120, out_script = byte_list (filled 1 :: 32 bytes), out_datum = None, out_datum_hash = None\<rparr>],
     tx_witnesses = []\<rparr>"

definition lock_tx :: Transaction where
  "lock_tx = \<lparr>tx_inputs = [\<lparr>prev_tx_id = filled 3, prev_output_index = 0\<rparr>], tx_outputs =
     [\<lparr>out_value = 50, out_script = replicate 100 0, out_datum = None, out_datum_hash = None\<rparr>,
      \<lparr>out_value = 70, out_script = byte_list (filled 6 :: 32 bytes),
       out_datum = Some (byte_list (filled 9 :: 16 bytes)), out_datum_hash = None\<rparr>],
     tx_witnesses = [[]]\<rparr>"

definition claim_tx :: Transaction where
  "claim_tx = \<lparr>tx_inputs = [\<lparr>prev_tx_id = filled 4, prev_output_index = 0\<rparr>], tx_outputs =
     [\<lparr>out_value = 50, out_script = byte_list (filled 2 :: 32 bytes), out_datum = None, out_datum_hash = None\<rparr>],
     tx_witnesses = [[1, 0, 5, 1, 0, 0, 0, 42]]\<rparr>"

lemmas sample_txs = fund_tx_def lock_tx_def claim_tx_def

lemma sample_txs_differ [simp]:
  "lock_tx \<noteq> fund_tx" "claim_tx \<noteq> fund_tx" "claim_tx \<noteq> lock_tx" "fund_tx \<noteq> lock_tx" "fund_tx \<noteq> claim_tx" "lock_tx \<noteq> claim_tx"
  by (simp_all add: sample_txs)

definition sample_exfer :: "unit exfer" where
  "sample_exfer =
     \<lparr>tx_id_of = (\<lambda>tx. if tx = fund_tx then Some (filled 3) else if tx = lock_tx then Some (filled 4)
        else if tx = claim_tx then Some (filled 7) else None),
      is_coinbase = (\<lambda>tx. tx = fund_tx),
      deserialize_tx = (\<lambda>bs. if bs = [3] then Some fund_tx else if bs = [4] then Some lock_tx
        else if bs = [7] then Some claim_tx else None),
      try_parse_htlc = (\<lambda>s. if s = replicate 100 0 then Some sample_params else None),
      build_htlc = (\<lambda>_ _ _ _. ()), deserialize_program = (\<lambda>_. Some ()),
      structural_merkle_hash = (\<lambda>_. filled 8), pubkey_hash_from_key = (\<lambda>k. k)\<rparr>"

lemma sample_exfer_ok [simp]: "exfer_ok sample_exfer"
  unfolding exfer_ok_def sample_exfer_def exfer.simps
  by (intro allI impI) (auto simp: sample_txs split: if_splits)


subsection \<open>The nodes\<close>

definition tx_hex :: "u8 \<Rightarrow> string" where
  "tx_hex b = hex_encode sample_hex (replicate 32 b)"

lemma tx_hex_eq [simp]: "tx_hex a = tx_hex b \<longleftrightarrow> a = b"
  by (simp add: tx_hex_def)

text \<open>The block at a height, of the chain whose block ids are made from \<open>salt\<close>.\<close>

definition sample_block :: "u8 \<Rightarrow> (u64 \<Rightarrow> string list) \<Rightarrow> u64 \<Rightarrow> BlockSummary" where
  "sample_block salt txs h =
     \<lparr>b_block_id = hex_encode sample_hex (byte_list (filled (salt + of_nat (unat h)) :: 32 bytes)),
      b_height = h, b_timestamp = 1000 + h, b_tx_count = word_of_nat (length (txs h)), b_transactions = txs h,
      b_prev_block_id = [], b_difficulty_target = [], b_nonce = 0, b_state_root = [], b_tx_root = []\<rparr>"

definition sample_status :: "string \<Rightarrow> (error + TxStatus)" where
  "sample_status t =
     (if t \<in> {tx_hex 3, tx_hex 4, tx_hex 7}
      then Inr \<lparr>st_tx_id = t, st_tx_hex = hex_encode sample_hex [if t = tx_hex 3 then 3 else if t = tx_hex 4 then 4 else 7],
                st_in_mempool = False, st_block_id = None, st_block_height = None\<rparr>
      else Inl (UpstreamRpc (- 1) ''no such transaction''))"

definition chain_node :: "u8 \<Rightarrow> (u64 \<Rightarrow> string list) \<Rightarrow> node" where
  "chain_node salt txs =
     \<lparr>n_get_block_height = Inr \<lparr>tip_height = 6, tip_block_id = b_block_id (sample_block salt txs 6)\<rparr>,
      n_get_block_by_height = (\<lambda>h. Inr (sample_block salt txs h)),
      n_get_transaction = sample_status,
      n_get_output_spent_by = (\<lambda>_ _. Inr (Unspent False))\<rparr>"

definition sample_node :: node where
  "sample_node = chain_node 100 (\<lambda>h. if h = 4 then [tx_hex 3] else if h = 5 then [tx_hex 4] else if h = 6 then [tx_hex 7] else [])"

definition fork_node :: node where
  "fork_node = chain_node 200 (\<lambda>_. [])"

lemma node_simps [simp]:
  "n_get_transaction (chain_node salt txs) = sample_status"
  "n_get_block_by_height (chain_node salt txs) h = Inr (sample_block salt txs h)"
  "n_get_block_height (chain_node salt txs) = Inr \<lparr>tip_height = 6, tip_block_id = b_block_id (sample_block salt txs 6)\<rparr>"
  by (simp_all add: chain_node_def)

lemma block_id_simp [simp]:
  "decode_hex32 sample_hex (b_block_id (sample_block salt txs h)) = Inr (filled (salt + of_nat (unat h)))"
  using decode_hex32_encode [OF sample_hex_ok, of "filled (salt + of_nat (unat h))"]
  unfolding sample_block_def by (simp only: BlockSummary.simps)

lemma sample_block_txs [simp]: "b_transactions (sample_block salt txs h) = txs h"
  by (simp add: sample_block_def)

text \<open>The transactions of the chain decode, with every transaction they spend.\<close>

lemma fetch_sample:
  assumes "b \<in> {3, 4, 7}"
  shows "\<exists>tx. fetch_tx sample_exfer sample_hex (chain_node salt txs) (filled b) = Inr (Some tx)"
proof -
  have t: "hex_encode sample_hex (replicate 32 b) = tx_hex b" for b by (simp add: tx_hex_def)
  have ne: "hex_encode sample_hex [x] \<noteq> []" for x by (simp add: sample_hex_def)
  show ?thesis using assms by (auto simp: fetch_tx_def t sample_status_def ne sample_exfer_def)
qed

lemma cache_sample:
  assumes "b \<in> {3, 4, 7}" "prev_tx_id inp = filled b"
  shows "\<exists>c'. cache_prev_tx sample_exfer sample_hex (chain_node salt txs) inp c = Inr c'"
  using fetch_sample [OF assms(1), of salt txs] assms(2)
  by (auto simp: cache_prev_tx_def split: option.splits)

lemma scan_input_sample:
  assumes "b \<in> {3, 4, 7}" "prev_tx_id inp = filled b"
  shows "\<exists>s'. scan_input sample_exfer sample_hex (chain_node salt txs) t h (v, inp) s = Inr s'"
proof -
  obtain c' where "cache_prev_tx sample_exfer sample_hex (chain_node salt txs) inp (in_cache s) = Inr c'"
    using cache_sample [OF assms] by blast
  then show ?thesis by (simp add: scan_input_def Let_def)
qed

lemma scan_tx_sample:
  assumes "b \<in> {3, 4, 7}"
  shows "\<exists>s'. scan_tx sample_exfer sample_hex (chain_node salt txs) h (tx_hex b) s = Inr s'"
proof -
  obtain tx where tx: "deserialize_tx sample_exfer [b] = Some tx"
    "tx_inputs tx = [] \<or> (\<exists>c inp. tx_inputs tx = [inp] \<and> c \<in> {3, 4, 7} \<and> prev_tx_id inp = filled c)"
    using assms by (auto simp: sample_exfer_def sample_txs)
  have status: "\<exists>st. sample_status (tx_hex b) = Inr st \<and> st_tx_hex st = hex_encode sample_hex [b]"
    using assms by (auto simp: sample_status_def)
  have "\<exists>i. fold_res (scan_input sample_exfer sample_hex (chain_node salt txs) t h)
      (if is_coinbase sample_exfer tx then [] else enumerate 0 (tx_inputs tx)) s0 = Inr i" for t s0
    using tx(2)
  proof (elim disjE exE conjE)
    fix c inp assume inp: "tx_inputs tx = [inp]" "c \<in> {3, 4, 7}" "prev_tx_id inp = filled c"
    obtain i where "scan_input sample_exfer sample_hex (chain_node salt txs) t h (0, inp) s0 = Inr i"
      using scan_input_sample [OF inp(2,3)] by blast
    then show ?thesis by (simp add: inp(1))
  qed simp
  then obtain i where i: "fold_res (scan_input sample_exfer sample_hex (chain_node salt txs)
        (x_tx_id (extract_from_tx sample_exfer tx h 0)) h)
      (if is_coinbase sample_exfer tx then [] else enumerate 0 (tx_inputs tx))
      \<lparr>in_spent_by = bs_spent_by s, in_cache = bs_cache s, in_addrs = [],
       in_activity = x_activity (extract_from_tx sample_exfer tx h 0)\<rparr> = Inr i" by blast
  obtain st where "sample_status (tx_hex b) = Inr st" "st_tx_hex st = hex_encode sample_hex [b]"
    using status by blast
  then show ?thesis by (simp add: scan_tx_def Let_def tx(1) i)
qed

lemma readable_chain:
  assumes "txs h = [] \<or> (\<exists>b. b \<in> {3, 4, 7} \<and> txs h = [tx_hex b])"
  shows "readable sample_exfer sample_hex (chain_node salt txs) h"
proof -
  have "\<exists>s. fold_res (scan_tx sample_exfer sample_hex (chain_node salt txs) h) (txs h) empty_scan = Inr s"
    using assms scan_tx_sample [of _ salt txs h empty_scan] by (auto simp: bind_res_eq_Inr_iff)
  then show ?thesis
    unfolding readable_def node_simps by (metis block_id_simp sample_block_txs)
qed

lemma readable_sample: "readable sample_exfer sample_hex sample_node h"
  unfolding sample_node_def by (rule readable_chain) auto

lemma readable_fork: "readable sample_exfer sample_hex fork_node h"
  unfolding fork_node_def by (rule readable_chain) simp


subsection \<open>Witnesses of the scan\<close>

theorem counterparties_exact_witness:
  "\<exists>s' rows. scan_tx sample_exfer sample_hex sample_node 5 (tx_hex 4) empty_scan = Inr s' \<and>
     bs_activity s' = bs_activity empty_scan @ rows \<and>
     list_all (\<lambda>r. distinct (a_counterparties r) \<and> set (a_counterparties r) =
       {a_address r' | r'. r' \<in> set rows \<and> a_is_input r' \<noteq> a_is_input r} - {a_address r}) rows"
proof -
  obtain s' where s': "scan_tx sample_exfer sample_hex sample_node 5 (tx_hex 4) empty_scan = Inr s'"
    using scan_tx_sample [of 4] unfolding sample_node_def by blast
  show ?thesis using s' counterparties_exact [OF s'] by blast
qed

text \<open>The store that holds the block of the lock, with the datum its transaction signals.\<close>

lemma sample_datum_signal: "datum_signal sample_exfer (filled 4) 1 (Some (filled 9))"
proof -
  have "sample_datum \<in> set (x_output_datums (extract_from_tx sample_exfer lock_tx 5 0))"
    by (simp add: extract_from_tx_Some sample_exfer_def lock_tx_def fund_tx_def extract_datum_def sample_datum_def
        strict_decode_quote_id_def QUOTE_ID_BYTES_def filled_def)
  then show ?thesis
    unfolding datum_signal_def by (intro exI [of _ lock_tx] exI [of _ 5] exI [of _ sample_datum]) (simp add: sample_datum_def)
qed

lemma store_ok_apply:
  assumes "store_ok sample_bincode sample_exfer d"
    and "list_all (\<lambda>od. datum_signal sample_exfer (od_tx_id od) (od_output_index od) (od_quote_id od)) (ev_output_datums ev)"
  obtains d' where "apply_block_events sample_bincode ev d = Inr d'" "store_ok sample_bincode sample_exfer d'"
    "view sample_bincode d' = spec_apply ev (view sample_bincode d)"
proof -
  have d: "db_ok sample_bincode d" "datums_known sample_exfer (view sample_bincode d)"
    using assms(1) by (simp_all add: store_ok_def)
  obtain d' where "apply_block_events sample_bincode ev d = Inr d'" "db_ok sample_bincode d'"
    "view sample_bincode d' = spec_apply ev (view sample_bincode d)"
    by (rule simE [OF apply_refines [OF sample_bincode_ok] d(1) known_consistent [OF sample_exfer_ok d(2) assms(2)]])
  with datums_known_apply [OF d(2) assms(2)] that show ?thesis by (simp add: store_ok_def)
qed

lemma sample_store:
  obtains d where "store_ok sample_bincode sample_exfer d"
    "view sample_bincode d = spec_apply lock_block (view sample_bincode open_all_tables)"
  by (rule store_ok_apply [OF store_ok_empty, of lock_block])
    (use sample_datum_signal in \<open>simp_all add: lock_block_def sample_datum_def\<close>)

lemma sample_tall_store:
  obtains d m r where "store_ok sample_bincode sample_exfer d" "load_meta sample_bincode d = Inr m"
    "m_last_indexed_height m = 6" "av_htlcs (view sample_bincode d) (filled 4, 0) = Some r" "lock_height_or_max r = 5"
proof -
  obtain d1 where d1: "store_ok sample_bincode sample_exfer d1"
    "view sample_bincode d1 = spec_apply lock_block (view sample_bincode open_all_tables)"
    by (rule sample_store)
  obtain d where d: "store_ok sample_bincode sample_exfer d"
    "view sample_bincode d = spec_apply claim_block (view sample_bincode d1)"
    by (rule store_ok_apply [OF d1(1), of claim_block]) (simp_all add: claim_block_def)
  have "load_meta sample_bincode d = Inr (advanced_meta claim_block)"
    using load_meta_view [of sample_bincode d] d by (simp add: store_ok_def spec_apply_eq)
  moreover have "m_last_indexed_height (advanced_meta claim_block) = 6"
    by (simp add: advanced_meta_def claim_block_def)
  moreover have "locked claim_block (filled 4, 0) = None" by (simp add: locked_def claim_block_def)
  then have "av_htlcs (view sample_bincode d) (filled 4, 0) =
      Some (after_spends (ev_height claim_block) (ev_spends claim_block) (filled 4, 0) sample_htlc)"
    unfolding d(2) spec_apply_fields by (simp add: sample_view [OF d1(2)] map_add_def)
  moreover have "lock_height_or_max sample_htlc = 5" by (simp add: lock_height_or_max_def sample_htlc_def)
  ultimately show ?thesis
    by (intro that [OF d(1), of _ "after_spends (ev_height claim_block) (ev_spends claim_block) (filled 4, 0) sample_htlc"]) simp_all
qed

lemma claim_block_events:
  assumes "store_ok sample_bincode sample_exfer d"
  obtains ev where "block_events sample_bincode sample_exfer sample_hex sample_node (\<lambda>_. None) 6
      (sample_block 100 (\<lambda>_. [tx_hex 7]) 6) 0 d = Inr ev" "ev_spends ev = [sample_spend]"
proof -
  have db: "db_ok sample_bincode d" using assms by (simp add: store_ok_def)
  obtain sc where sc: "scan_tx sample_exfer sample_hex sample_node 6 (tx_hex 7) empty_scan = Inr sc"
    using scan_tx_sample [of 7] unfolding sample_node_def by blast
  have tx: "n_get_transaction sample_node (tx_hex 7) = Inr st \<Longrightarrow> hex_decode sample_hex (st_tx_hex st) = Some [7]" for st
    by (auto simp: sample_node_def sample_status_def)
  obtain status bytes tx where "n_get_transaction sample_node (tx_hex 7) = Inr status"
    "hex_decode sample_hex (st_tx_hex status) = Some bytes" "deserialize_tx sample_exfer bytes = Some tx"
    "bs_spends sc = bs_spends empty_scan @ x_spends (extract_from_tx sample_exfer tx 6 0)"
    by (rule scan_txE [OF sc]) simp
  with tx have "bs_spends sc = x_spends (extract_from_tx sample_exfer claim_tx 6 0)"
    by (auto simp: sample_exfer_def empty_scan_def)
  moreover have preimage: "extract_claim_preimage [1, 0, 5, 1, 0, 0, 0, 42] = Some [42]" by code_simp
  have "x_spends (extract_from_tx sample_exfer claim_tx 6 0) = [sample_spend]"
    by (simp add: extract_from_tx_Some sample_exfer_def claim_tx_def fund_tx_def lock_tx_def input_spends_def
        classify_spend_arm_def preimage VALUE_TAG_LEFT_def sample_spend_def)
  ultimately have spends: "bs_spends sc = [sample_spend]" by simp
  have "map_res (spend_settlements sample_bincode sample_exfer (\<lambda>_. None) d 6) (bs_spends sc) =
      Inr (map (settlements_for sample_exfer (view sample_bincode d) 6) (bs_spends sc))"
    by (rule map_res_total) (simp add: peek_view [OF db])
  then show ?thesis
    using that by (simp add: block_events_def sc spends)
qed

theorem block_settlements_exact_witness:
  "\<exists>d ev s. apply_block_events sample_bincode lock_block open_all_tables = Inr d \<and>
     block_events sample_bincode sample_exfer sample_hex sample_node (\<lambda>_. None) 6 (sample_block 100 (\<lambda>_. [tx_hex 7]) 6) 0 d = Inr ev \<and>
     s \<in> set (ev_settlements ev) \<and> s_tx_id s = filled 4 \<and> s_outcome s = Claimed"
proof -
  obtain d where d: "apply_block_events sample_bincode lock_block open_all_tables = Inr d"
    "store_ok sample_bincode sample_exfer d"
    "view sample_bincode d = spec_apply lock_block (view sample_bincode open_all_tables)"
    by (rule store_ok_apply [OF store_ok_empty, of lock_block])
      (use sample_datum_signal in \<open>simp_all add: lock_block_def sample_datum_def\<close>)
  obtain ev where ev: "block_events sample_bincode sample_exfer sample_hex sample_node (\<lambda>_. None) 6
      (sample_block 100 (\<lambda>_. [tx_hex 7]) 6) 0 d = Inr ev" "ev_spends ev = [sample_spend]"
    by (rule claim_block_events [OF d(2)])
  let ?s = "\<lparr>s_tx_id = filled 4, s_block_height = 6, s_contract_hash = filled 8, s_outcome = Claimed,
     s_observer_address = filled 1, s_counterparty = filled 2, s_amount = 50, s_lock_tx_id = filled 4,
     s_lock_output_index = 0\<rparr>"
  have db: "db_ok sample_bincode d" using d(2) by (simp add: store_ok_def)
  have "?s \<in> set (ev_settlements ev)"
    unfolding block_settlements_exact [OF db ev(1)] ev(2) sample_view [OF d(3)]
    by (simp add: sample_spend_def sample_htlc_def sample_params_def sample_exfer_def)
  with d(1) ev(1) show ?thesis by (intro exI [of _ d] exI [of _ ev] exI [of _ ?s]) simp
qed


subsection \<open>Witnesses of the tick\<close>

theorem polls_keep_store_witness:
  "store_ok sample_bincode sample_exfer
     (fs_db (run_polls sample_bincode sample_exfer sample_hex
        [(steady sample_node, no_faults, 7), (steady sample_node\<lparr>at_tip := fork_node\<rparr>, no_faults, 8), (steady fork_node, no_faults, 9)] \<lparr>fs_db = open_all_tables, fs_tip = 0\<rparr>))"
  by (rule polls_keep_store) simp_all

theorem tick_reaches_tip_witness:
  "\<exists>s'. tick sample_bincode sample_exfer sample_hex (steady sample_node) no_faults 7 \<lparr>fs_db = open_all_tables, fs_tip = 0\<rparr> = (Inr (), s') \<and>
     store_ok sample_bincode sample_exfer (fs_db s') \<and> fs_tip s' = 6 \<and>
     checkpoint_at sample_bincode sample_hex sample_node 6 (fs_db s')"
proof -
  let ?s = "\<lparr>fs_db = open_all_tables, fs_tip = 0\<rparr> :: blob FollowerState"
  have tip: "n_get_block_height sample_node =
      Inr \<lparr>tip_height = 6, tip_block_id = b_block_id (sample_block 100
        (\<lambda>h. if h = 4 then [tx_hex 3] else if h = 5 then [tx_hex 4] else if h = 6 then [tx_hex 7] else []) 6)\<rparr>"
    by (simp add: sample_node_def)
  have meta: "load_meta sample_bincode (fs_db ?s) = Inr FollowerMeta_default"
    using load_meta_view [of sample_bincode open_all_tables] by simp
  show ?thesis
    using tick_reaches_tip [OF sample_bincode_ok sample_exfer_ok _ tip _ _ meta, of sample_hex 7] readable_sample
    by (simp add: FollowerMeta_default_def)
qed

theorem tick_rewinds_one_block_witness:
  "\<exists>d m. load_meta sample_bincode d = Inr m \<and> m_last_indexed_height m = 6 \<and>
     av_htlcs (view sample_bincode (fs_db (snd
       (tick sample_bincode sample_exfer sample_hex (steady fork_node) no_faults 7 \<lparr>fs_db = d, fs_tip = 6\<rparr>)))) (filled 4, 0) \<noteq> None"
proof -
  obtain d m r where d: "store_ok sample_bincode sample_exfer d" "load_meta sample_bincode d = Inr m"
    "m_last_indexed_height m = 6" "av_htlcs (view sample_bincode d) (filled 4, 0) = Some r" "lock_height_or_max r = 5"
    by (rule sample_tall_store)
  have "av_htlcs (view sample_bincode (fs_db (snd
       (tick sample_bincode sample_exfer sample_hex (steady fork_node) no_faults 7 \<lparr>fs_db = d, fs_tip = 6\<rparr>)))) (filled 4, 0) \<noteq> None"
    by (rule tick_rewinds_one_block [OF sample_bincode_ok sample_exfer_ok, of _ m _ r]) (simp_all add: d)
  with d(2,3) show ?thesis by blast
qed

end
