(* ===== verification/FollowerRewalk.thy ===== *)
theory FollowerRewalk
  imports FollowerWitness
begin

section \<open>Walking over a block again\<close>

text \<open>
  The events of a block depend on the store through the HTLCs its spends find there, so
  processing a block a second time need not write what the first time wrote. This theory
  takes apart the case where the two differ: an HTLC locked and spent in one block.
\<close>

lemma settlements_for_at:
  assumes "db_ok B d" "s \<in> set (settlements_for E (view B d) h sp)"
  shows "(s_lock_tx_id s, s_lock_output_index s) = (sp_lock_tx_id sp, sp_output_index sp)"
    "av_htlcs (view B d) (sp_lock_tx_id sp, sp_output_index sp) \<noteq> None"
proof -
  from assms(2) obtain r where r: "av_htlcs (view B d) (sp_lock_tx_id sp, sp_output_index sp) = Some r"
    by (cases "av_htlcs (view B d) (sp_lock_tx_id sp, sp_output_index sp)") (simp_all add: settlements_for_def)
  then have "lock_tx_id r = sp_lock_tx_id sp" "output_index r = sp_output_index sp"
    using db_ok_htlc_at [OF assms(1) r] by simp_all
  with assms(2) r show "(s_lock_tx_id s, s_lock_output_index s) = (sp_lock_tx_id sp, sp_output_index sp)"
    by (auto simp: settlements_for_def settlements_for_settled_htlc_def Let_def)
  from r show "av_htlcs (view B d) (sp_lock_tx_id sp, sp_output_index sp) \<noteq> None" by simp
qed

lemma settlements_for_found:
  assumes "av_htlcs A (sp_lock_tx_id sp, sp_output_index sp) = Some r"
  shows "\<exists>s. s \<in> set (settlements_for E A h sp)"
  using assms by (auto simp: settlements_for_def settlements_for_settled_htlc_def Let_def)

text \<open>The events of a block over another valid store, or with other reads failing, differ in the settlements only.\<close>

lemma block_events_again:
  assumes "block_events B E H N peek h block started_at d = Inr ev" "db_ok B d'"
  shows "block_events B E H N peek' h block started_at d' =
    Inr (ev\<lparr>ev_settlements := concat (map (seen_settlements E peek' (view B d') h) (ev_spends ev))\<rparr>)"
proof -
  have "map_res (spend_settlements B E peek' d' h) sps = Inr (map (seen_settlements E peek' (view B d') h) sps)" for sps
    by (rule map_res_total) (rule peek_view [OF assms(2)])
  then show ?thesis
    using assms(1) by (auto simp: block_events_def bind_res_eq_Inr_iff)
qed

text \<open>C16: a settlement inside one block is missed at first and appears on a second walk: when a block spends an
  HTLC it locks itself, processing it writes no settlement of that HTLC, and processing the same
  block again over the result does. So walking over indexed blocks again is not idempotent for
  the settlement tables.\<close>

theorem rewalk_adds_settlement:
  assumes "bincode_ok B" "exfer_ok E" "store_ok B E d"
    and "block_events B E H N (\<lambda>_. None) h block started_at d = Inr ev" "apply_block_events B ev d = Inr d'"
    and "sp \<in> set (ev_spends ev)" "x = (sp_lock_tx_id sp, sp_output_index sp)"
    and "av_htlcs (view B d) x = None" "locked ev x = Some r"
  shows "list_all (\<lambda>s. (s_lock_tx_id s, s_lock_output_index s) \<noteq> x) (ev_settlements ev) \<and>
    (\<exists>ev' s. block_events B E H N (\<lambda>_. None) h block started_at d' = Inr ev' \<and> s \<in> set (ev_settlements ev') \<and>
       (s_lock_tx_id s, s_lock_output_index s) = x)"
proof
  have db: "db_ok B d" using assms(3) by (simp add: store_ok_def)
  show "list_all (\<lambda>s. (s_lock_tx_id s, s_lock_output_index s) \<noteq> x) (ev_settlements ev)"
    unfolding list_all_iff
  proof
    fix s assume "s \<in> set (ev_settlements ev)"
    then obtain sp' where "s \<in> set (settlements_for E (view B d) h sp')"
      unfolding block_events_settlements(1) [OF db assms(4)] by auto
    from settlements_for_at [OF db this] assms(8) show "(s_lock_tx_id s, s_lock_output_index s) \<noteq> x" by metis
  qed
  obtain d1 where "apply_block_events B ev d = Inr d1" "store_ok B E d1" "view B d1 = spec_apply ev (view B d)"
    by (rule index_view [OF assms(1-4)])
  with assms(5) have d': "db_ok B d'" "view B d' = spec_apply ev (view B d)" by (simp_all add: store_ok_def)
  have "av_htlcs (view B d') x \<noteq> None"
    unfolding d'(2) spec_apply_fields using assms(9) by (simp add: map_add_def)
  then obtain s where s: "s \<in> set (settlements_for E (view B d') h sp)"
    using settlements_for_found [of "view B d'" sp] assms(7) by blast
  then have "(s_lock_tx_id s, s_lock_output_index s) = x"
    using settlements_for_at(1) [OF d'(1)] assms(7) by blast
  moreover have "s \<in> set (concat (map (settlements_for E (view B d') h) (ev_spends ev)))"
    using s assms(6) by auto
  ultimately show "\<exists>ev' s. block_events B E H N (\<lambda>_. None) h block started_at d' = Inr ev' \<and> s \<in> set (ev_settlements ev') \<and>
       (s_lock_tx_id s, s_lock_output_index s) = x"
    using block_events_again [OF assms(4) d'(1)] by (intro exI conjI) (assumption, simp_all)
qed

text \<open>A block that holds the lock and its claim, over an empty store.\<close>

definition swap_in_block :: BlockSummary where
  "swap_in_block = sample_block 100 (\<lambda>_. [tx_hex 4, tx_hex 7]) 5"

lemma scan_sample_events:
  assumes "b \<in> {4, 7}"
    and "scan_tx sample_exfer sample_hex sample_node h (tx_hex b) s = Inr s'"
  shows "bs_spends s' = bs_spends s @ x_spends (extract_from_tx sample_exfer (if b = 4 then lock_tx else claim_tx) h 0)"
    "bs_locks s' = bs_locks s @ x_locks (extract_from_tx sample_exfer (if b = 4 then lock_tx else claim_tx) h 0)"
proof -
  obtain status bytes tx where tx: "n_get_transaction sample_node (tx_hex b) = Inr status"
    "hex_decode sample_hex (st_tx_hex status) = Some bytes" "deserialize_tx sample_exfer bytes = Some tx"
    and s': "bs_spends s' = bs_spends s @ x_spends (extract_from_tx sample_exfer tx h 0)"
    "bs_locks s' = bs_locks s @ x_locks (extract_from_tx sample_exfer tx h 0)"
    by (rule scan_txE [OF assms(2)]) simp
  have "tx = (if b = 4 then lock_tx else claim_tx)"
    using tx assms(1) by (auto simp: sample_node_def sample_status_def sample_exfer_def)
  with s' show "bs_spends s' = bs_spends s @ x_spends (extract_from_tx sample_exfer (if b = 4 then lock_tx else claim_tx) h 0)"
    "bs_locks s' = bs_locks s @ x_locks (extract_from_tx sample_exfer (if b = 4 then lock_tx else claim_tx) h 0)"
    by simp_all
qed

lemma sample_extracts:
  "x_spends (extract_from_tx sample_exfer lock_tx h 0) = []"
  "x_spends (extract_from_tx sample_exfer claim_tx h 0) = [sample_spend]"
  "map (\<lambda>l. (lock_tx_id (lk_record l), output_index (lk_record l))) (x_locks (extract_from_tx sample_exfer lock_tx h 0)) = [(filled 4, 0)]"
  "x_locks (extract_from_tx sample_exfer claim_tx h 0) = []"
proof -
  have preimage: "extract_claim_preimage [1, 0, 5, 1, 0, 0, 0, 42] = Some [42]" by code_simp
  show "x_spends (extract_from_tx sample_exfer lock_tx h 0) = []"
    "x_spends (extract_from_tx sample_exfer claim_tx h 0) = [sample_spend]"
    by (simp_all add: extract_from_tx_Some sample_exfer_def claim_tx_def fund_tx_def lock_tx_def input_spends_def
        classify_spend_arm_def preimage VALUE_TAG_LEFT_def sample_spend_def)
  show "map (\<lambda>l. (lock_tx_id (lk_record l), output_index (lk_record l))) (x_locks (extract_from_tx sample_exfer lock_tx h 0)) = [(filled 4, 0)]"
    "x_locks (extract_from_tx sample_exfer claim_tx h 0) = []"
    by (simp_all add: extract_from_tx_Some sample_exfer_def claim_tx_def fund_tx_def lock_tx_def extract_lock_def
        MIN_HTLC_SCRIPT_BYTES_def fresh_lock_def)
qed

lemma swap_in_block_events:
  assumes "db_ok sample_bincode d"
  obtains ev r where "block_events sample_bincode sample_exfer sample_hex sample_node (\<lambda>_. None) 5 swap_in_block 0 d = Inr ev"
    "sample_spend \<in> set (ev_spends ev)" "locked ev (filled 4, 0) = Some r"
proof -
  obtain s1 where s1: "scan_tx sample_exfer sample_hex sample_node 5 (tx_hex 4) empty_scan = Inr s1"
    using scan_tx_sample [of 4] unfolding sample_node_def by blast
  obtain s2 where s2: "scan_tx sample_exfer sample_hex sample_node 5 (tx_hex 7) s1 = Inr s2"
    using scan_tx_sample [of 7] unfolding sample_node_def by blast
  have facts: "bs_spends s2 = [sample_spend]" "bs_locks s2 = x_locks (extract_from_tx sample_exfer lock_tx 5 0)"
    using scan_sample_events [OF _ s1] scan_sample_events [OF _ s2]
    by (simp_all add: sample_extracts empty_scan_def)
  have total: "map_res (spend_settlements sample_bincode sample_exfer (\<lambda>_. None) d 5) (bs_spends s2) =
      Inr (map (settlements_for sample_exfer (view sample_bincode d) 5) (bs_spends s2))"
    by (rule map_res_total) (simp add: peek_view [OF assms])
  obtain ev where ev: "block_events sample_bincode sample_exfer sample_hex sample_node (\<lambda>_. None) 5 swap_in_block 0 d = Inr ev"
    "ev_spends ev = bs_spends s2" "ev_locks ev = bs_locks s2"
    using total by (simp add: block_events_def swap_in_block_def s1 s2)
  have "(filled 4, 0) \<in> set (map (\<lambda>l. (lock_tx_id (lk_record l), output_index (lk_record l))) (ev_locks ev))"
    unfolding ev(3) facts(2) sample_extracts by simp
  then have "locked ev (filled 4, 0) \<noteq> None" by (auto simp: locked_def written_eq_None_iff)
  with ev facts(1) that show ?thesis by auto
qed

theorem rewalk_adds_settlement_witness:
  "\<exists>ev d ev' s. block_events sample_bincode sample_exfer sample_hex sample_node (\<lambda>_. None) 5 swap_in_block 0 open_all_tables = Inr ev \<and>
     apply_block_events sample_bincode ev open_all_tables = Inr d \<and>
     block_events sample_bincode sample_exfer sample_hex sample_node (\<lambda>_. None) 5 swap_in_block 0 d = Inr ev' \<and>
     s \<in> set (ev_settlements ev') \<and> s \<notin> set (ev_settlements ev)"
proof -
  obtain ev r where ev: "block_events sample_bincode sample_exfer sample_hex sample_node (\<lambda>_. None) 5 swap_in_block 0 open_all_tables = Inr ev"
    "sample_spend \<in> set (ev_spends ev)" "locked ev (filled 4, 0) = Some r"
    by (rule swap_in_block_events [OF db_ok_open_all_tables])
  obtain d where d: "apply_block_events sample_bincode ev open_all_tables = Inr d"
    by (rule index_view [OF sample_bincode_ok sample_exfer_ok store_ok_empty ev(1)])
  have "list_all (\<lambda>s. (s_lock_tx_id s, s_lock_output_index s) \<noteq> (filled 4, 0)) (ev_settlements ev) \<and>
    (\<exists>ev' s. block_events sample_bincode sample_exfer sample_hex sample_node (\<lambda>_. None) 5 swap_in_block 0 d = Inr ev' \<and>
       s \<in> set (ev_settlements ev') \<and> (s_lock_tx_id s, s_lock_output_index s) = (filled 4, 0))"
    by (rule rewalk_adds_settlement [OF sample_bincode_ok sample_exfer_ok store_ok_empty ev(1) d ev(2) _ _ ev(3)])
      (simp_all add: sample_spend_def)
  then obtain ev' s where "block_events sample_bincode sample_exfer sample_hex sample_node (\<lambda>_. None) 5 swap_in_block 0 d = Inr ev'"
    "s \<in> set (ev_settlements ev')" "s \<notin> set (ev_settlements ev)" unfolding list_all_iff by blast
  with ev(1) d show ?thesis by (intro exI conjI)
qed

end
