(* ===== verification/FollowerReads.thy ===== *)
theory FollowerReads
  imports FollowerRewalk
begin

section \<open>A failing read of the store\<close>

text \<open>
  What becomes of a block when redb reports an error for the read of an HTLC that one of its
  spends settles. The write path reads the HTLC again, inside the write transaction, so the
  two need not see the same: the HTLC is settled and its settlement is not recorded.
\<close>

lemma settled_after_spend:
  assumes "sp \<in> set sps" "spend_hits x sp"
  shows "settled (after_spends h sps x r)"
proof -
  have "find (spend_hits x) sps \<noteq> None" using assms by (auto simp: find_None_iff)
  then show ?thesis by (auto simp: after_spends_def)
qed

lemma process_block_ok:
  assumes "block_events B E H N peek h block started_at (fs_db s) = Inr ev"
    and "apply_block_events B ev (fs_db s) = Inr d'"
  shows "process_block B E H N peek None h block started_at s = (Inr (), s\<lparr>fs_db := d'\<rparr>)"
  using assms by (simp add: process_block_def bind_step_apply on_db_def write_txn_def)

text \<open>An outpoint whose reads all fail gets no settlement.\<close>

lemma unread_not_settled:
  assumes "db_ok B d" "block_events B E H N peek h block started_at d = Inr ev"
    and "\<forall>sp\<in>set (ev_spends ev). (sp_lock_tx_id sp, sp_output_index sp) = x \<longrightarrow> peek sp \<noteq> None"
    and "st \<in> set (ev_settlements ev)"
  shows "(s_lock_tx_id st, s_lock_output_index st) \<noteq> x"
proof -
  obtain sp where sp: "sp \<in> set (ev_spends ev)" "st \<in> set (seen_settlements E peek (view B d) h sp)"
    using assms(4) unfolding block_events_settlements(1) [OF assms(1,2)] by auto
  then have "peek sp = None" "st \<in> set (settlements_for E (view B d) h sp)"
    by (simp_all add: seen_settlements_def split: if_splits)
  with sp(1) assms(3) settlements_for_at(1) [OF assms(1)] show ?thesis by metis
qed

text \<open>C17: a failing read loses a settlement: when a block spends an indexed HTLC, so that its events hold a
  settlement of that HTLC, and every read of that HTLC fails while the block is processed,
  processing still succeeds, the checkpoint moves to the block and the HTLC is settled, but no
  settlement of it is stored that was not there before. The error is dropped.\<close>

theorem failing_read_loses_settlement:
  assumes "bincode_ok B" "exfer_ok E" "store_ok B E (fs_db s)"
    and "block_events B E H N (\<lambda>_. None) h block started_at (fs_db s) = Inr ev"
    and "sp \<in> set (ev_spends ev)" "x = (sp_lock_tx_id sp, sp_output_index sp)"
    and "av_htlcs (view B (fs_db s)) x = Some r"
    and "\<And>sp'. (sp_lock_tx_id sp', sp_output_index sp') = x \<Longrightarrow> peek sp' \<noteq> None"
  shows "list_ex (\<lambda>st. (s_lock_tx_id st, s_lock_output_index st) = x) (ev_settlements ev) \<and>
    (\<exists>s' r' m. process_block B E H N peek None h block started_at s = (Inr (), s') \<and>
       load_meta B (fs_db s') = Inr m \<and> m_last_indexed_height m = h \<and>
       av_htlcs (view B (fs_db s')) x = Some r' \<and> settled r' \<and>
       (\<forall>k st. av_settlements (view B (fs_db s')) k = Some st \<longrightarrow> (s_lock_tx_id st, s_lock_output_index st) = x \<longrightarrow>
          av_settlements (view B (fs_db s)) k = Some st))"
proof
  have db: "db_ok B (fs_db s)" using assms(3) by (simp add: store_ok_def)
  obtain st where "st \<in> set (settlements_for E (view B (fs_db s)) h sp)"
    using settlements_for_found [of "view B (fs_db s)" sp] assms(6,7) by blast
  moreover from settlements_for_at(1) [OF db this] assms(6)
  have "(s_lock_tx_id st, s_lock_output_index st) = x" by simp
  ultimately show "list_ex (\<lambda>st. (s_lock_tx_id st, s_lock_output_index st) = x) (ev_settlements ev)"
    using assms(5) by (auto simp: list_ex_iff block_events_settlements(1) [OF db assms(4)])
  obtain ev' where ev': "block_events B E H N peek h block started_at (fs_db s) = Inr ev'" "ev_spends ev' = ev_spends ev"
    using block_events_again [OF assms(4) db, of peek] by simp
  obtain d' where d': "apply_block_events B ev' (fs_db s) = Inr d'" "view B d' = spec_apply ev' (view B (fs_db s))"
    and ok: "store_ok B E d'"
    by (rule index_view [OF assms(1-3) ev'(1)])
  have "load_meta B d' = Inr (advanced_meta ev')"
    using load_meta_view [of B d'] ok d'(2) by (simp add: store_ok_def spec_apply_eq)
  moreover have "m_last_indexed_height (advanced_meta ev') = h"
    using block_events_settlements(2) [OF db ev'(1)] by (simp add: advanced_meta_def)
  ultimately obtain m where meta: "load_meta B d' = Inr m" "m_last_indexed_height m = h" by blast
  let ?w = "av_htlcs (view B (fs_db s)) ++ locked ev'"
  from assms(7) obtain w where "?w x = Some w" by (cases "locked ev' x") (auto simp: map_add_def)
  then have "av_htlcs (view B d') x = Some (after_spends (ev_height ev') (ev_spends ev') x w)"
    by (simp add: d'(2) spec_apply_fields)
  moreover have "settled (after_spends (ev_height ev') (ev_spends ev') x w)"
    using assms(5,6) by (intro settled_after_spend [of sp]) (simp_all add: ev'(2) spend_hits_def)
  moreover have "av_settlements (view B (fs_db s)) k = Some st"
    if "av_settlements (view B d') k = Some st" "(s_lock_tx_id st, s_lock_output_index st) = x" for k st
    using that assms(8) unread_not_settled [OF db ev'(1), of x]
    by (auto simp: d'(2) spec_apply_fields map_add_Some_iff dest!: written_eq_Some)
  ultimately show "\<exists>s' r' m. process_block B E H N peek None h block started_at s = (Inr (), s') \<and>
       load_meta B (fs_db s') = Inr m \<and> m_last_indexed_height m = h \<and>
       av_htlcs (view B (fs_db s')) x = Some r' \<and> settled r' \<and>
       (\<forall>k st. av_settlements (view B (fs_db s')) k = Some st \<longrightarrow> (s_lock_tx_id st, s_lock_output_index st) = x \<longrightarrow>
          av_settlements (view B (fs_db s)) k = Some st)"
    using process_block_ok [OF ev'(1) d'(1)] meta by (intro exI conjI) (assumption | simp)+
qed

text \<open>The claim of the sample lock, with the disk failing under each read of an HTLC.\<close>

theorem failing_read_loses_settlement_witness:
  "\<exists>d ev s' r' m. apply_block_events sample_bincode lock_block open_all_tables = Inr d \<and>
     block_events sample_bincode sample_exfer sample_hex sample_node (\<lambda>_. None) 6 (sample_block 100 (\<lambda>_. [tx_hex 7]) 6) 0 d = Inr ev \<and>
     list_ex (\<lambda>st. (s_lock_tx_id st, s_lock_output_index st) = (filled 4, 0)) (ev_settlements ev) \<and>
     process_block sample_bincode sample_exfer sample_hex sample_node (\<lambda>_. Some (StorageError ''io'')) None 6
       (sample_block 100 (\<lambda>_. [tx_hex 7]) 6) 0 \<lparr>fs_db = d, fs_tip = 5\<rparr> = (Inr (), s') \<and>
     load_meta sample_bincode (fs_db s') = Inr m \<and> m_last_indexed_height m = 6 \<and>
     av_htlcs (view sample_bincode (fs_db s')) (filled 4, 0) = Some r' \<and> settled r' \<and>
     (\<forall>k st. av_settlements (view sample_bincode (fs_db s')) k = Some st \<longrightarrow>
        (s_lock_tx_id st, s_lock_output_index st) \<noteq> (filled 4, 0))"
proof -
  obtain d where d: "apply_block_events sample_bincode lock_block open_all_tables = Inr d"
    "store_ok sample_bincode sample_exfer d"
    "view sample_bincode d = spec_apply lock_block (view sample_bincode open_all_tables)"
    by (rule store_ok_apply [OF store_ok_empty, of lock_block])
      (use sample_datum_signal in \<open>simp_all add: lock_block_def sample_datum_def\<close>)
  let ?s = "\<lparr>fs_db = d, fs_tip = 5\<rparr>" and ?block = "sample_block 100 (\<lambda>_. [tx_hex 7]) 6"
  have s: "store_ok sample_bincode sample_exfer (fs_db ?s)" using d(2) by simp
  obtain ev where ev: "block_events sample_bincode sample_exfer sample_hex sample_node (\<lambda>_. None) 6 ?block 0 d = Inr ev"
    "ev_spends ev = [sample_spend]"
    by (rule claim_block_events [OF d(2)])
  have none: "av_settlements (view sample_bincode d) = Map.empty"
    by (simp add: d(3) spec_apply_eq lock_block_def)
  have "list_ex (\<lambda>st. (s_lock_tx_id st, s_lock_output_index st) = (filled 4, 0)) (ev_settlements ev) \<and>
    (\<exists>s' r' m. process_block sample_bincode sample_exfer sample_hex sample_node (\<lambda>_. Some (StorageError ''io'')) None 6 ?block 0 ?s = (Inr (), s') \<and>
       load_meta sample_bincode (fs_db s') = Inr m \<and> m_last_indexed_height m = 6 \<and>
       av_htlcs (view sample_bincode (fs_db s')) (filled 4, 0) = Some r' \<and> settled r' \<and>
       (\<forall>k st. av_settlements (view sample_bincode (fs_db s')) k = Some st \<longrightarrow>
          (s_lock_tx_id st, s_lock_output_index st) = (filled 4, 0) \<longrightarrow>
          av_settlements (view sample_bincode (fs_db ?s)) k = Some st))"
    by (rule failing_read_loses_settlement [OF sample_bincode_ok sample_exfer_ok s, where sp = sample_spend and r = sample_htlc])
      (simp_all add: ev sample_view [OF d(3)] sample_spend_def)
  then obtain s' r' m where "list_ex (\<lambda>st. (s_lock_tx_id st, s_lock_output_index st) = (filled 4, 0)) (ev_settlements ev)"
    "process_block sample_bincode sample_exfer sample_hex sample_node (\<lambda>_. Some (StorageError ''io'')) None 6 ?block 0 ?s = (Inr (), s')"
    "load_meta sample_bincode (fs_db s') = Inr m" "m_last_indexed_height m = 6"
    "av_htlcs (view sample_bincode (fs_db s')) (filled 4, 0) = Some r'" "settled r'"
    "\<forall>k st. av_settlements (view sample_bincode (fs_db s')) k = Some st \<longrightarrow>
        (s_lock_tx_id st, s_lock_output_index st) \<noteq> (filled 4, 0)"
    by (auto simp: none)
  with d(1) ev(1) show ?thesis by (intro exI conjI)
qed

end
