(* ===== verification/Paging.thy ===== *)
theory Paging
  imports Errors
begin

section \<open>Pages and cursors (\<^verbatim>\<open>src/db/mod.rs\<close>, lines 48-125)\<close>

text \<open>
  The opaque cursors with their base64url encoding, and the page every list query cuts from
  its sorted rows: rows beyond the cursor, the first \<open>limit\<close> of them, and the key
  of the last row returned as the next cursor when rows remain. The locale
  \<open>pager\<close> states what following cursors relies on, distinct keys, and proves that
  the pages then partition the rows. The base64 engine is a parameter.
\<close>

subsection \<open>Cursors\<close>

record base64 =
  b64_encode :: "u8 list \<Rightarrow> string"
  b64_decode :: "string \<Rightarrow> u8 list option"

definition base64_ok :: "base64 \<Rightarrow> bool" where
  "base64_ok b \<longleftrightarrow> (\<forall>bs. b64_decode b (b64_encode b bs) = Some bs)"

record Cursor =
  cu_lock_height :: u64
  cu_lock_tx_id :: "32 bytes"
  cu_output_index :: u32

record SettlementCursor =
  sc_height :: u64
  sc_tx_id :: "32 bytes"

definition cursor_encode :: "base64 \<Rightarrow> Cursor \<Rightarrow> string" where
  "cursor_encode b c =
     b64_encode b (be64 (cu_lock_height c) @ byte_list (cu_lock_tx_id c) @ be32 (cu_output_index c))"

definition cursor_decode :: "base64 \<Rightarrow> string \<Rightarrow> Cursor res" where
  "cursor_decode b s =
     bind_res (ok_or (b64_decode b s) (BadParams ''invalid cursor'')) (\<lambda>bytes.
       if length bytes \<noteq> 44 then Inl (Fail (BadParams (''invalid cursor: expected 44 bytes, got '' @ decimal (length bytes))))
       else
         bind_res (bind_res (slice_range 0 8 bytes) u64_from_be_slice) (\<lambda>lock_height.
         bind_res (bind_res (slice_range 8 40 bytes) copy_from_slice) (\<lambda>lock_tx_id.
         bind_res (bind_res (slice_from 40 bytes) u32_from_be_slice) (\<lambda>output_index.
           Inr \<lparr>cu_lock_height = lock_height, cu_lock_tx_id = lock_tx_id, cu_output_index = output_index\<rparr>))))"

definition settlement_cursor_encode :: "base64 \<Rightarrow> SettlementCursor \<Rightarrow> string" where
  "settlement_cursor_encode b c = b64_encode b (be64 (sc_height c) @ byte_list (sc_tx_id c))"

definition settlement_cursor_decode :: "base64 \<Rightarrow> string \<Rightarrow> SettlementCursor res" where
  "settlement_cursor_decode b s =
     bind_res (ok_or (b64_decode b s) (BadParams ''invalid cursor'')) (\<lambda>bytes.
       if length bytes \<noteq> 40 then Inl (Fail (BadParams (''invalid cursor: expected 40 bytes, got '' @ decimal (length bytes))))
       else
         bind_res (bind_res (slice_range 0 8 bytes) u64_from_be_slice) (\<lambda>height.
         bind_res (bind_res (slice_from 8 bytes) copy_from_slice) (\<lambda>tx_id.
           Inr \<lparr>sc_height = height, sc_tx_id = tx_id\<rparr>)))"

lemma cursor_decode_encode: "base64_ok b \<Longrightarrow> cursor_decode b (cursor_encode b c) = Inr c"
  by (simp add: cursor_decode_def cursor_encode_def base64_ok_def subslice_def)

text \<open>A cursor handed to a client decodes to itself, for both kinds of cursor, and only strings that
  decode to exactly 44 (respectively 40) bytes are accepted: everything else is a bad-params
  error, never a panic.\<close>

theorem cursor_roundtrip:
  assumes "base64_ok b"
  shows "cursor_decode b (cursor_encode b c) = Inr c \<and>
    settlement_cursor_decode b (settlement_cursor_encode b sc) = Inr sc \<and>
    ((\<exists>c. cursor_decode b s = Inr c) \<or> (\<exists>m. cursor_decode b s = Inl (Fail (BadParams m)))) \<and>
    ((\<exists>c. cursor_decode b s = Inr c) \<longleftrightarrow> (\<exists>bs. b64_decode b s = Some bs \<and> length bs = 44)) \<and>
    ((\<exists>c. settlement_cursor_decode b s = Inr c) \<longleftrightarrow> (\<exists>bs. b64_decode b s = Some bs \<and> length bs = 40))"
proof (intro conjI)
  show "cursor_decode b (cursor_encode b c) = Inr c"
    using assms by (rule cursor_decode_encode)
  show "settlement_cursor_decode b (settlement_cursor_encode b sc) = Inr sc"
    using assms by (simp add: settlement_cursor_decode_def settlement_cursor_encode_def base64_ok_def subslice_def)
qed (auto simp: cursor_decode_def settlement_cursor_decode_def bind_res_def ok_or_def split: option.splits)

text \<open>A stand-in engine: one character per byte.\<close>

definition sample_base64 :: base64 where
  "sample_base64 = \<lparr>b64_encode = map (\<lambda>b. char_of (unat b)), b64_decode = \<lambda>s. Some (map (\<lambda>c. word_of_nat (of_char c)) s)\<rparr>"

lemma sample_base64_ok: "base64_ok sample_base64"
proof -
  have "word_of_nat (of_char (char_of (unat b) :: char)) = b" for b :: u8
    using unat_u8_less [of b] by simp
  then show ?thesis by (simp add: base64_ok_def sample_base64_def comp_def)
qed

theorem cursor_roundtrip_witness:
  "cursor_decode sample_base64 (cursor_encode sample_base64
     \<lparr>cu_lock_height = 5, cu_lock_tx_id = filled 7, cu_output_index = 1\<rparr>) =
     Inr \<lparr>cu_lock_height = 5, cu_lock_tx_id = filled 7, cu_output_index = 1\<rparr>"
  by (rule cursor_roundtrip [OF sample_base64_ok, THEN conjunct1])


subsection \<open>One page\<close>

text \<open>
  \<^verbatim>\<open>sort_by\<close> is stable; descending is the same comparison reversed, still
  stable. The next cursor is read at \<^verbatim>\<open>rows[limit - 1]\<close>, which panics
  when \<open>limit\<close> is 0 and rows remain.
\<close>

definition sort_desc :: "('r \<Rightarrow> 'k::linorder) \<Rightarrow> 'r list \<Rightarrow> 'r list" where
  "sort_desc key rows = rev (sort_key key (rev rows))"

definition cut_page :: "('r \<Rightarrow> 'k) \<Rightarrow> nat \<Rightarrow> 'r list \<Rightarrow> ('r list \<times> 'k option) res" where
  "cut_page key limit rows =
     (if length rows > limit
      then (if limit = 0 then Inl Panic else Inr (take limit rows, Some (key (rows ! (limit - 1)))))
      else Inr (take limit rows, None))"

definition page_asc :: "('r \<Rightarrow> 'k::linorder) \<Rightarrow> nat \<Rightarrow> 'k option \<Rightarrow> 'r list \<Rightarrow> ('r list \<times> 'k option) res" where
  "page_asc key limit cursor rows =
     (let rows = sort_key key rows;
          rows = (case cursor of None \<Rightarrow> rows | Some c \<Rightarrow> filter (\<lambda>r. key r > c) rows)
      in cut_page key limit rows)"

definition page_desc :: "('r \<Rightarrow> 'k::linorder) \<Rightarrow> nat \<Rightarrow> 'k option \<Rightarrow> 'r list \<Rightarrow> ('r list \<times> 'k option) res" where
  "page_desc key limit cursor rows =
     (let rows = sort_desc key rows;
          rows = (case cursor of None \<Rightarrow> rows | Some c \<Rightarrow> filter (\<lambda>r. key r < c) rows)
      in cut_page key limit rows)"

lemma sort_desc_props:
  "set (sort_desc key rows) = set rows" "length (sort_desc key rows) = length rows"
  "sorted_wrt (\<ge>) (map key (sort_desc key rows))"
  "distinct (map key rows) \<Longrightarrow> distinct (map key (sort_desc key rows))"
  by (simp_all add: sort_desc_def rev_map [symmetric] sorted_wrt_rev distinct_map)

lemma sort_desc_stable: "filter (\<lambda>r. key r = k) (sort_desc key rows) = filter (\<lambda>r. key r = k) rows"
  by (simp add: sort_desc_def rev_filter [symmetric] sort_key_stable)


subsection \<open>Following cursors\<close>

text \<open>A client that asks for page after page until no cursor comes back, with a bound on the pages.\<close>

fun walk_pages :: "('c option \<Rightarrow> ('r list \<times> 'c option) res) \<Rightarrow> nat \<Rightarrow> 'c option \<Rightarrow> 'r list res" where
  "walk_pages q 0 c = Inl (Fail (Internal ''out of fuel''))"
| "walk_pages q (Suc n) c =
     bind_res (q c) (\<lambda>(rows, next). case next of
         None \<Rightarrow> Inr rows
       | Some c' \<Rightarrow> bind_res (walk_pages q n (Some c')) (\<lambda>rest. Inr (rows @ rest)))"

text \<open>
  What the walk relies on: the pages are cut from a list (of the kind \<open>listed\<close>) on which
  a cursor at a row leaves exactly the rows behind it.
\<close>

locale pager =
  fixes key :: "'r \<Rightarrow> 'k"
    and beyond :: "'k \<Rightarrow> 'k \<Rightarrow> bool"
    and listed :: "'r list \<Rightarrow> bool"
  assumes beyond_split: "listed (xs @ y # ys) \<Longrightarrow> filter (\<lambda>r. beyond (key y) (key r)) (xs @ y # ys) = ys"
begin

lemma walk_from:
  assumes "listed rows" "0 < limit" "rows = xs @ ys" "length ys < n"
    and "left = (case c of None \<Rightarrow> rows | Some c \<Rightarrow> filter (\<lambda>r. beyond c (key r)) rows)" "left = ys"
  shows "walk_pages (\<lambda>c. cut_page key limit (case c of None \<Rightarrow> rows | Some c \<Rightarrow> filter (\<lambda>r. beyond c (key r)) rows)) n c =
    Inr ys"
  using assms
proof (induction n arbitrary: xs ys c left)
  case (Suc n)
  show ?case
  proof (cases "length ys > limit")
    case False
    then show ?thesis using Suc.prems by (simp add: cut_page_def)
  next
    case True
    let ?y = "ys ! (limit - 1)" and ?zs = "drop limit ys"
    have ys: "ys = take (limit - 1) ys @ ?y # ?zs"
      using True \<open>0 < limit\<close> id_take_nth_drop [of "limit - 1" ys] by simp
    then have "rows = (xs @ take (limit - 1) ys) @ ?y # ?zs"
      using \<open>rows = xs @ ys\<close> by simp
    then have rest: "filter (\<lambda>r. beyond (key ?y) (key r)) rows = ?zs"
      using beyond_split [of "xs @ take (limit - 1) ys" ?y ?zs] Suc.prems(1) by simp
    have split: "rows = (xs @ take limit ys) @ ?zs"
      using \<open>rows = xs @ ys\<close> by simp
    have "length ?zs < n"
      using Suc.prems(2,4) True by simp
    with Suc.prems(1,2) split have "walk_pages (\<lambda>c. cut_page key limit (case c of None \<Rightarrow> rows | Some c \<Rightarrow> filter (\<lambda>r. beyond c (key r)) rows)) n
        (Some (key ?y)) = Inr ?zs"
      by (rule Suc.IH [OF _ _ _ _ refl]) (simp only: option.case rest)
    then show ?thesis
      using Suc.prems True by (simp add: cut_page_def)
  qed
qed simp

text \<open>With enough pages the walk returns all rows, each once, in order.\<close>

lemma walk_all:
  assumes "listed rows" "0 < limit" "length rows < n"
  shows "walk_pages (\<lambda>c. cut_page key limit (case c of None \<Rightarrow> rows | Some c \<Rightarrow> filter (\<lambda>r. beyond c (key r)) rows)) n None =
    Inr rows"
  by (rule walk_from [where xs = "[]" and c = None, OF assms(1,2) _ assms(3) refl]) simp_all

end

lemma filter_beyond_asc:
  fixes key :: "'r \<Rightarrow> 'k::linorder"
  assumes "sorted_wrt (<) (map key (xs @ y # ys))"
  shows "filter (\<lambda>r. key y < key r) (xs @ y # ys) = ys"
  using assms by (auto simp: sorted_wrt_append sorted_wrt_map filter_empty_conv filter_id_conv less_not_sym
      intro: filter_True)

lemma filter_beyond_desc:
  fixes key :: "'r \<Rightarrow> 'k::linorder"
  assumes "sorted_wrt (>) (map key (xs @ y # ys))"
  shows "filter (\<lambda>r. key r < key y) (xs @ y # ys) = ys"
  using assms by (auto simp: sorted_wrt_append sorted_wrt_map filter_empty_conv filter_id_conv less_not_sym
      intro: filter_True)

lemma strict_sort_key: "distinct (map key rows) \<Longrightarrow> sorted_wrt (<) (map key (sort_key key rows))"
  for key :: "'r \<Rightarrow> 'k::linorder"
  by (simp add: strict_sorted_iff distinct_map)

text \<open>Rows with strictly ascending keys, and with strictly descending keys, are such lists.\<close>

interpretation asc_pages: pager key "(<)" "\<lambda>rows. sorted_wrt (<) (map key rows)" for key :: "'r \<Rightarrow> 'k::linorder"
  by unfold_locales (rule filter_beyond_asc)

interpretation desc_pages: pager key "\<lambda>c k. k < c" "\<lambda>rows. sorted_wrt (>) (map key rows)" for key :: "'r \<Rightarrow> 'k::linorder"
  by unfold_locales (rule filter_beyond_desc)

lemma walk_page_asc:
  assumes "distinct (map key rows)" "0 < limit" "length rows < n"
  shows "walk_pages (\<lambda>c. page_asc key limit c rows) n None = Inr (sort_key key rows)"
  using asc_pages.walk_all [of key "sort_key key rows" limit n] assms
  by (simp add: page_asc_def Let_def strict_sort_key)

lemma strict_sort_desc: "distinct (map key rows) \<Longrightarrow> sorted_wrt (>) (map key (sort_desc key rows))"
  for key :: "'r \<Rightarrow> 'k::linorder"
  using strict_sort_key [of key "rev rows"] by (simp add: sort_desc_def rev_map [symmetric] sorted_wrt_rev)

lemma walk_page_desc:
  assumes "distinct (map key rows)" "0 < limit" "length rows < n"
  shows "walk_pages (\<lambda>c. page_desc key limit c rows) n None = Inr (sort_desc key rows)"
  using desc_pages.walk_all [of key "sort_desc key rows" limit n] assms
  by (simp add: page_desc_def Let_def strict_sort_desc sort_desc_props)

text \<open>One page, in words: the first rows beyond the cursor, and a cursor exactly when rows are left.\<close>

lemma cut_page_Inr:
  assumes "0 < limit"
  shows "cut_page key limit rows = Inr (take limit rows,
    if length rows > limit then Some (key (last (take limit rows))) else None)"
proof -
  have "last (take limit rows) = rows ! (limit - 1)" if "limit < length rows"
    using assms that by (subst last_conv_nth) (auto simp: min_def)
  then show ?thesis using assms by (simp add: cut_page_def)
qed

lemma cut_page_Panic: "cut_page key limit rows = Inl e \<longleftrightarrow> limit = 0 \<and> rows \<noteq> [] \<and> e = Panic"
  by (auto simp: cut_page_def)

lemma distinct_map_filter_list: "distinct (map key rows) \<Longrightarrow> distinct (map key (filter P rows))"
  by (induction rows) auto

text \<open>From a cursor on, a walk returns only rows beyond it.\<close>

lemma walk_beyond:
  assumes "\<And>x y z. beyond x y \<Longrightarrow> beyond y z \<Longrightarrow> beyond x z"
    and "\<And>c page nxt. q (Some c) = Inr (page, nxt) \<Longrightarrow>
      list_all (\<lambda>r. beyond c (key r)) page \<and> (case nxt of None \<Rightarrow> True | Some c' \<Rightarrow> beyond c c')"
  shows "walk_pages q n (Some c) = Inr rest \<Longrightarrow> list_all (\<lambda>r. beyond c (key r)) rest"
proof (induction n arbitrary: c rest)
  case (Suc n)
  from Suc.prems obtain page nxt where page: "q (Some c) = Inr (page, nxt)"
    by (auto simp: bind_res_def split: sum.splits)
  note step = assms(2) [OF page]
  show ?case
  proof (cases nxt)
    case None
    then show ?thesis using Suc.prems page step by simp
  next
    case (Some c')
    with Suc.prems page obtain rest' where rest': "walk_pages q n (Some c') = Inr rest'" "rest = page @ rest'"
      by (auto simp: bind_res_def split: sum.splits)
    from Suc.IH [OF rest'(1)] have "list_all (\<lambda>r. beyond c (key r)) rest'"
      using step assms(1) [of c c'] by (auto simp: list_all_iff Some)
    with step rest'(2) show ?thesis by simp
  qed
qed simp

lemma cut_page_beyond:
  assumes "cut_page key limit rows = Inr (page, nxt)" "list_all P rows"
  shows "list_all P page \<and> (case nxt of None \<Rightarrow> True | Some c \<Rightarrow> \<exists>r. r \<in> set page \<and> P r \<and> c = key r)"
proof (cases "length rows > limit")
  case True
  then have cut: "limit \<noteq> 0" "page = take limit rows" "nxt = Some (key (rows ! (limit - 1)))"
    using assms(1) by (auto simp: cut_page_def split: if_splits)
  then have "rows ! (limit - 1) \<in> set page"
    using True nth_mem [of "limit - 1" "take limit rows"] by simp
  moreover have "list_all P page"
    using assms(2) cut(2) by (auto simp: list_all_iff dest: in_set_takeD)
  ultimately show ?thesis using cut(3) by (auto simp: list_all_iff)
next
  case False
  then show ?thesis using assms by (simp add: cut_page_def split: if_splits)
qed

lemma page_asc_beyond:
  assumes "page_asc key limit (Some c) rows = Inr (page, nxt)"
  shows "list_all (\<lambda>r. c < key r) page \<and> (case nxt of None \<Rightarrow> True | Some c' \<Rightarrow> c < c')"
  using cut_page_beyond [OF assms [unfolded page_asc_def Let_def option.case], of "\<lambda>r. c < key r"]
  by (auto simp: list_all_iff split: option.splits)

lemma page_desc_beyond:
  assumes "page_desc key limit (Some c) rows = Inr (page, nxt)"
  shows "list_all (\<lambda>r. key r < c) page \<and> (case nxt of None \<Rightarrow> True | Some c' \<Rightarrow> c' < c)"
  using cut_page_beyond [OF assms [unfolded page_desc_def Let_def option.case], of "\<lambda>r. key r < c"]
  by (auto simp: list_all_iff split: option.splits)

lemma cut_page_next: "cut_page key limit rows = Inr (page, Some c) \<Longrightarrow> c = key (last page)"
  using cut_page_Inr [of limit key rows] by (cases "limit = 0") (auto simp: cut_page_def split: if_splits)

lemma page_next:
  "page_asc key limit cursor rows = Inr (page, Some c) \<Longrightarrow> c = key (last page)"
  "page_desc key limit cursor rows = Inr (page, Some c) \<Longrightarrow> c = key (last page)"
  unfolding page_asc_def page_desc_def Let_def by (erule cut_page_next)+

end
