(* ===== verification/SettlementQueries.thy ===== *)
theory SettlementQueries
  imports Sample Paging
begin

section \<open>Settlement queries (\<^verbatim>\<open>src/db/mod.rs\<close>, lines 127-151, 199-219, 619-829)\<close>

text \<open>
  The paged settlement list of an address and the two aggregates over its settlements: per
  contract, and per counterparty and contract. Counters and sums are u64 that wrap around, as
  in a release build. The aggregates walk the by-address index and read each row back
  through the contract-keyed table; a group's figures are shown to be those of the set of
  settlements the store holds for it.
\<close>

subsection \<open>Operations\<close>

definition settlement_range_for :: "32 bytes \<Rightarrow> 32 bytes option \<Rightarrow> u8 list \<times> u8 list" where
  "settlement_range_for address contract_hash =
     (case contract_hash of
        Some ch \<Rightarrow> (prefix_lo 104 (byte_list ch @ byte_list address), prefix_hi 104 (byte_list ch @ byte_list address))
      | None \<Rightarrow> (replicate 104 0, replicate 104 255))"

definition settlement_order :: "SettlementRecord \<Rightarrow> u64 \<times> 32 bytes" where
  "settlement_order s = (s_block_height s, s_tx_id s)"

definition settlement_cursor_of :: "u64 \<times> 32 bytes \<Rightarrow> SettlementCursor" where
  "settlement_cursor_of = (\<lambda>(h, t). \<lparr>sc_height = h, sc_tx_id = t\<rparr>)"

definition settlement_cursor_order :: "SettlementCursor \<Rightarrow> u64 \<times> 32 bytes" where
  "settlement_cursor_order c = (sc_height c, sc_tx_id c)"

definition settlement_rows ::
  "'b bincode \<Rightarrow> 'b db \<Rightarrow> 32 bytes \<Rightarrow> 32 bytes option \<Rightarrow> u64 option \<Rightarrow> SettlementRecord list res" where
  "settlement_rows B d address contract_hash since_height =
     (let (lo, hi) = settlement_range_for address contract_hash
      in collect_res (\<lambda>(k, v).
           bind_res (ok_or (de (cd_settlement B) v) (Storage ''decode settlement'')) (\<lambda>s.
             if s_observer_address s \<noteq> address then Inr None
             else case since_height of
                 Some h \<Rightarrow> Inr (if s_block_height s < h then None else Some s)
               | None \<Rightarrow> Inr (Some s)))
         (t_range (SETTLEMENT_BY_CONTRACT d) lo hi))"

definition list_settlements ::
  "'b bincode \<Rightarrow> 'b db \<Rightarrow> 32 bytes \<Rightarrow> 32 bytes option \<Rightarrow> u64 option \<Rightarrow> nat \<Rightarrow> SettlementCursor option \<Rightarrow>
   (SettlementRecord list \<times> SettlementCursor option) res" where
  "list_settlements B d address contract_hash since_height limit cursor =
     bind_res (settlement_rows B d address contract_hash since_height) (\<lambda>rows.
     bind_res (page_asc settlement_order limit (map_option settlement_cursor_order cursor) rows) (\<lambda>(rows, next).
       Inr (rows, map_option settlement_cursor_of next)))"

text \<open>
  The loop the two aggregates share: the keys of the by-address index, each turned into the
  contract-keyed key, whose row is read; a missing row is skipped.
\<close>

definition scan_observer ::
  "'b bincode \<Rightarrow> 'b db \<Rightarrow> 32 bytes \<Rightarrow> 32 bytes option \<Rightarrow> (32 bytes \<times> SettlementRecord) list res" where
  "scan_observer B d address contract_hash =
     (let p = byte_list address @ (case contract_hash of Some ch \<Rightarrow> byte_list ch | None \<Rightarrow> [])
      in collect_res (\<lambda>(k, _).
           if length k \<noteq> 104 then Inr None
           else bind_res (bind_res (slice_range 32 64 k) copy_from_slice) (\<lambda>contract.
             bind_res (slice_range 64 72 k) (\<lambda>height.
             bind_res (bind_res (slice_from 72 k) copy_from_slice) (\<lambda>tx :: 32 bytes.
             let contract_key = byte_list contract @ byte_list address @ height @ byte_list tx
             in bind_res (get_rec (cd_settlement B) ''decode settlement'' (SETTLEMENT_BY_CONTRACT d) contract_key) (\<lambda>r.
                  Inr (map_option (\<lambda>s. (contract, s)) r))))))
         (t_range (SETTLEMENT_BY_ADDRESS d) (prefix_lo 104 p) (prefix_hi 104 p)))"

text \<open>A \<^verbatim>\<open>BTreeMap\<close> filled through \<^verbatim>\<open>entry().or_insert_with()\<close>.\<close>

definition group_rows_by ::
  "('x \<Rightarrow> 'k) \<Rightarrow> ('x \<Rightarrow> 'a) \<Rightarrow> ('x \<Rightarrow> 'a \<Rightarrow> 'a) \<Rightarrow> 'x list \<Rightarrow> ('k, 'a) table" where
  "group_rows_by g fresh bump xs =
     fold (\<lambda>x acc. t_insert acc (g x) (bump x (case t_get acc (g x) of Some a \<Rightarrow> a | None \<Rightarrow> fresh x))) xs t_empty"

record ContractStats =
  cs_contract_hash :: "32 bytes"
  cs_total :: u64
  cs_succeeded :: u64
  cs_refunded :: u64
  cs_sum_settle_blocks :: u64
  cs_last_settled_at_height :: "u64 option"

definition fresh_stats :: "32 bytes \<times> SettlementRecord \<Rightarrow> ContractStats" where
  "fresh_stats = (\<lambda>(contract, s).
     \<lparr>cs_contract_hash = contract, cs_total = 0, cs_succeeded = 0, cs_refunded = 0, cs_sum_settle_blocks = 0,
      cs_last_settled_at_height = None\<rparr>)"

definition bump_stats :: "32 bytes \<times> SettlementRecord \<Rightarrow> ContractStats \<Rightarrow> ContractStats" where
  "bump_stats = (\<lambda>(contract, s) st.
     st\<lparr>cs_total := cs_total st + 1,
        cs_succeeded := (if s_outcome s = Claimed then cs_succeeded st + 1 else cs_succeeded st),
        cs_refunded := (if s_outcome s = Reclaimed then cs_refunded st + 1 else cs_refunded st),
        cs_sum_settle_blocks := cs_sum_settle_blocks st + s_block_height s,
        cs_last_settled_at_height :=
          Some (case cs_last_settled_at_height st of Some h \<Rightarrow> max h (s_block_height s) | None \<Rightarrow> s_block_height s)\<rparr>)"

definition contract_stats :: "'b bincode \<Rightarrow> 'b db \<Rightarrow> 32 bytes \<Rightarrow> 32 bytes option \<Rightarrow> ContractStats list res" where
  "contract_stats B d address contract_hash =
     bind_res (scan_observer B d address contract_hash) (\<lambda>rows.
       Inr (map snd (t_iter (group_rows_by fst fresh_stats bump_stats rows))))"

record AttestationEdge =
  ae_counterparty :: "32 bytes"
  ae_contract_hash :: "32 bytes"
  ae_total :: u64
  ae_succeeded :: u64
  ae_refunded :: u64
  ae_last_seen_height :: "u64 option"

definition fresh_edge :: "32 bytes \<times> SettlementRecord \<Rightarrow> AttestationEdge" where
  "fresh_edge = (\<lambda>(contract, s).
     \<lparr>ae_counterparty = s_counterparty s, ae_contract_hash = contract, ae_total = 0, ae_succeeded = 0, ae_refunded = 0,
      ae_last_seen_height = None\<rparr>)"

definition bump_edge :: "32 bytes \<times> SettlementRecord \<Rightarrow> AttestationEdge \<Rightarrow> AttestationEdge" where
  "bump_edge = (\<lambda>(contract, s) e.
     e\<lparr>ae_total := ae_total e + 1,
       ae_succeeded := (if s_outcome s = Claimed then ae_succeeded e + 1 else ae_succeeded e),
       ae_refunded := (if s_outcome s = Reclaimed then ae_refunded e + 1 else ae_refunded e),
       ae_last_seen_height :=
         Some (case ae_last_seen_height e of Some h \<Rightarrow> max h (s_block_height s) | None \<Rightarrow> s_block_height s)\<rparr>)"

definition attestation_edges :: "'b bincode \<Rightarrow> 'b db \<Rightarrow> 32 bytes \<Rightarrow> 32 bytes option \<Rightarrow> AttestationEdge list res" where
  "attestation_edges B d address contract_hash =
     bind_res (scan_observer B d address contract_hash) (\<lambda>rows.
       Inr (map snd (t_iter (group_rows_by (\<lambda>(contract, s). (s_counterparty s, contract)) fresh_edge bump_edge rows))))"


subsection \<open>The rows of an address\<close>

text \<open>The settlements the store holds for an observer, all or of one contract.\<close>

definition settlements_of :: "StoreView \<Rightarrow> 32 bytes \<Rightarrow> 32 bytes option \<Rightarrow> SettlementRecord set" where
  "settlements_of A address contract_hash =
     {s. av_settlements A (s_contract_hash s, s_observer_address s, s_block_height s, s_tx_id s) = Some s \<and>
       s_observer_address s = address \<and> (case contract_hash of None \<Rightarrow> True | Some ch \<Rightarrow> s_contract_hash s = ch)}"

definition settlement_key_of :: "SettlementRecord \<Rightarrow> u8 list" where
  "settlement_key_of s = settlement_by_contract_key (s_contract_hash s) (s_observer_address s) (s_block_height s) (s_tx_id s)"

lemma db_ok_settlement_at:
  "db_ok B d \<Longrightarrow> av_settlements (view B d) x = Some s \<Longrightarrow>
     x = (s_contract_hash s, s_observer_address s, s_block_height s, s_tx_id s)"
  by (cases x) (simp add: view_simps settlements_ok_def)

lemma db_ok_settlements:
  assumes "db_ok B d"
  shows "stored (cd_settlement B) settlement_row_key (SETTLEMENT_BY_CONTRACT d)"
    and "indexed observer_idx (SETTLEMENT_BY_ADDRESS d) (av_settlements (view B d))"
  using assms by (simp_all add: view_simps settlements_ok_def)

text \<open>The rows of a key range, decoded.\<close>

lemma range_rows:
  assumes "db_ok B d" "(k, b) \<in> set (t_range (SETTLEMENT_BY_CONTRACT d) lo hi)"
  obtains s where "de (cd_settlement B) b = Some s" "k = settlement_key_of s"
    "av_settlements (view B d) (s_contract_hash s, s_observer_address s, s_block_height s, s_tx_id s) = Some s"
    "lo \<le> k" "k \<le> hi"
proof -
  have "(k, b) \<in> set (t_iter (SETTLEMENT_BY_CONTRACT d))" and bounds: "lo \<le> k" "k \<le> hi"
    using assms(2) by (simp_all add: redb.range_iff redb.iter_iff)
  from stored_iterE [OF db_ok_settlements(1) [OF assms(1)] this(1)] obtain x s where
    x: "k = settlement_row_key x" "rows (cd_settlement B) settlement_row_key (SETTLEMENT_BY_CONTRACT d) x = Some s"
    "de (cd_settlement B) b = Some s" by blast
  then have v: "av_settlements (view B d) x = Some s" by (simp add: view_def)
  note at = db_ok_settlement_at [OF assms(1) v]
  show ?thesis
    using that [of s] x v bounds by (simp add: at settlement_key_of_def)
qed

lemma settlement_range_for_iff:
  "length k = 104 \<Longrightarrow> settlement_range_for address ch = (lo, hi) \<Longrightarrow>
     lo \<le> k \<and> k \<le> hi \<longleftrightarrow> (case ch of None \<Rightarrow> True | Some c \<Rightarrow> take 64 k = byte_list c @ byte_list address)"
  using prefix_bounds_iff [of k 104 "[]"] prefix_bounds_iff [of k 104 "byte_list (the ch) @ byte_list address"]
  by (auto simp: settlement_range_for_def prefix_lo_def prefix_hi_def split: option.splits)

lemma settlement_key_parts [simp]:
  "length (settlement_key_of s) = 104"
  "take 64 (settlement_key_of s) = byte_list (s_contract_hash s) @ byte_list (s_observer_address s)"
  by (simp_all add: settlement_key_of_def settlement_by_contract_key_def)

text \<open>The settlement list is over exactly the settlements of the address, none older than asked for.\<close>

lemma settlement_rows_set:
  assumes "db_ok B d"
  obtains ss where "settlement_rows B d address ch since = Inr ss" "distinct ss"
    "set ss = {s. s \<in> settlements_of (view B d) address ch \<and> (case since of None \<Rightarrow> True | Some h \<Rightarrow> h \<le> s_block_height s)}"
proof -
  obtain lo hi where lohi: "settlement_range_for address ch = (lo, hi)" by force
  let ?R = "t_range (SETTLEMENT_BY_CONTRACT d) lo hi"
  let ?keep = "\<lambda>s. s_observer_address s = address \<and> (case since of None \<Rightarrow> True | Some h \<Rightarrow> h \<le> s_block_height s)"
  define pick where "pick = (\<lambda>(k :: u8 list, b). case de (cd_settlement B) b of Some s \<Rightarrow> if ?keep s then Some s else None | None \<Rightarrow> None)"
  let ?ss = "List.map_filter pick ?R"
  have "settlement_rows B d address ch since = Inr ?ss"
    unfolding settlement_rows_def lohi prod.case Let_def
  proof (rule collect_res_total)
    fix kb assume kb: "kb \<in> set ?R"
    obtain k b where kb': "kb = (k, b)" by force
    from range_rows [OF assms kb [unfolded kb']] obtain s where "de (cd_settlement B) b = Some s" by blast
    then show "(case kb of (k, v) \<Rightarrow> bind_res (ok_or (de (cd_settlement B) v) (Storage ''decode settlement'')) (\<lambda>s.
             if s_observer_address s \<noteq> address then Inr None
             else case since of Some h \<Rightarrow> Inr (if s_block_height s < h then None else Some s) | None \<Rightarrow> Inr (Some s))) =
        Inr (pick kb)"
      by (auto simp: kb' pick_def split: option.splits)
  qed
  moreover have "set ?ss = {s. s \<in> settlements_of (view B d) address ch \<and> (case since of None \<Rightarrow> True | Some h \<Rightarrow> h \<le> s_block_height s)}"
  proof (intro set_eqI iffI)
    fix s assume "s \<in> set ?ss"
    then obtain k b where kb: "(k, b) \<in> set ?R" "de (cd_settlement B) b = Some s" "?keep s"
      by (auto simp: in_map_filter_iff pick_def split: option.splits if_splits)
    have s: "k = settlement_key_of s" "lo \<le> k" "k \<le> hi"
      "av_settlements (view B d) (s_contract_hash s, s_observer_address s, s_block_height s, s_tx_id s) = Some s"
      by (rule range_rows [OF assms kb(1)], simp add: kb(2))+
    have "case ch of None \<Rightarrow> True | Some c \<Rightarrow> s_contract_hash s = c"
      using settlement_range_for_iff [OF _ lohi, of k] s(1,2,3) by (auto split: option.splits)
    then show "s \<in> {s. s \<in> settlements_of (view B d) address ch \<and> (case since of None \<Rightarrow> True | Some h \<Rightarrow> h \<le> s_block_height s)}"
      using kb(3) s(4) by (auto simp: settlements_of_def)
  next
    fix s assume "s \<in> {s. s \<in> settlements_of (view B d) address ch \<and> (case since of None \<Rightarrow> True | Some h \<Rightarrow> h \<le> s_block_height s)}"
    then have s: "av_settlements (view B d) (s_contract_hash s, s_observer_address s, s_block_height s, s_tx_id s) = Some s"
      "?keep s" "case ch of None \<Rightarrow> True | Some c \<Rightarrow> s_contract_hash s = c"
      by (auto simp: settlements_of_def)
    then have "rows (cd_settlement B) settlement_row_key (SETTLEMENT_BY_CONTRACT d)
        (s_contract_hash s, s_observer_address s, s_block_height s, s_tx_id s) = Some s"
      by (simp add: view_def)
    from stored_rowE [OF this] obtain b where b: "(settlement_key_of s, b) \<in> set (t_iter (SETTLEMENT_BY_CONTRACT d))"
      "de (cd_settlement B) b = Some s" by (auto simp: settlement_key_of_def)
    have "lo \<le> settlement_key_of s \<and> settlement_key_of s \<le> hi"
      using settlement_range_for_iff [OF _ lohi, of "settlement_key_of s"] s(2,3) by (auto split: option.splits)
    then have "(settlement_key_of s, b) \<in> set ?R"
      using b(1) by (simp add: redb.range_iff redb.iter_iff)
    moreover have "pick (settlement_key_of s, b) = Some s" using b(2) s(2) by (simp add: pick_def)
    ultimately show "s \<in> set ?ss" unfolding in_map_filter_iff by blast
  qed
  moreover have "distinct ?ss"
  proof -
    have "distinct (map fst ?R)"
      using redb.range_sorted [of "SETTLEMENT_BY_CONTRACT d" lo hi] by (simp add: strict_sorted_iff)
    then have "distinct (map settlement_key_of ?ss)"
    proof (rule distinct_map_filter, intro ballI allI impI)
      fix kb s assume kb: "kb \<in> set ?R" "pick kb = Some s"
      obtain k b where kb': "kb = (k, b)" by force
      obtain s' where "de (cd_settlement B) b = Some s'" "k = settlement_key_of s'"
        by (rule range_rows [OF assms kb(1) [unfolded kb']])
      with kb(2) show "settlement_key_of s = fst kb"
        by (simp add: kb' pick_def split: if_splits)
    qed
    then show ?thesis by (simp add: distinct_map)
  qed
  ultimately show ?thesis using that by blast
qed


lemma settlement_cursor_order_of [simp]: "settlement_cursor_order (settlement_cursor_of k) = k"
  by (cases k) (simp add: settlement_cursor_order_def settlement_cursor_of_def)

lemma walk_list_settlements:
  assumes "settlement_rows B d address ch since = Inr ss"
  shows "walk_pages (list_settlements B d address ch since limit) n c =
    walk_pages (\<lambda>c. page_asc settlement_order limit c ss) n (map_option settlement_cursor_order c)"
proof (induction n arbitrary: c)
  case (Suc n)
  then show ?case
    by (auto simp: list_settlements_def assms bind_res_def split: sum.splits option.splits)
qed simp

lemma settlements_of_at:
  "s \<in> settlements_of A address (Some ch) \<Longrightarrow> av_settlements A (ch, address, s_block_height s, s_tx_id s) = Some s"
  by (auto simp: settlements_of_def)

text \<open>Under one contract no two settlements of an address share their place in the order.\<close>

lemma settlement_rows_distinct:
  assumes "db_ok B d"
  obtains ss where "settlement_rows B d address (Some ch) since = Inr ss" "distinct (map settlement_order ss)" "distinct ss"
    "set ss = {s. s \<in> settlements_of (view B d) address (Some ch) \<and> (case since of None \<Rightarrow> True | Some h \<Rightarrow> h \<le> s_block_height s)}"
proof -
  obtain ss where ss: "settlement_rows B d address (Some ch) since = Inr ss" "distinct ss"
    "set ss = {s. s \<in> settlements_of (view B d) address (Some ch) \<and> (case since of None \<Rightarrow> True | Some h \<Rightarrow> h \<le> s_block_height s)}"
    by (rule settlement_rows_set [OF assms])
  have "inj_on settlement_order (set ss)"
  proof (rule inj_onI)
    fix s s' assume s: "s \<in> set ss" "s' \<in> set ss" "settlement_order s = settlement_order s'"
    then have in_ss: "s \<in> settlements_of (view B d) address (Some ch)" "s' \<in> settlements_of (view B d) address (Some ch)"
      unfolding ss(3) by blast+
    have "s_block_height s' = s_block_height s" "s_tx_id s' = s_tx_id s"
      using s(3) by (simp_all add: settlement_order_def)
    then have "Some s = Some s'"
      using settlements_of_at [OF in_ss(1)] settlements_of_at [OF in_ss(2)] by metis
    then show "s = s'" by simp
  qed
  with ss that show ?thesis by (simp add: distinct_map)
qed

text \<open>For one contract, paging through the settlements of an address loses and repeats nothing: for any
  positive page size, following the cursors gives every settlement of that address and
  contract not older than asked for exactly once, in ascending order of (height, transaction
  id).\<close>

theorem list_settlements_pages_complete:
  assumes "db_ok B d" "0 < limit"
    and "card {s. s \<in> settlements_of (view B d) address (Some ch) \<and>
      (case since of None \<Rightarrow> True | Some h \<Rightarrow> h \<le> s_block_height s)} < n"
  shows "\<exists>all. walk_pages (list_settlements B d address (Some ch) since limit) n None = Inr all \<and>
    sorted_wrt (<) (map settlement_order all) \<and>
    set all = {s. s \<in> settlements_of (view B d) address (Some ch) \<and>
      (case since of None \<Rightarrow> True | Some h \<Rightarrow> h \<le> s_block_height s)}"
proof -
  obtain ss where ss: "settlement_rows B d address (Some ch) since = Inr ss" "distinct (map settlement_order ss)" "distinct ss"
    "set ss = {s. s \<in> settlements_of (view B d) address (Some ch) \<and> (case since of None \<Rightarrow> True | Some h \<Rightarrow> h \<le> s_block_height s)}"
    by (rule settlement_rows_distinct [OF assms(1)])
  have "length ss < n"
    using assms(3) distinct_card [OF ss(3)] by (simp only: ss(4))
  then have "walk_pages (list_settlements B d address (Some ch) since limit) n None = Inr (sort_key settlement_order ss)"
    unfolding walk_list_settlements [OF ss(1)] option.map by (rule walk_page_asc [OF ss(2) assms(2)])
  then show ?thesis
    using strict_sort_key [OF ss(2)] ss(4) by (intro exI [of _ "sort_key settlement_order ss"]) simp
qed

lemma sample_settled_db:
  obtains d where "apply_blocks sample_bincode [lock_block, claim_block] open_all_tables = Inr d" "db_ok sample_bincode d"
    "av_settlements (view sample_bincode d) = [(filled 8, filled 10, 6, filled 4) \<mapsto> sample_settlement]"
proof -
  obtain d where d: "apply_blocks sample_bincode [lock_block, claim_block] open_all_tables = Inr d" "db_ok sample_bincode d"
    "view sample_bincode d = fold spec_apply [lock_block, claim_block] (view sample_bincode open_all_tables)"
    by (rule simE [OF apply_blocks_refines [OF sample_bincode_ok] db_ok_open_all_tables sample_chain_consistent(1)])
  have "av_settlements (view sample_bincode d) = [(filled 8, filled 10, 6, filled 4) \<mapsto> sample_settlement]"
    unfolding d(3) fold_simps spec_apply_fields by (simp add: written_def sample_defs)
  with d show ?thesis using that by blast
qed

lemma sample_settlements_of:
  assumes "av_settlements (view sample_bincode d) = [(filled 8, filled 10, 6, filled 4) \<mapsto> sample_settlement]"
  shows "settlements_of (view sample_bincode d) (filled 10) (Some (filled 8)) = {sample_settlement}"
    "settlements_of (view sample_bincode d) (filled 10) None = {sample_settlement}"
  unfolding settlements_of_def assms by (auto simp: sample_settlement_def)

theorem list_settlements_pages_complete_witness:
  "\<exists>d all. apply_blocks sample_bincode [lock_block, claim_block] open_all_tables = Inr d \<and>
     walk_pages (list_settlements sample_bincode d (filled 10) (Some (filled 8)) None 1) 2 None = Inr all \<and>
     set all = {sample_settlement}"
proof -
  obtain d where d: "apply_blocks sample_bincode [lock_block, claim_block] open_all_tables = Inr d" "db_ok sample_bincode d"
    "av_settlements (view sample_bincode d) = [(filled 8, filled 10, 6, filled 4) \<mapsto> sample_settlement]"
    by (rule sample_settled_db)
  from list_settlements_pages_complete [OF d(2), of 1 "filled 10" "filled 8" None 2] d(1) show ?thesis
    by (auto simp: sample_settlements_of [OF d(3)])
qed


subsection \<open>The aggregates\<close>

lemma observer_key_parts [simp]:
  "Bytes (subslice 32 64 (settlement_by_address_key a c h t)) = c"
  "byte_list c' @ byte_list a' @ subslice 64 72 (settlement_by_address_key a c h t) @ drop 72 (settlement_by_address_key a c h t) =
     settlement_by_contract_key c' a' h t"
  "take 32 (settlement_by_address_key a c h t) = byte_list a"
  "take 64 (settlement_by_address_key a c h t) = byte_list a @ byte_list c"
  by (simp_all add: key_defs subslice_def)

lemma scan_observer_set:
  assumes "db_ok B d"
  obtains xs where "scan_observer B d address ch = Inr xs" "distinct xs"
    "set xs = (\<lambda>s. (s_contract_hash s, s)) ` settlements_of (view B d) address ch"
proof -
  define p where "p = byte_list address @ (case ch of Some c \<Rightarrow> byte_list c | None \<Rightarrow> [])"
  let ?R = "t_range (SETTLEMENT_BY_ADDRESS d) (prefix_lo 104 p) (prefix_hi 104 p)"
  let ?m = "av_settlements (view B d)"
  have len: "length p \<le> 104" by (simp add: p_def split: option.splits)
  have pre: "take (length p) (settlement_by_address_key a c h t) = p \<longleftrightarrow>
      a = address \<and> (case ch of None \<Rightarrow> True | Some c' \<Rightarrow> c = c')" for a c h t
    by (auto simp: p_def split: option.splits)
  have present: "t_get (SETTLEMENT_BY_ADDRESS d) k \<noteq> None \<longleftrightarrow>
      (\<exists>c a h t s. k = settlement_by_address_key a c h t \<and> ?m (c, a, h, t) = Some s)" for k
  proof -
    have "t_get (SETTLEMENT_BY_ADDRESS d) k \<noteq> None \<longleftrightarrow> t_get (SETTLEMENT_BY_ADDRESS d) k = Some ()" by auto
    then show ?thesis
      unfolding indexedD [OF db_ok_settlements(2) [OF assms], of k] by auto
  qed
  have mem: "k \<in> set (map fst ?R) \<longleftrightarrow> (\<exists>c h t s. k = settlement_by_address_key address c h t \<and>
      ?m (c, address, h, t) = Some s \<and> (case ch of None \<Rightarrow> True | Some c' \<Rightarrow> c = c'))" for k
  proof -
    have "k \<in> set (map fst ?R) \<longleftrightarrow> (\<exists>c a h t s. k = settlement_by_address_key a c h t \<and> ?m (c, a, h, t) = Some s \<and>
        take (length p) k = p)"
      unfolding redb.in_range_keys present using prefix_bounds_iff [of k 104 p] len by auto
    then show ?thesis using pre by auto
  qed
  define pick where "pick = (\<lambda>(k :: u8 list, v :: unit). map_option (\<lambda>s. (Bytes (subslice 32 64 k) :: 32 bytes, s))
      (t_recs (cd_settlement B) (SETTLEMENT_BY_CONTRACT d) (byte_list (Bytes (subslice 32 64 k) :: 32 bytes) @ byte_list address @ subslice 64 72 k @ drop 72 k)))"
  have at_key: "pick (settlement_by_address_key address c h t, v) = Some (c, s)" if "?m (c, address, h, t) = Some s" for c h t v s
    using that by (simp add: pick_def view_def rows_def)
  let ?xs = "List.map_filter pick ?R"
  have enc: "encoded (cd_settlement B) (SETTLEMENT_BY_CONTRACT d)"
    using db_ok_settlements(1) [OF assms] by (simp add: stored_def)
  have "scan_observer B d address ch = Inr ?xs"
    unfolding scan_observer_def p_def [symmetric] Let_def
  proof (rule collect_res_total)
    fix kv assume kv: "kv \<in> set ?R"
    obtain k where kv': "kv = (k, ())" by (cases kv) auto
    have "k \<in> set (map fst ?R)" using kv kv' by force
    then have "length k = 104" unfolding mem by auto
    then show "(case kv of (k, _) \<Rightarrow> if length k \<noteq> 104 then Inr None
        else bind_res (bind_res (slice_range 32 64 k) copy_from_slice) (\<lambda>contract.
             bind_res (slice_range 64 72 k) (\<lambda>height.
             bind_res (bind_res (slice_from 72 k) copy_from_slice) (\<lambda>tx :: 32 bytes.
             bind_res (get_rec (cd_settlement B) ''decode settlement'' (SETTLEMENT_BY_CONTRACT d)
               (byte_list contract @ byte_list address @ height @ byte_list tx)) (\<lambda>r.
             Inr (map_option (\<lambda>s. (contract, s)) r)))))) = Inr (pick kv)"
      by (simp add: kv' pick_def get_rec_encoded [OF enc])
  qed
  moreover have "set ?xs = (\<lambda>s. (s_contract_hash s, s)) ` settlements_of (view B d) address ch"
  proof (intro set_eqI iffI)
    fix y assume "y \<in> set ?xs"
    then obtain k v where k: "(k, v) \<in> set ?R" "pick (k, v) = Some y" by (auto simp: in_map_filter_iff)
    then have "k \<in> set (map fst ?R)" by force
    then obtain c h t s where s: "k = settlement_by_address_key address c h t" "?m (c, address, h, t) = Some s"
      "case ch of None \<Rightarrow> True | Some c' \<Rightarrow> c = c'" unfolding mem by blast
    then have "y = (c, s)" using k(2) at_key by simp
    moreover have "s \<in> settlements_of (view B d) address ch" "s_contract_hash s = c"
      using db_ok_settlement_at [OF assms s(2)] s by (auto simp: settlements_of_def)
    ultimately show "y \<in> (\<lambda>s. (s_contract_hash s, s)) ` settlements_of (view B d) address ch" by blast
  next
    fix y assume "y \<in> (\<lambda>s. (s_contract_hash s, s)) ` settlements_of (view B d) address ch"
    then obtain s where y: "y = (s_contract_hash s, s)" and s: "?m (s_contract_hash s, address, s_block_height s, s_tx_id s) = Some s"
      "case ch of None \<Rightarrow> True | Some c' \<Rightarrow> s_contract_hash s = c'"
      by (auto simp: settlements_of_def)
    let ?k = "settlement_by_address_key address (s_contract_hash s) (s_block_height s) (s_tx_id s)"
    have "?k \<in> set (map fst ?R)" unfolding mem using s by blast
    then obtain v where "(?k, v) \<in> set ?R" by auto
    then show "y \<in> set ?xs" unfolding in_map_filter_iff using at_key [OF s(1)] y by blast
  qed
  moreover have "distinct ?xs"
  proof -
    let ?key = "\<lambda>y. settlement_by_address_key address (fst y) (s_block_height (snd y)) (s_tx_id (snd y))"
    have "distinct (map fst ?R)"
      using redb.range_sorted [of "SETTLEMENT_BY_ADDRESS d"] by (simp add: strict_sorted_iff)
    then have "distinct (map ?key ?xs)"
    proof (rule distinct_map_filter, intro ballI allI impI)
      fix kv y assume kv: "kv \<in> set ?R" "pick kv = Some y"
      obtain k where kv': "kv = (k, ())" by (cases kv) auto
      have "k \<in> set (map fst ?R)" using kv(1) kv' by force
      then obtain c h t s where s: "k = settlement_by_address_key address c h t" "?m (c, address, h, t) = Some s"
        unfolding mem by blast
      then have "y = (c, s)" using kv(2) kv' at_key by simp
      then show "?key y = fst kv" using db_ok_settlement_at [OF assms s(2)] s(1) kv' by simp
    qed
    then show ?thesis by (simp add: distinct_map)
  qed
  ultimately show ?thesis using that by blast
qed

text \<open>What an accumulator holds for a key: the bumps of that key's rows, in order.\<close>

lemma group_rows_by_get:
  "t_get (group_rows_by g fresh bump xs) k =
     (case filter (\<lambda>x. g x = k) xs of [] \<Rightarrow> None | y # ys \<Rightarrow> Some (fold bump (y # ys) (fresh y)))"
proof (induction xs rule: rev_induct)
  case (snoc x xs)
  have "group_rows_by g fresh bump (xs @ [x]) =
      t_insert (group_rows_by g fresh bump xs) (g x)
        (bump x (case t_get (group_rows_by g fresh bump xs) (g x) of Some a \<Rightarrow> a | None \<Rightarrow> fresh x))"
    by (simp add: group_rows_by_def)
  with snoc show ?case by (auto split: list.splits)
qed (simp add: group_rows_by_def)

lemma group_rows_by_iter:
  "sorted_wrt (<) (map fst (t_iter (group_rows_by g fresh bump xs)))"
  "(k, a) \<in> set (t_iter (group_rows_by g fresh bump xs)) \<longleftrightarrow>
     (\<exists>y ys. filter (\<lambda>x. g x = k) xs = y # ys \<and> a = fold bump (y # ys) (fresh y))"
  by (rule redb.iter_sorted) (auto simp: redb.iter_iff group_rows_by_get split: list.splits)


text \<open>The counters of a group, over the list of its rows and over the set it stands for.\<close>

lemma fold_bump_stats:
  "cs_contract_hash (fold bump_stats ys st) = cs_contract_hash st"
  "cs_total (fold bump_stats ys st) = cs_total st + word_of_nat (length ys)"
  "cs_succeeded (fold bump_stats ys st) = cs_succeeded st + word_of_nat (length (filter (\<lambda>y. s_outcome (snd y) = Claimed) ys))"
  "cs_refunded (fold bump_stats ys st) = cs_refunded st + word_of_nat (length (filter (\<lambda>y. s_outcome (snd y) = Reclaimed) ys))"
  "cs_sum_settle_blocks (fold bump_stats ys st) = cs_sum_settle_blocks st + sum_list (map (\<lambda>y. s_block_height (snd y)) ys)"
  by (induction ys arbitrary: st) (auto simp: bump_stats_def case_prod_beta algebra_simps)

lemma fold_bump_edge:
  "ae_counterparty (fold bump_edge ys e) = ae_counterparty e" "ae_contract_hash (fold bump_edge ys e) = ae_contract_hash e"
  "ae_total (fold bump_edge ys e) = ae_total e + word_of_nat (length ys)"
  "ae_succeeded (fold bump_edge ys e) = ae_succeeded e + word_of_nat (length (filter (\<lambda>y. s_outcome (snd y) = Claimed) ys))"
  "ae_refunded (fold bump_edge ys e) = ae_refunded e + word_of_nat (length (filter (\<lambda>y. s_outcome (snd y) = Reclaimed) ys))"
  by (induction ys arbitrary: e) (auto simp: bump_edge_def case_prod_beta algebra_simps)

lemma fold_max_option:
  fixes h :: "'y \<Rightarrow> 'h::linorder"
  assumes "\<And>y a. last_of (bump y a) = Some (case last_of a of Some m \<Rightarrow> max m (h y) | None \<Rightarrow> h y)"
  shows "last_of (fold bump (y # ys) a) = Some (Max (h ` set (y # ys) \<union> set_option (last_of a)))"
proof (induction ys arbitrary: y a)
  case Nil
  then show ?case by (cases "last_of a") (simp_all add: assms max.commute)
next
  case (Cons y' ys)
  have "last_of (fold bump (y # y' # ys) a) = last_of (fold bump (y' # ys) (bump y a))" by simp
  also have "\<dots> = Some (Max (h ` set (y' # ys) \<union> set_option (last_of (bump y a))))" by (rule Cons.IH)
  also have "Max (h ` set (y' # ys) \<union> set_option (last_of (bump y a))) =
      Max (h ` set (y # y' # ys) \<union> set_option (last_of a))"
    by (cases "last_of a") (simp_all add: assms Max_insert2 Max.insert_not_elem max.assoc max.left_commute max.commute)
  finally show ?case .
qed

lemma pair_rows:
  assumes "distinct ys" "set ys = (\<lambda>s. (c s, s)) ` S"
  shows "finite S" "length ys = card S" "length (filter (\<lambda>y. P (snd y)) ys) = card {s \<in> S. P s}"
    and "sum_list (map (\<lambda>y. h (snd y)) ys) = (\<Sum>s\<in>S. h s)" "(\<lambda>y. h' (snd y)) ` set ys = h' ` S"
proof -
  have inj: "inj_on (\<lambda>s. (c s, s)) T" for T by (rule inj_onI) simp
  show "finite S" using finite_set [of ys] assms(2) finite_imageD [OF _ inj] by metis
  have card: "length zs = card T" if "distinct zs" "set zs = (\<lambda>s. (c s, s)) ` T" for zs T
    using distinct_card [OF that(1)] card_image [OF inj, of T] that(2) by simp
  show "length ys = card S" using card assms .
  have "set (filter (\<lambda>y. P (snd y)) ys) = (\<lambda>s. (c s, s)) ` {s \<in> S. P s}"
    using assms(2) by auto
  then show "length (filter (\<lambda>y. P (snd y)) ys) = card {s \<in> S. P s}"
    using assms(1) by (intro card) simp_all
  have "sum_list (map (\<lambda>y. h (snd y)) ys) = (\<Sum>y\<in>set ys. h (snd y))"
    by (rule sum_list_distinct_conv_sum_set [OF assms(1)])
  then show "sum_list (map (\<lambda>y. h (snd y)) ys) = (\<Sum>s\<in>S. h s)"
    unfolding assms(2) by (simp add: sum.reindex [OF inj])
  show "(\<lambda>y. h' (snd y)) ` set ys = h' ` S"
    unfolding assms(2) by (simp add: image_image)
qed

lemma fold_bump_stats_last:
  "cs_last_settled_at_height (fold bump_stats (y # ys) st) =
     Some (Max ((\<lambda>y. s_block_height (snd y)) ` set (y # ys) \<union> set_option (cs_last_settled_at_height st)))"
  by (rule fold_max_option) (simp add: bump_stats_def case_prod_beta)

lemma fold_bump_edge_last:
  "ae_last_seen_height (fold bump_edge (y # ys) e) =
     Some (Max ((\<lambda>y. s_block_height (snd y)) ` set (y # ys) \<union> set_option (ae_last_seen_height e)))"
  by (rule fold_max_option) (simp add: bump_edge_def case_prod_beta)

text \<open>What the figures of one contract should be, and those of one counterparty under a contract.\<close>

definition stats_of :: "SettlementRecord set \<Rightarrow> ContractStats \<Rightarrow> bool" where
  "stats_of S st \<longleftrightarrow>
     cs_total st = word_of_nat (card S) \<and>
     cs_succeeded st = word_of_nat (card {s \<in> S. s_outcome s = Claimed}) \<and>
     cs_refunded st = word_of_nat (card {s \<in> S. s_outcome s = Reclaimed}) \<and>
     cs_sum_settle_blocks st = (\<Sum>s\<in>S. s_block_height s) \<and>
     cs_last_settled_at_height st = Some (Max (s_block_height ` S))"

definition edge_of :: "SettlementRecord set \<Rightarrow> AttestationEdge \<Rightarrow> bool" where
  "edge_of S e \<longleftrightarrow>
     ae_total e = word_of_nat (card S) \<and>
     ae_succeeded e = word_of_nat (card {s \<in> S. s_outcome s = Claimed}) \<and>
     ae_refunded e = word_of_nat (card {s \<in> S. s_outcome s = Reclaimed}) \<and>
     ae_last_seen_height e = Some (Max (s_block_height ` S))"

lemma stats_of_fold:
  assumes "distinct zs" "set zs = (\<lambda>s. (c, s)) ` S" "zs \<noteq> []"
    and "cs_total st = 0" "cs_succeeded st = 0" "cs_refunded st = 0" "cs_sum_settle_blocks st = 0"
      "cs_last_settled_at_height st = None"
  shows "stats_of S (fold bump_stats zs st)"
proof -
  have "cs_last_settled_at_height (fold bump_stats zs st) = Some (Max (s_block_height ` S))"
    using assms(3,5-) fold_bump_stats_last [of "hd zs" "tl zs" st] by (simp add: pair_rows(5) [OF assms(1,2)])
  then show ?thesis
    using pair_rows(3) [OF assms(1,2), of "\<lambda>s. s_outcome s = Claimed"] pair_rows(3) [OF assms(1,2), of "\<lambda>s. s_outcome s = Reclaimed"]
    unfolding stats_of_def fold_bump_stats pair_rows(2,4) [OF assms(1,2)] assms(4-) by simp
qed

lemma edge_of_fold:
  assumes "distinct zs" "set zs = (\<lambda>s. (c, s)) ` S" "zs \<noteq> []"
    and "ae_total e = 0" "ae_succeeded e = 0" "ae_refunded e = 0" "ae_last_seen_height e = None"
  shows "edge_of S (fold bump_edge zs e)"
proof -
  have "ae_last_seen_height (fold bump_edge zs e) = Some (Max (s_block_height ` S))"
    using assms(3,5-) fold_bump_edge_last [of "hd zs" "tl zs" e] by (simp add: pair_rows(5) [OF assms(1,2)])
  then show ?thesis
    using pair_rows(3) [OF assms(1,2), of "\<lambda>s. s_outcome s = Claimed"] pair_rows(3) [OF assms(1,2), of "\<lambda>s. s_outcome s = Reclaimed"]
    unfolding edge_of_def fold_bump_edge pair_rows(2) [OF assms(1,2)] assms(4-) by simp
qed

lemma settlements_of_contract:
  "c \<in> s_contract_hash ` settlements_of A address ch \<Longrightarrow>
     {s \<in> settlements_of A address ch. s_contract_hash s = c} = settlements_of A address (Some c)"
  by (auto simp: settlements_of_def split: option.splits)

lemma contract_groups:
  assumes "db_ok B d"
  shows "\<exists>sts. contract_stats B d address ch = Inr sts \<and>
    sorted_wrt (<) (map cs_contract_hash sts) \<and>
    set (map cs_contract_hash sts) = s_contract_hash ` settlements_of (view B d) address ch \<and>
    list_all (\<lambda>st. stats_of (settlements_of (view B d) address (Some (cs_contract_hash st))) st) sts"
proof -
  obtain xs where xs: "scan_observer B d address ch = Inr xs" "distinct xs"
    "set xs = (\<lambda>s. (s_contract_hash s, s)) ` settlements_of (view B d) address ch"
    by (rule scan_observer_set [OF assms])
  let ?it = "t_iter (group_rows_by fst fresh_stats bump_stats xs)"
  have group: "cs_contract_hash st = c \<and> c \<in> s_contract_hash ` settlements_of (view B d) address ch \<and>
      stats_of (settlements_of (view B d) address (Some c)) st" if "(c, st) \<in> set ?it" for c st
  proof -
    let ?S = "settlements_of (view B d) address (Some c)"
    from that obtain y ys where ys: "filter (\<lambda>x. fst x = c) xs = y # ys" "st = fold bump_stats (y # ys) (fresh_stats y)"
      unfolding group_rows_by_iter by blast
    have y: "y \<in> set xs" "fst y = c"
      using arg_cong [OF ys(1), of set] by auto
    then have c: "c \<in> s_contract_hash ` settlements_of (view B d) address ch" using xs(3) by auto
    have "set (y # ys) = (\<lambda>s. (c, s)) ` ?S"
      unfolding ys(1) [symmetric] set_filter xs(3) settlements_of_contract [OF c, symmetric] by auto
    moreover have "distinct (y # ys)" using xs(2) ys(1) by (metis distinct_filter)
    ultimately have rows: "distinct (y # ys)" "set (y # ys) = (\<lambda>s. (c, s)) ` ?S" by blast+
    have fresh: "fresh_stats y = \<lparr>cs_contract_hash = c, cs_total = 0, cs_succeeded = 0, cs_refunded = 0,
        cs_sum_settle_blocks = 0, cs_last_settled_at_height = None\<rparr>"
      using y(2) by (simp add: fresh_stats_def case_prod_beta)
    have "cs_contract_hash st = c"
      unfolding ys(2) fold_bump_stats fresh by simp
    moreover have "stats_of ?S st"
      unfolding ys(2) by (rule stats_of_fold [OF rows]) (simp_all add: fresh)
    ultimately show ?thesis using c by blast
  qed
  have keys: "map cs_contract_hash (map snd ?it) = map fst ?it"
    using group by (auto simp: case_prod_beta)
  have "set (map fst ?it) = s_contract_hash ` settlements_of (view B d) address ch"
  proof (intro set_eqI iffI)
    fix c assume "c \<in> set (map fst ?it)"
    then obtain st where "(c, st) \<in> set ?it" by auto
    then show "c \<in> s_contract_hash ` settlements_of (view B d) address ch" using group by blast
  next
    fix c assume "c \<in> s_contract_hash ` settlements_of (view B d) address ch"
    then have "\<exists>x\<in>set xs. fst x = c" unfolding xs(3) by force
    then have "filter (\<lambda>x. fst x = c) xs \<noteq> []" by (auto simp: filter_empty_conv)
    then obtain y ys where "filter (\<lambda>x. fst x = c) xs = y # ys" by (cases "filter (\<lambda>x. fst x = c) xs") auto
    then have "(c, fold bump_stats (y # ys) (fresh_stats y)) \<in> set ?it" unfolding group_rows_by_iter by blast
    then show "c \<in> set (map fst ?it)" by force
  qed
  moreover have "list_all (\<lambda>st. stats_of (settlements_of (view B d) address (Some (cs_contract_hash st))) st) (map snd ?it)"
    using group by (auto simp: list_all_iff)
  ultimately show ?thesis
    using group_rows_by_iter(1) [of fst fresh_stats bump_stats xs]
    by (intro exI [of _ "map snd ?it"]) (simp only: contract_stats_def xs(1) bind_res_simps keys simp_thms)
qed


lemma finite_settlements_of: "db_ok B d \<Longrightarrow> finite (settlements_of (view B d) address ch)"
  using settlement_rows_set [of B d address ch None] by (metis (no_types, lifting) List.finite_set mem_Collect_eq option.case(1) finite_subset subsetI)

text \<open>C33: the contract statistics are exact: one row per contract the address has settled under (or the one
  asked for), in ascending order of contract hash, and each row counts the stored settlements
  of the address under that contract: how many, how many claimed, how many refunded, the sum
  of their heights (all modulo 2^64) and the greatest height.\<close>

theorem contract_stats_exact:
  assumes "db_ok B d"
  shows "\<exists>sts. contract_stats B d address ch = Inr sts \<and>
    sorted_wrt (<) (map cs_contract_hash sts) \<and>
    set (map cs_contract_hash sts) = s_contract_hash ` settlements_of (view B d) address ch \<and>
    list_all (\<lambda>st. stats_of (settlements_of (view B d) address (Some (cs_contract_hash st))) st) sts"
  by (rule contract_groups [OF assms])

theorem contract_stats_exact_witness:
  "\<exists>d sts. apply_blocks sample_bincode [lock_block, claim_block] open_all_tables = Inr d \<and>
     contract_stats sample_bincode d (filled 10) None = Inr sts \<and> map cs_contract_hash sts = [filled 8] \<and>
     map cs_total sts = [1]"
proof -
  obtain d where d: "apply_blocks sample_bincode [lock_block, claim_block] open_all_tables = Inr d" "db_ok sample_bincode d"
    "av_settlements (view sample_bincode d) = [(filled 8, filled 10, 6, filled 4) \<mapsto> sample_settlement]"
    by (rule sample_settled_db)
  from contract_stats_exact [OF d(2), of "filled 10" None] obtain sts where
    sts: "contract_stats sample_bincode d (filled 10) None = Inr sts" "sorted_wrt (<) (map cs_contract_hash sts)"
    "set (map cs_contract_hash sts) = {filled 8}"
    "list_all (\<lambda>st. stats_of (settlements_of (view sample_bincode d) (filled 10) (Some (cs_contract_hash st))) st) sts"
    unfolding sample_settlements_of(2) [OF d(3)] by (auto simp: sample_settlement_def)
  have "map cs_contract_hash sts = [filled 8]"
    using sts(2,3) strict_sorted_equal [of "map cs_contract_hash sts" "[filled 8]"] by simp
  moreover from this have "map cs_total sts = [1]"
    using sts(4) sample_settlements_of(1) [OF d(3)] by (auto simp: map_eq_Cons_conv stats_of_def)
  ultimately show ?thesis using d(1) sts(1) by (intro exI conjI)
qed

lemma attestation_groups:
  assumes "db_ok B d"
  obtains es where "attestation_edges B d address ch = Inr es"
    "sorted_wrt (<) (map (\<lambda>e. (ae_counterparty e, ae_contract_hash e)) es)"
    "set (map (\<lambda>e. (ae_counterparty e, ae_contract_hash e)) es) =
      (\<lambda>s. (s_counterparty s, s_contract_hash s)) ` settlements_of (view B d) address ch"
    "list_all (\<lambda>e. edge_of {s \<in> settlements_of (view B d) address (Some (ae_contract_hash e)).
      s_counterparty s = ae_counterparty e} e) es"
proof -
  obtain xs where xs: "scan_observer B d address ch = Inr xs" "distinct xs"
    "set xs = (\<lambda>s. (s_contract_hash s, s)) ` settlements_of (view B d) address ch"
    by (rule scan_observer_set [OF assms])
  let ?T = "settlements_of (view B d) address ch"
  let ?g = "\<lambda>(contract :: 32 bytes, s). (s_counterparty s, contract)"
  let ?it = "t_iter (group_rows_by ?g fresh_edge bump_edge xs)"
  have group: "(ae_counterparty e, ae_contract_hash e) = k \<and> k \<in> (\<lambda>s. (s_counterparty s, s_contract_hash s)) ` ?T \<and>
      edge_of {s \<in> settlements_of (view B d) address (Some (snd k)). s_counterparty s = fst k} e"
    if "(k, e) \<in> set ?it" for k e
  proof -
    obtain cp c where k: "k = (cp, c)" by force
    let ?S = "{s \<in> settlements_of (view B d) address (Some c). s_counterparty s = cp}"
    from that obtain y ys where ys: "filter (\<lambda>x. ?g x = k) xs = y # ys" "e = fold bump_edge (y # ys) (fresh_edge y)"
      unfolding group_rows_by_iter by blast
    have y: "y \<in> set xs" "?g y = k"
      using arg_cong [OF ys(1), of set] by auto
    then have kT: "k \<in> (\<lambda>s. (s_counterparty s, s_contract_hash s)) ` ?T" and c: "c \<in> s_contract_hash ` ?T"
      using xs(3) by (auto simp: k)
    have "set (y # ys) = (\<lambda>s. (c, s)) ` ?S"
      unfolding ys(1) [symmetric] set_filter xs(3) settlements_of_contract [OF c, symmetric] by (auto simp: k)
    moreover have "distinct (y # ys)" using xs(2) ys(1) by (metis distinct_filter)
    ultimately have rows: "distinct (y # ys)" "set (y # ys) = (\<lambda>s. (c, s)) ` ?S" by blast+
    have fresh: "fresh_edge y = \<lparr>ae_counterparty = cp, ae_contract_hash = c, ae_total = 0, ae_succeeded = 0,
        ae_refunded = 0, ae_last_seen_height = None\<rparr>"
      using y(2) by (simp add: fresh_edge_def case_prod_beta k)
    have "(ae_counterparty e, ae_contract_hash e) = k"
      unfolding ys(2) fold_bump_edge fresh by (simp add: k)
    moreover have "edge_of ?S e"
      unfolding ys(2) by (rule edge_of_fold [OF rows]) (simp_all add: fresh)
    ultimately show ?thesis using kT by (simp add: k)
  qed
  have keys: "map (\<lambda>e. (ae_counterparty e, ae_contract_hash e)) (map snd ?it) = map fst ?it"
    using group by (auto simp: case_prod_beta)
  have "set (map fst ?it) = (\<lambda>s. (s_counterparty s, s_contract_hash s)) ` ?T"
  proof (intro set_eqI iffI)
    fix k assume "k \<in> set (map fst ?it)"
    then obtain e where "(k, e) \<in> set ?it" by auto
    then show "k \<in> (\<lambda>s. (s_counterparty s, s_contract_hash s)) ` ?T" using group by blast
  next
    fix k assume "k \<in> (\<lambda>s. (s_counterparty s, s_contract_hash s)) ` ?T"
    then have "\<exists>x\<in>set xs. ?g x = k" unfolding xs(3) by force
    then obtain y ys where "filter (\<lambda>x. ?g x = k) xs = y # ys"
      by (cases "filter (\<lambda>x. ?g x = k) xs") (auto simp: filter_empty_conv)
    then have "(k, fold bump_edge (y # ys) (fresh_edge y)) \<in> set ?it" unfolding group_rows_by_iter by blast
    then show "k \<in> set (map fst ?it)" by force
  qed
  moreover have "list_all (\<lambda>e. edge_of {s \<in> settlements_of (view B d) address (Some (ae_contract_hash e)).
      s_counterparty s = ae_counterparty e} e) (map snd ?it)"
    using group by (auto simp: list_all_iff)
  moreover have "attestation_edges B d address ch = Inr (map snd ?it)"
    by (simp only: attestation_edges_def xs(1) bind_res_simps)
  ultimately show ?thesis
    using group_rows_by_iter(1) [of ?g fresh_edge bump_edge xs] that [of "map snd ?it"] keys by metis
qed

text \<open>A count over a set is the sum of the counts of its parts.\<close>

lemma card_parts:
  assumes "finite S"
  shows "(word_of_nat (card {s \<in> S. P s}) :: u64) = (\<Sum>p\<in>part ` S. word_of_nat (card {s \<in> {s \<in> S. part s = p}. P s}))"
proof -
  have count: "(word_of_nat (card {s \<in> T. P s}) :: u64) = (\<Sum>s\<in>T. if P s then 1 else 0)" if "finite T" for T
    using that by (simp add: sum.If_cases Int_def conj_commute)
  show ?thesis
    unfolding count [OF assms] sum.image_gen [OF assms, of "\<lambda>s. if P s then 1 else 0" part]
    by (rule sum.cong [OF refl]) (rule count [symmetric], simp add: assms)
qed

text \<open>The counts of a contract are the sums over its edges, one for each counterparty.\<close>

lemma edge_sums:
  assumes "finite S" "distinct (map ae_counterparty es)" "set (map ae_counterparty es) = s_counterparty ` S"
    and "\<And>e. e \<in> set es \<Longrightarrow> edge_of {s \<in> S. s_counterparty s = ae_counterparty e} e" "stats_of S st"
  shows "cs_total st = sum_list (map ae_total es) \<and> cs_succeeded st = sum_list (map ae_succeeded es) \<and>
    cs_refunded st = sum_list (map ae_refunded es)"
proof -
  have sums: "sum_list (map F es) = (\<Sum>p\<in>s_counterparty ` S. word_of_nat (card {s \<in> {s \<in> S. s_counterparty s = p}. P s}))"
    if "\<And>e. e \<in> set es \<Longrightarrow> F e = (word_of_nat (card {s \<in> {s \<in> S. s_counterparty s = ae_counterparty e}. P s}) :: u64)" for F P
  proof -
    let ?G = "\<lambda>p. word_of_nat (card {s \<in> {s \<in> S. s_counterparty s = p}. P s}) :: u64"
    have "map F es = map ?G (map ae_counterparty es)"
      unfolding map_map by (rule map_cong [OF refl]) (simp only: that comp_def)
    then show ?thesis
      using sum_list_distinct_conv_sum_set [OF assms(2), of ?G] by (simp only: assms(3))
  qed
  note card = card_parts [OF assms(1), of _ s_counterparty]
  show ?thesis
  proof (intro conjI)
    show "cs_total st = sum_list (map ae_total es)"
      using card [of "\<lambda>_. True"] sums [of ae_total "\<lambda>_. True"] assms(4,5)
      by (simp add: edge_of_def stats_of_def)
    show "cs_succeeded st = sum_list (map ae_succeeded es)"
      using card [of "\<lambda>s. s_outcome s = Claimed"] sums [of ae_succeeded "\<lambda>s. s_outcome s = Claimed"] assms(4,5)
      by (simp add: edge_of_def stats_of_def)
    show "cs_refunded st = sum_list (map ae_refunded es)"
      using card [of "\<lambda>s. s_outcome s = Reclaimed"] sums [of ae_refunded "\<lambda>s. s_outcome s = Reclaimed"] assms(4,5)
      by (simp add: edge_of_def stats_of_def)
  qed
qed

lemma edge_counterparties:
  assumes "set (map (\<lambda>e. (ae_counterparty e, ae_contract_hash e)) es) =
      (\<lambda>s. (s_counterparty s, s_contract_hash s)) ` settlements_of A address ch"
    and "c \<in> s_contract_hash ` settlements_of A address ch"
  shows "set (map ae_counterparty (filter (\<lambda>e. ae_contract_hash e = c) es)) =
    s_counterparty ` settlements_of A address (Some c)"
proof -
  have "p \<in> set (map ae_counterparty (filter (\<lambda>e. ae_contract_hash e = c) es)) \<longleftrightarrow>
      (p, c) \<in> set (map (\<lambda>e. (ae_counterparty e, ae_contract_hash e)) es)" for p
    by auto
  moreover have "p \<in> s_counterparty ` settlements_of A address (Some c) \<longleftrightarrow>
      (p, c) \<in> (\<lambda>s. (s_counterparty s, s_contract_hash s)) ` settlements_of A address ch" for p
    unfolding settlements_of_contract [OF assms(2), symmetric] by (rule iffI) (auto simp: image_iff)
  ultimately show ?thesis unfolding assms(1) by (intro set_eqI) simp
qed

text \<open>C32: the attestation edges are exact and agree with the contract statistics: one edge per pair of
  counterparty and contract the address has settled with, in ascending order, counting the
  stored settlements of that pair; and for every contract row of the statistics, its total,
  its claimed and its refunded counts are the sums of those of the contract's edges.\<close>

theorem attestation_edges_exact:
  assumes "db_ok B d"
  shows "\<exists>es sts. attestation_edges B d address ch = Inr es \<and> contract_stats B d address ch = Inr sts \<and>
    sorted_wrt (<) (map (\<lambda>e. (ae_counterparty e, ae_contract_hash e)) es) \<and>
    set (map (\<lambda>e. (ae_counterparty e, ae_contract_hash e)) es) =
      (\<lambda>s. (s_counterparty s, s_contract_hash s)) ` settlements_of (view B d) address ch \<and>
    list_all (\<lambda>e. edge_of {s. s \<in> settlements_of (view B d) address (Some (ae_contract_hash e)) \<and>
      s_counterparty s = ae_counterparty e} e) es \<and>
    list_all (\<lambda>st. let mine = filter (\<lambda>e. ae_contract_hash e = cs_contract_hash st) es in
      cs_total st = sum_list (map ae_total mine) \<and>
      cs_succeeded st = sum_list (map ae_succeeded mine) \<and>
      cs_refunded st = sum_list (map ae_refunded mine)) sts"
proof -
  obtain es where es: "attestation_edges B d address ch = Inr es"
    "sorted_wrt (<) (map (\<lambda>e. (ae_counterparty e, ae_contract_hash e)) es)"
    "set (map (\<lambda>e. (ae_counterparty e, ae_contract_hash e)) es) =
      (\<lambda>s. (s_counterparty s, s_contract_hash s)) ` settlements_of (view B d) address ch"
    "list_all (\<lambda>e. edge_of {s \<in> settlements_of (view B d) address (Some (ae_contract_hash e)).
      s_counterparty s = ae_counterparty e} e) es"
    by (rule attestation_groups [OF assms])
  obtain sts where sts: "contract_stats B d address ch = Inr sts"
    "sorted_wrt (<) (map cs_contract_hash sts)"
    "set (map cs_contract_hash sts) = s_contract_hash ` settlements_of (view B d) address ch"
    "list_all (\<lambda>st. stats_of (settlements_of (view B d) address (Some (cs_contract_hash st))) st) sts"
    using contract_groups [OF assms, of address ch] by (elim exE conjE) (rule that)
  have "cs_total st = sum_list (map ae_total mine) \<and> cs_succeeded st = sum_list (map ae_succeeded mine) \<and>
      cs_refunded st = sum_list (map ae_refunded mine)"
    if st: "st \<in> set sts" and mine: "mine = filter (\<lambda>e. ae_contract_hash e = cs_contract_hash st) es" for st mine
  proof (rule edge_sums [OF finite_settlements_of [OF assms, of address "Some (cs_contract_hash st)"]])
    show "distinct (map ae_counterparty mine)"
      using es(2) by (simp add: strict_sorted_iff mine distinct_map inj_on_def)
    show "set (map ae_counterparty mine) = s_counterparty ` settlements_of (view B d) address (Some (cs_contract_hash st))"
      unfolding mine by (rule edge_counterparties [OF es(3)]) (use st sts(3) in \<open>metis imageI list.set_map\<close>)
    show "edge_of {s \<in> settlements_of (view B d) address (Some (cs_contract_hash st)). s_counterparty s = ae_counterparty e} e"
      if "e \<in> set mine" for e using es(4) that by (auto simp: mine list_all_iff)
    show "stats_of (settlements_of (view B d) address (Some (cs_contract_hash st))) st"
      using sts(4) st by (simp add: list_all_iff)
  qed
  then have "list_all (\<lambda>st. let mine = filter (\<lambda>e. ae_contract_hash e = cs_contract_hash st) es in
      cs_total st = sum_list (map ae_total mine) \<and>
      cs_succeeded st = sum_list (map ae_succeeded mine) \<and>
      cs_refunded st = sum_list (map ae_refunded mine)) sts"
    by (simp add: list_all_iff)
  with es sts(1) show ?thesis by (intro exI [of _ es] exI [of _ sts]) simp
qed

theorem attestation_edges_exact_witness:
  "\<exists>d es sts. apply_blocks sample_bincode [lock_block, claim_block] open_all_tables = Inr d \<and>
     attestation_edges sample_bincode d (filled 10) None = Inr es \<and>
     contract_stats sample_bincode d (filled 10) None = Inr sts \<and>
     map (\<lambda>e. (ae_counterparty e, ae_contract_hash e)) es = [(s_counterparty sample_settlement, filled 8)]"
proof -
  obtain d where d: "apply_blocks sample_bincode [lock_block, claim_block] open_all_tables = Inr d" "db_ok sample_bincode d"
    "av_settlements (view sample_bincode d) = [(filled 8, filled 10, 6, filled 4) \<mapsto> sample_settlement]"
    by (rule sample_settled_db)
  let ?k = "\<lambda>e. (ae_counterparty e, ae_contract_hash e)"
  obtain es sts where es: "attestation_edges sample_bincode d (filled 10) None = Inr es"
    "contract_stats sample_bincode d (filled 10) None = Inr sts" "sorted_wrt (<) (map ?k es)"
    "set (map ?k es) = (\<lambda>s. (s_counterparty s, s_contract_hash s)) ` settlements_of (view sample_bincode d) (filled 10) None"
    using attestation_edges_exact [OF d(2), of "filled 10" None] by (elim exE conjE) (rule that)
  have "set (map ?k es) = {(s_counterparty sample_settlement, filled 8)}"
    unfolding es(4) sample_settlements_of(2) [OF d(3)] by (simp add: sample_settlement_def)
  then have "map ?k es = [(s_counterparty sample_settlement, filled 8)]"
    using es(3) strict_sorted_equal [of "map ?k es" "[(s_counterparty sample_settlement, filled 8)]"] by simp
  with d(1) es(1,2) show ?thesis by (intro exI conjI)
qed

end
