(* ===== verification/Templates.thy ===== *)
theory Templates
  imports Follower
begin

section \<open>The contract template registry (\<^verbatim>\<open>src/templates.rs\<close>)\<close>

text \<open>
  The static catalogue of one entry: the HTLC program of the transaction crate, under its
  structural hash. The program builder and the hash belong to the parameter \<open>E\<close>;
  that the hash forgets the constants of the program is what its documentation states.
\<close>

record ContractTemplate =
  ct_contract_hash :: string
  ct_name :: string
  ct_description :: string
  ct_schema_url :: "string option"

definition htlc_v1_hash :: "'p exfer \<Rightarrow> 32 bytes" where
  "htlc_v1_hash E = structural_merkle_hash E (build_htlc E (filled 0) (filled 0) (filled 0) 0)"

definition HTLC_V1_DESCRIPTION :: string where
  "HTLC_V1_DESCRIPTION =
     ''Hash Time-Locked Contract from exfer::covenants::htlc. Hash arm: receiver reveals preimage + signs. '' @
     ''Timeout arm: sender reclaims after the block height exceeds the lock's `timeout_height`.''"

definition HTLC_V1_SCHEMA_URL :: string where
  "HTLC_V1_SCHEMA_URL = ''https://github.com/ahuman-exfer/exfer/blob/main/src/covenants/htlc.rs''"

definition lookup :: "'p exfer \<Rightarrow> hex \<Rightarrow> 32 bytes \<Rightarrow> ContractTemplate option" where
  "lookup E H contract_hash =
     (if contract_hash = htlc_v1_hash E
      then Some \<lparr>ct_contract_hash = hex_encode H (byte_list contract_hash), ct_name = ''Standard HTLC v1'',
                 ct_description = HTLC_V1_DESCRIPTION, ct_schema_url = Some HTLC_V1_SCHEMA_URL\<rparr>
      else None)"

definition list_all_templates :: "'p exfer \<Rightarrow> hex \<Rightarrow> ContractTemplate list" where
  "list_all_templates E H =
     [\<lparr>ct_contract_hash = hex_encode H (byte_list (htlc_v1_hash E)), ct_name = ''Standard HTLC v1'',
       ct_description = HTLC_V1_DESCRIPTION, ct_schema_url = Some HTLC_V1_SCHEMA_URL\<rparr>]"

lemma lookup_in_list: "lookup E H h = Some t \<Longrightarrow> t \<in> set (list_all_templates E H) \<and> ct_contract_hash t = hex_encode H (byte_list h)"
  by (auto simp: lookup_def list_all_templates_def split: if_splits)

text \<open>The structural hash does not depend on the parameters an HTLC is built with.\<close>

definition structural :: "'p exfer \<Rightarrow> bool" where
  "structural E \<longleftrightarrow> (\<forall>a b l h a' b' l' h'.
     structural_merkle_hash E (build_htlc E a b l h) = structural_merkle_hash E (build_htlc E a' b' l' h'))"

lemma lookup_built:
  assumes "structural E"
  shows "lookup E H (structural_merkle_hash E (build_htlc E a b l h)) = Some (hd (list_all_templates E H))"
proof -
  have "structural_merkle_hash E (build_htlc E a b l h) = htlc_v1_hash E"
    using assms unfolding structural_def htlc_v1_hash_def by blast
  then show ?thesis by (simp add: lookup_def list_all_templates_def)
qed

text \<open>The registry names every settlement: when the structural hash ignores the parameters, the
  contract hash of both records of a settled HTLC is registered, under the listed template,
  whose printed hash decodes back to it; and the registry resolves only hashes it lists.\<close>

theorem settlements_are_named:
  assumes "structural E" "hex_ok H" "s \<in> set (settlements_for_settled_htlc E r height)"
  shows "\<exists>t. lookup E H (s_contract_hash s) = Some t \<and> list_all_templates E H = [t] \<and>
    decode_hex32 H (ct_contract_hash t) = Inr (s_contract_hash s)"
proof -
  have h: "s_contract_hash s = structural_merkle_hash E
      (build_htlc E (sender (params r)) (receiver (params r)) (hash_lock (params r)) (timeout_height (params r)))"
    using assms(3) by (auto simp: settlements_for_settled_htlc_def Let_def)
  have one: "list_all_templates E H = [hd (list_all_templates E H)]" by (simp add: list_all_templates_def)
  have found: "lookup E H (s_contract_hash s) = Some (hd (list_all_templates E H))"
    unfolding h by (rule lookup_built [OF assms(1)])
  have "ct_contract_hash (hd (list_all_templates E H)) = hex_encode H (byte_list (s_contract_hash s))"
    using lookup_in_list [OF found] by blast
  with found one assms(2) show ?thesis by auto
qed

end
