(* ===== verification/SettlementKeys.thy ===== *)
theory SettlementKeys
  imports FollowerRewalk SettlementQueries Templates
begin

section \<open>Settlements that share a key\<close>

text \<open>
  The key of a settlement row is contract, observer, height and transaction, without the
  output of the HTLC. The contract hash is that of the template, so two HTLCs that one
  transaction locks for one sender have one key when they are settled in one block.
\<close>

definition settlement_row_of :: "SettlementRecord \<Rightarrow> 32 bytes \<times> 32 bytes \<times> u64 \<times> 32 bytes" where
  "settlement_row_of s = (s_contract_hash s, s_observer_address s, s_block_height s, s_tx_id s)"

lemma stored_settlements_distinct:
  assumes "db_ok B d" "settlement_row_of s = settlement_row_of s'" "s \<noteq> s'"
  shows "\<not> {s, s'} \<subseteq> ran (av_settlements (view B d))"
proof
  assume "{s, s'} \<subseteq> ran (av_settlements (view B d))"
  then obtain x x' where x: "av_settlements (view B d) x = Some s" "av_settlements (view B d) x' = Some s'"
    by (auto simp: ran_def)
  then have "x = x'"
    using db_ok_settlement_at [OF assms(1)] assms(2) unfolding settlement_row_of_def by metis
  with x assms(3) show False by simp
qed

text \<open>What the sender of an HTLC not settled before gets for its spend.\<close>

lemma sender_settlement:
  assumes "db_ok B d" "av_htlcs (view B d) (t, i) = Some r" "claim r = None" "reclaim r = None"
    and "sp_lock_tx_id sp = t" "sp_output_index sp = i"
  obtains s where "s \<in> set (settlements_for E (view B d) h sp)" "(s_lock_tx_id s, s_lock_output_index s) = (t, i)"
    "settlement_row_of s = (structural_merkle_hash E (build_htlc E (sender (params r)) (receiver (params r))
       (hash_lock (params r)) (timeout_height (params r))), pubkey_hash_from_key E (sender (params r)), h, t)"
proof -
  have key: "lock_tx_id r = t" "output_index r = i" using db_ok_htlc_at [OF assms(1,2)] by simp_all
  let ?r = "r\<lparr>state := (case sp_arm sp of Claim _ _ _ \<Rightarrow> Claimed | Reclaim _ _ \<Rightarrow> Reclaimed)\<rparr>"
  let ?s = "hd (settlements_for_settled_htlc E ?r h)"
  have "settlements_for E (view B d) h sp = settlements_for_settled_htlc E ?r h"
    using assms(2,5,6) by (simp add: settlements_for_def)
  then have "?s \<in> set (settlements_for E (view B d) h sp)"
    by (simp add: settlements_for_settled_htlc_def Let_def)
  then show ?thesis
    by (rule that)
      (simp_all add: settlements_for_settled_htlc_def Let_def settlement_row_of_def settled_tx_id_def
        derive_address_from_pubkey_def assms(3,4) key)
qed

text \<open>C18: settlements overwrite one another: when one transaction locked two HTLCs for one sender and a
  block spends both, the block's events hold a settlement of each for the sender, and after
  the block is applied the store holds at most one of the two. The other is gone from every
  list and every count. It needs the structural hash to ignore the parameters of an HTLC.\<close>

theorem same_lock_settlements_collide:
  assumes "bincode_ok B" "exfer_ok E" "structural E" "store_ok B E d"
    and "block_events B E H N (\<lambda>_. None) h block started_at d = Inr ev" "apply_block_events B ev d = Inr d'"
    and "sp \<in> set (ev_spends ev)" "sp_lock_tx_id sp = t" "sp_output_index sp = i"
    and "sp' \<in> set (ev_spends ev)" "sp_lock_tx_id sp' = t" "sp_output_index sp' = j" "i \<noteq> j"
    and "av_htlcs (view B d) (t, i) = Some r" "claim r = None" "reclaim r = None"
    and "av_htlcs (view B d) (t, j) = Some r'" "claim r' = None" "reclaim r' = None"
    and "sender (params r) = sender (params r')"
  shows "\<exists>s1 s2. s1 \<in> set (ev_settlements ev) \<and> (s_lock_tx_id s1, s_lock_output_index s1) = (t, i) \<and>
    s2 \<in> set (ev_settlements ev) \<and> (s_lock_tx_id s2, s_lock_output_index s2) = (t, j) \<and>
    \<not> {s1, s2} \<subseteq> ran (av_settlements (view B d'))"
proof -
  have db: "db_ok B d" using assms(4) by (simp add: store_ok_def)
  have d': "db_ok B d'" using index_view [OF assms(1,2,4,5)] assms(6) by (metis store_ok_def sum.inject(2))
  obtain s1 where s1: "s1 \<in> set (settlements_for E (view B d) h sp)" "(s_lock_tx_id s1, s_lock_output_index s1) = (t, i)"
    "settlement_row_of s1 = (structural_merkle_hash E (build_htlc E (sender (params r)) (receiver (params r))
       (hash_lock (params r)) (timeout_height (params r))), pubkey_hash_from_key E (sender (params r)), h, t)"
    by (rule sender_settlement [OF db assms(14-16,8,9)])
  obtain s2 where s2: "s2 \<in> set (settlements_for E (view B d) h sp')" "(s_lock_tx_id s2, s_lock_output_index s2) = (t, j)"
    "settlement_row_of s2 = (structural_merkle_hash E (build_htlc E (sender (params r')) (receiver (params r'))
       (hash_lock (params r')) (timeout_height (params r'))), pubkey_hash_from_key E (sender (params r')), h, t)"
    by (rule sender_settlement [OF db assms(17-19,11,12)])
  have "settlement_row_of s1 = settlement_row_of s2"
    using assms(3,20) unfolding s1(3) s2(3) structural_def by metis
  moreover have "s1 \<noteq> s2" using s1(2) s2(2) assms(13) by auto
  ultimately have "\<not> {s1, s2} \<subseteq> ran (av_settlements (view B d'))"
    by (rule stored_settlements_distinct [OF d'])
  moreover have "{s1, s2} \<subseteq> set (ev_settlements ev)"
    using s1(1) s2(1) assms(7,10) by (auto simp: block_events_settlements(1) [OF db assms(5)])
  ultimately show ?thesis using s1(2) s2(2) by blast
qed

text \<open>Two locks of one transaction, and a transaction that claims both.\<close>

definition pair_lock :: BlockApplyEvents where
  "pair_lock = lock_block\<lparr>ev_output_datums := [],
     ev_locks := [\<lparr>lk_record = sample_htlc, lk_script = []\<rparr>, \<lparr>lk_record = sample_htlc\<lparr>output_index := 1\<rparr>, lk_script = []\<rparr>]\<rparr>"

definition pair_claim :: Transaction where
  "pair_claim = \<lparr>tx_inputs = [\<lparr>prev_tx_id = filled 4, prev_output_index = 0\<rparr>, \<lparr>prev_tx_id = filled 4, prev_output_index = 1\<rparr>],
     tx_outputs = [], tx_witnesses = [[1, 0, 5, 1, 0, 0, 0, 42], [1, 0, 5, 1, 0, 0, 0, 42]]\<rparr>"

definition pair_exfer :: "unit exfer" where
  "pair_exfer = sample_exfer\<lparr>tx_id_of := (\<lambda>tx. if tx = pair_claim then Some (filled 7) else None),
     is_coinbase := (\<lambda>_. False), deserialize_tx := (\<lambda>_. Some pair_claim)\<rparr>"

lemma pair_exfer_ok: "exfer_ok pair_exfer" "structural pair_exfer"
  by (auto simp: exfer_ok_def structural_def pair_exfer_def pair_claim_def sample_exfer_def split: if_splits)

lemma pair_spends:
  "x_spends (extract_from_tx pair_exfer pair_claim h 0) = [sample_spend, sample_spend\<lparr>sp_output_index := 1, sp_arm := Claim [42] (filled 7) 1\<rparr>]"
proof -
  have preimage: "extract_claim_preimage [1, 0, 5, 1, 0, 0, 0, 42] = Some [42]" by code_simp
  show ?thesis
    by (simp add: extract_from_tx_Some pair_exfer_def pair_claim_def input_spends_def classify_spend_arm_def preimage
        VALUE_TAG_LEFT_def sample_spend_def)
qed

lemma pair_store:
  obtains d where "apply_block_events sample_bincode pair_lock open_all_tables = Inr d" "store_ok sample_bincode pair_exfer d"
    "av_htlcs (view sample_bincode d) (filled 4, 0) = Some sample_htlc"
    "av_htlcs (view sample_bincode d) (filled 4, 1) = Some (sample_htlc\<lparr>output_index := 1\<rparr>)"
proof -
  have "datums_consistent (ev_output_datums pair_lock) (view sample_bincode open_all_tables)"
    by (simp add: datums_consistent_def pair_lock_def)
  then obtain d where d: "apply_block_events sample_bincode pair_lock open_all_tables = Inr d" "db_ok sample_bincode d"
    "view sample_bincode d = spec_apply pair_lock (view sample_bincode open_all_tables)"
    using simE [OF apply_refines [OF sample_bincode_ok, of pair_lock] db_ok_open_all_tables] by blast
  have "datums_known pair_exfer (view sample_bincode d)"
    unfolding d(3) by (rule datums_known_apply) (simp_all add: datums_known_def pair_lock_def)
  with d(2) have "store_ok sample_bincode pair_exfer d" by (simp add: store_ok_def)
  with d(1) show ?thesis
    by (rule that) (simp_all add: d(3) spec_apply_fields pair_lock_def lock_block_def locked_def written_def sample_htlc_def after_spends_def)
qed

lemma pair_claim_events:
  assumes "store_ok sample_bincode pair_exfer d"
  obtains ev where "block_events sample_bincode pair_exfer sample_hex sample_node (\<lambda>_. None) 6
      (sample_block 100 (\<lambda>_. [tx_hex 7]) 6) 0 d = Inr ev"
    "ev_spends ev = [sample_spend, sample_spend\<lparr>sp_output_index := 1, sp_arm := Claim [42] (filled 7) 1\<rparr>]"
proof -
  have db: "db_ok sample_bincode d" using assms by (simp add: store_ok_def)
  have t: "hex_encode sample_hex (replicate 32 b) = tx_hex b" for b by (simp add: tx_hex_def)
  have ne: "hex_encode sample_hex [x] \<noteq> []" for x by (simp add: sample_hex_def)
  obtain st where st: "n_get_transaction sample_node (tx_hex 7) = Inr st" "hex_decode sample_hex (st_tx_hex st) = Some [7]"
    by (simp add: sample_node_def sample_status_def)
  have fetch: "fetch_tx pair_exfer sample_hex sample_node (filled 4) = Inr (Some pair_claim)"
    by (simp add: fetch_tx_def t sample_node_def sample_status_def ne pair_exfer_def)
  then have "\<exists>s'. scan_input pair_exfer sample_hex sample_node x h (v, \<lparr>prev_tx_id = filled 4, prev_output_index = i\<rparr>) s = Inr s'"
    for x h v i s by (auto simp: scan_input_def cache_prev_tx_def Let_def split: option.splits)
  then have "\<exists>s'. fold_res (scan_input pair_exfer sample_hex sample_node x h) (enumerate 0 (tx_inputs pair_claim)) s = Inr s'" for x h s
    unfolding pair_claim_def Transaction.simps by (simp add: bind_res_eq_Inr_iff) metis
  then obtain i where i: "fold_res (scan_input pair_exfer sample_hex sample_node (x_tx_id (extract_from_tx pair_exfer pair_claim 6 0)) 6)
      (enumerate 0 (tx_inputs pair_claim))
      \<lparr>in_spent_by = bs_spent_by empty_scan, in_cache = bs_cache empty_scan, in_addrs = [],
       in_activity = x_activity (extract_from_tx pair_exfer pair_claim 6 0)\<rparr> = Inr i" by blast
  have tx: "deserialize_tx pair_exfer bytes = Some pair_claim" "is_coinbase pair_exfer tx = False" for bytes tx
    by (simp_all add: pair_exfer_def)
  obtain sc where sc: "scan_tx pair_exfer sample_hex sample_node 6 (tx_hex 7) empty_scan = Inr sc"
    using i by (simp add: scan_tx_def Let_def st tx)
  have "bs_spends sc = [sample_spend, sample_spend\<lparr>sp_output_index := 1, sp_arm := Claim [42] (filled 7) 1\<rparr>]"
    by (rule scan_txE [OF sc]) (simp add: tx pair_spends empty_scan_def)
  moreover have "map_res (spend_settlements sample_bincode pair_exfer (\<lambda>_. None) d 6) (bs_spends sc) =
      Inr (map (settlements_for pair_exfer (view sample_bincode d) 6) (bs_spends sc))"
    by (rule map_res_total) (simp add: peek_view [OF db])
  ultimately show ?thesis
    using that by (simp add: block_events_def sc)
qed

theorem same_lock_settlements_collide_witness:
  "\<exists>d ev d' s1 s2. apply_block_events sample_bincode pair_lock open_all_tables = Inr d \<and>
     block_events sample_bincode pair_exfer sample_hex sample_node (\<lambda>_. None) 6 (sample_block 100 (\<lambda>_. [tx_hex 7]) 6) 0 d = Inr ev \<and>
     apply_block_events sample_bincode ev d = Inr d' \<and>
     s1 \<in> set (ev_settlements ev) \<and> (s_lock_tx_id s1, s_lock_output_index s1) = (filled 4, 0) \<and>
     s2 \<in> set (ev_settlements ev) \<and> (s_lock_tx_id s2, s_lock_output_index s2) = (filled 4, 1) \<and>
     \<not> {s1, s2} \<subseteq> ran (av_settlements (view sample_bincode d'))"
proof -
  obtain d where d: "apply_block_events sample_bincode pair_lock open_all_tables = Inr d" "store_ok sample_bincode pair_exfer d"
    "av_htlcs (view sample_bincode d) (filled 4, 0) = Some sample_htlc"
    "av_htlcs (view sample_bincode d) (filled 4, 1) = Some (sample_htlc\<lparr>output_index := 1\<rparr>)"
    by (rule pair_store)
  obtain ev where ev: "block_events sample_bincode pair_exfer sample_hex sample_node (\<lambda>_. None) 6
      (sample_block 100 (\<lambda>_. [tx_hex 7]) 6) 0 d = Inr ev"
    "ev_spends ev = [sample_spend, sample_spend\<lparr>sp_output_index := 1, sp_arm := Claim [42] (filled 7) 1\<rparr>]"
    by (rule pair_claim_events [OF d(2)])
  obtain d' where d': "apply_block_events sample_bincode ev d = Inr d'"
    by (rule index_view [OF sample_bincode_ok pair_exfer_ok(1) d(2) ev(1)])
  have "\<exists>s1 s2. s1 \<in> set (ev_settlements ev) \<and> (s_lock_tx_id s1, s_lock_output_index s1) = (filled 4, 0) \<and>
     s2 \<in> set (ev_settlements ev) \<and> (s_lock_tx_id s2, s_lock_output_index s2) = (filled 4, 1) \<and>
     \<not> {s1, s2} \<subseteq> ran (av_settlements (view sample_bincode d'))"
    by (rule same_lock_settlements_collide [OF sample_bincode_ok pair_exfer_ok d(2) ev(1) d' _ _ _ _ _ _ _ d(3) _ _ d(4),
          where sp = sample_spend and sp' = "sample_spend\<lparr>sp_output_index := 1, sp_arm := Claim [42] (filled 7) 1\<rparr>"])
      (auto simp: ev(2) sample_spend_def sample_htlc_def)
  with d(1) ev(1) d' show ?thesis by blast
qed

end
