(* ===== verification/FollowerTorn.thy ===== *)
theory FollowerTorn
  imports FollowerWitness
begin

section \<open>A chain that changes during the walk\<close>

text \<open>
  The forward walk asks for one block after the other and the node may reorganise in between.
  This theory states what the store then holds: at every height the block that was served when
  the walk asked for it, whatever stands below, since no step compares a block with its
  parent; and that no later tick looks below a checkpoint that matches.
\<close>

lemma index_blockE:
  assumes "index_block B E H N ft started_at h s = (Inr (), s')"
  obtains block ev d' where "n_get_block_by_height N h = Inr block"
    "block_events B E H N (ft_peek ft h) h block started_at (fs_db s) = Inr ev" "apply_block_events B ev (fs_db s) = Inr d'"
    "fs_db s' = d'"
  using assms
  by (auto simp: index_block_def process_block_def bind_step_apply on_db_def write_txn_def send_tip_def lift_def
      split: sum.splits option.splits prod.splits)

lemma index_block_row:
  assumes "bincode_ok B" "exfer_ok E" "store_ok B E (fs_db s)"
    and "index_block B E H N ft started_at h s = (Inr (), s')"
  shows "store_ok B E (fs_db s')"
    "\<exists>b. block_id_at H N h = Inr (bm_block_id b) \<and>
       av_blocks (view B (fs_db s')) = (av_blocks (view B (fs_db s)))(h \<mapsto> b)"
proof -
  obtain block ev d' where r: "n_get_block_by_height N h = Inr block"
    "block_events B E H N (ft_peek ft h) h block started_at (fs_db s) = Inr ev" "apply_block_events B ev (fs_db s) = Inr d'"
    "fs_db s' = d'"
    by (rule index_blockE [OF assms(4)])
  have id: "decode_hex32 H (b_block_id block) = Inr (ev_block_id ev)" "ev_height ev = h"
    by (rule block_eventsE [OF r(2)], assumption)+
  obtain d1 where "apply_block_events B ev (fs_db s) = Inr d1" "store_ok B E d1" "view B d1 = spec_apply ev (view B (fs_db s))"
    by (rule index_view [OF assms(1-3) r(2)])
  with r(3,4) have d': "store_ok B E (fs_db s')" "view B (fs_db s') = spec_apply ev (view B (fs_db s))" by simp_all
  show "store_ok B E (fs_db s')" by (rule d'(1))
  show "\<exists>b. block_id_at H N h = Inr (bm_block_id b) \<and>
       av_blocks (view B (fs_db s')) = (av_blocks (view B (fs_db s)))(h \<mapsto> b)"
    unfolding d'(2)
    by (intro exI [of _ "\<lparr>bm_block_id = ev_block_id ev, bm_tx_count = ev_tx_count ev, bm_timestamp = ev_timestamp ev\<rparr>"])
      (simp add: spec_apply_eq block_id_at_def r(1) id)
qed

lemma index_blocks_rows:
  assumes "bincode_ok B" "exfer_ok E" "store_ok B E (fs_db s)"
    and "for_step (\<lambda>h. index_block B E H (N h) ft started_at h) hs s = (Inr (), s')"
  shows "if h \<in> set hs
    then \<exists>b. av_blocks (view B (fs_db s')) h = Some b \<and> block_id_at H (N h) h = Inr (bm_block_id b)
    else av_blocks (view B (fs_db s')) h = av_blocks (view B (fs_db s)) h"
  using assms(3,4)
proof (induction hs arbitrary: s)
  case (Cons k hs)
  obtain r s1 where first: "index_block B E H (N k) ft started_at k s = (r, s1)" by force
  with Cons.prems(2) have s1: "index_block B E H (N k) ft started_at k s = (Inr (), s1)"
    "for_step (\<lambda>h. index_block B E H (N h) ft started_at h) hs s1 = (Inr (), s')"
    by (cases r; simp add: bind_step_apply)+
  obtain b where b: "block_id_at H (N k) k = Inr (bm_block_id b)"
    "av_blocks (view B (fs_db s1)) = (av_blocks (view B (fs_db s)))(k \<mapsto> b)"
    using index_block_row(2) [OF assms(1,2) Cons.prems(1) s1(1)] by blast
  from Cons.IH [OF index_block_row(1) [OF assms(1,2) Cons.prems(1) s1(1)] s1(2)] b show ?case
    by (cases "h \<in> set hs") auto
qed simp

text \<open>A tick whose reorg check passes is the walk.\<close>

lemma tick_walks:
  assumes "ft_load ft = None" "load_meta B (fs_db s) = Inr m" "n_get_block_height (at_tip A) = Inr tip"
    and "0 < m_last_indexed_height m \<Longrightarrow> block_id_at H (at_check A) (m_last_indexed_height m) = Inr (m_last_indexed_block_id m)"
  shows "tick B E H A ft now s = walk_forward B E H A ft tip (with_start now m) s"
proof -
  have "check_reorg B H A ft (with_start now m) s = (Inr (with_start now m), s)"
    using assms(4) by (auto simp: check_reorg_def bind_step_apply block_id_at_def bind_res_eq_Inr_iff lift_eq_Inr_iff)
  then show ?thesis by (simp add: tick_def bind_step_apply assms(1-3))
qed

lemma tick_load_fault: "ft_load ft = Some e \<Longrightarrow> snd (tick B E H A ft now s) = s"
  by (cases "n_get_block_height (at_tip A)") (simp_all add: tick_def bind_step_apply)

lemma start_height_with_start [simp]: "start_height (with_start now m) = start_height m"
  by (simp add: start_height_def)

lemma tick_indexes:
  assumes "bincode_ok B" "exfer_ok E" "store_ok B E (fs_db s)"
    and "load_meta B (fs_db s) = Inr m" "n_get_block_height (at_tip A) = Inr tip"
    and "0 < m_last_indexed_height m \<Longrightarrow> block_id_at H (at_check A) (m_last_indexed_height m) = Inr (m_last_indexed_block_id m)"
    and "start_height m \<le> tip_height tip"
    and "\<forall>h\<in>{start_height m..tip_height tip}. readable E H (at_block A h) h"
  obtains s' where "tick B E H A no_faults now s = (Inr (), s')" "store_ok B E (fs_db s')"
    "checkpoint_at B H (at_block A (tip_height tip)) (tip_height tip) (fs_db s')"
    "\<And>h. h \<in> {start_height m..tip_height tip} \<Longrightarrow>
       \<exists>b. av_blocks (view B (fs_db s')) h = Some b \<and> block_id_at H (at_block A h) h = Inr (bm_block_id b)"
    "\<And>h. h \<notin> {start_height m..tip_height tip} \<Longrightarrow>
       av_blocks (view B (fs_db s')) h = av_blocks (view B (fs_db s)) h"
proof -
  note hs = heights_props [OF assms(7)]
  let ?started = "m_started_at (with_start now m)"
  have "list_all (\<lambda>h. readable E H (at_block A h) h) (heights (start_height m) (tip_height tip))"
    using assms(8) by (simp add: list_all_iff hs(3))
  from index_blocks_ok [OF assms(1-3) hs(1) this, of no_faults ?started] obtain s' where
    s': "for_step (\<lambda>h. index_block B E H (at_block A h) no_faults ?started h)
           (heights (start_height m) (tip_height tip)) s = (Inr (), s')" "store_ok B E (fs_db s')"
    "checkpoint_at B H (at_block A (tip_height tip)) (tip_height tip) (fs_db s')"
    by (auto simp: hs(2) no_faults_def)
  have "tick B E H A no_faults now s = (Inr (), s')"
    using s'(1) assms(7) by (simp add: tick_walks [OF _ assms(4-6)] walk_forward_def Let_def leD)
  moreover note rows = index_blocks_rows [OF assms(1-3) s'(1)]
  ultimately show ?thesis
    using that s'(2,3) unfolding hs(3) by presburger
qed

text \<open>What a walk over a changing chain stores: when the reorg check passes and the node serves each
  height of the walk once, on whatever fork it is at that moment, the tick succeeds, and the
  store has at each of these heights the block that was served, below and above them what it
  had. No condition links the blocks to one another, so the walk joins two forks unnoticed.\<close>

theorem walk_stores_served:
  assumes "bincode_ok B" "exfer_ok E" "store_ok B E (fs_db s)"
    and "load_meta B (fs_db s) = Inr m" "n_get_block_height (at_tip A) = Inr tip"
    and "0 < m_last_indexed_height m \<Longrightarrow> block_id_at H (at_check A) (m_last_indexed_height m) = Inr (m_last_indexed_block_id m)"
    and "start_height m \<le> tip_height tip"
    and "\<forall>h\<in>{start_height m..tip_height tip}. readable E H (at_block A h) h"
  shows "\<exists>s'. tick B E H A no_faults now s = (Inr (), s') \<and> store_ok B E (fs_db s') \<and>
    (\<forall>h. if h \<in> {start_height m..tip_height tip}
       then \<exists>b. av_blocks (view B (fs_db s')) h = Some b \<and> block_id_at H (at_block A h) h = Inr (bm_block_id b)
       else av_blocks (view B (fs_db s')) h = av_blocks (view B (fs_db s)) h)"
  by (rule tick_indexes [OF assms, where now = now]) simp_all

text \<open>C20: a matching checkpoint is never looked behind: while the node's tip is the checkpoint, with the
  block id the store has for it, a tick changes no row but the checkpoint's own. What an
  earlier walk indexed below it from another fork stays.\<close>

theorem matching_tip_keeps_rows:
  assumes "bincode_ok B" "store_ok B E (fs_db s)" "load_meta B (fs_db s) = Inr m"
    and "n_get_block_height (at_tip A) = Inr tip" "tip_height tip = m_last_indexed_height m"
    and "0 < m_last_indexed_height m" "m_last_indexed_height m \<noteq> - 1"
    and "block_id_at H (at_check A) (m_last_indexed_height m) = Inr (m_last_indexed_block_id m)"
  shows "(view B (fs_db (snd (tick B E H A ft now s))))\<lparr>av_meta := None\<rparr> = (view B (fs_db s))\<lparr>av_meta := None\<rparr>"
proof -
  let ?m = "with_start now m"
  have start: "start_height ?m = m_last_indexed_height m + 1"
    using assms(6) by (auto simp: start_height_def)
  have past: "start_height ?m > tip_height tip"
    unfolding start assms(5) using less_succ_u64 [OF assms(7)] by simp
  obtain d' where d': "save_meta B (?m\<lparr>m_full_scan_complete := True\<rparr>) (fs_db s) = Inr d'"
    "view B d' = (view B (fs_db s))\<lparr>av_meta := Some (?m\<lparr>m_full_scan_complete := True\<rparr>)\<rparr>"
    by (rule save_view [OF assms(1,2)])
  show ?thesis
  proof (cases "ft_load ft")
    case None
    then have "tick B E H A ft now s = walk_forward B E H A ft tip ?m s"
      by (rule tick_walks [OF _ assms(3,4,8)])
    then show ?thesis
      using past d' by (auto simp: walk_forward_def Let_def bind_step_apply on_db_def write_txn_def send_tip_def
          split: option.splits)
  qed (simp add: tick_load_fault)
qed


subsection \<open>A torn walk\<close>

text \<open>The node is on the sample chain until block 5 and on the fork from block 6 on.\<close>

definition torn :: answers where
  "torn = (steady fork_node)\<lparr>at_block := (\<lambda>h. if h \<le> 5 then sample_node else fork_node)\<rparr>"

lemma torn_simps [simp]:
  "at_tip torn = fork_node" "at_check torn = fork_node" "at_block torn h = (if h \<le> 5 then sample_node else fork_node)"
  by (simp_all add: torn_def)

lemma fork_tip: "n_get_block_height fork_node = Inr \<lparr>tip_height = 6, tip_block_id = b_block_id (sample_block 200 (\<lambda>_. []) 6)\<rparr>"
  by (simp add: fork_node_def)

lemma torn_tip: "n_get_block_height (at_tip torn) = Inr \<lparr>tip_height = 6, tip_block_id = b_block_id (sample_block 200 (\<lambda>_. []) 6)\<rparr>"
  by (simp add: fork_tip)

lemma sample_block_ids [simp]:
  "block_id_at sample_hex sample_node h = Inr (filled (100 + of_nat (unat h)))"
  "block_id_at sample_hex fork_node h = Inr (filled (200 + of_nat (unat h)))"
  by (simp_all add: block_id_at_def sample_node_def fork_node_def)

lemma fresh_checkpoint:
  "load_meta sample_bincode open_all_tables = Inr FollowerMeta_default" "start_height FollowerMeta_default = 0"
  "m_last_indexed_height FollowerMeta_default = 0"
  using load_meta_view [of sample_bincode open_all_tables]
  by (simp_all add: FollowerMeta_default_def start_height_def)

lemma torn_readable: "readable sample_exfer sample_hex (at_block torn h) h"
  by (simp add: readable_sample readable_fork)

theorem walk_stores_served_witness:
  "\<exists>s' b5 b6. tick sample_bincode sample_exfer sample_hex torn no_faults 7 \<lparr>fs_db = open_all_tables, fs_tip = 0\<rparr> = (Inr (), s') \<and>
     av_blocks (view sample_bincode (fs_db s')) 5 = Some b5 \<and> bm_block_id b5 = filled 105 \<and>
     av_blocks (view sample_bincode (fs_db s')) 6 = Some b6 \<and> bm_block_id b6 = filled 206"
proof -
  let ?s = "\<lparr>fs_db = open_all_tables, fs_tip = 0\<rparr> :: blob FollowerState"
  obtain s' where s': "tick sample_bincode sample_exfer sample_hex torn no_faults 7 ?s = (Inr (), s')"
    "\<forall>h. if h \<in> {start_height FollowerMeta_default..6}
       then \<exists>b. av_blocks (view sample_bincode (fs_db s')) h = Some b \<and>
         block_id_at sample_hex (at_block torn h) h = Inr (bm_block_id b)
       else av_blocks (view sample_bincode (fs_db s')) h = av_blocks (view sample_bincode (fs_db ?s)) h"
    using walk_stores_served [OF sample_bincode_ok sample_exfer_ok _ _ torn_tip, of ?s FollowerMeta_default sample_hex 7]
      torn_readable fresh_checkpoint by auto
  obtain b5 b6 where "av_blocks (view sample_bincode (fs_db s')) 5 = Some b5" "Inr (filled 105) = (Inr (bm_block_id b5) :: _ res)"
    "av_blocks (view sample_bincode (fs_db s')) 6 = Some b6" "Inr (filled 206) = (Inr (bm_block_id b6) :: _ res)"
    using s'(2) [rule_format, of 5] s'(2) [rule_format, of 6] by (auto simp: fresh_checkpoint)
  with s'(1) show ?thesis by auto
qed

lemma torn_store:
  obtains s' m b where "store_ok sample_bincode sample_exfer (fs_db s')" "load_meta sample_bincode (fs_db s') = Inr m"
    "m_last_indexed_height m = 6" "m_last_indexed_block_id m = filled 206"
    "tick sample_bincode sample_exfer sample_hex torn no_faults 7 \<lparr>fs_db = open_all_tables, fs_tip = 0\<rparr> = (Inr (), s')"
    "av_blocks (view sample_bincode (fs_db s')) 5 = Some b" "bm_block_id b = filled 105"
proof -
  let ?s = "\<lparr>fs_db = open_all_tables, fs_tip = 0\<rparr> :: blob FollowerState"
  obtain s' where s': "tick sample_bincode sample_exfer sample_hex torn no_faults 7 ?s = (Inr (), s')"
    "store_ok sample_bincode sample_exfer (fs_db s')" "checkpoint_at sample_bincode sample_hex fork_node 6 (fs_db s')"
    "\<And>h. h \<in> {0..6} \<Longrightarrow> \<exists>b. av_blocks (view sample_bincode (fs_db s')) h = Some b \<and>
       block_id_at sample_hex (at_block torn h) h = Inr (bm_block_id b)"
    by (rule tick_indexes [OF sample_bincode_ok sample_exfer_ok _ _ torn_tip, where s = ?s and m = FollowerMeta_default and H = sample_hex and now = 7])
      (use torn_readable fresh_checkpoint in \<open>simp_all\<close>)
  from s'(4) [of 5] obtain b where "av_blocks (view sample_bincode (fs_db s')) 5 = Some b" "bm_block_id b = filled 105"
    by auto
  with s'(1-3) that show ?thesis by (auto simp: checkpoint_at_def)
qed

theorem matching_tip_keeps_rows_witness:
  "\<exists>s b. tick sample_bincode sample_exfer sample_hex torn no_faults 7 \<lparr>fs_db = open_all_tables, fs_tip = 0\<rparr> = (Inr (), s) \<and>
     av_blocks (view sample_bincode (fs_db (snd
       (tick sample_bincode sample_exfer sample_hex (steady fork_node) no_faults 8 s)))) 5 = Some b \<and>
     bm_block_id b = filled 105 \<and> block_id_at sample_hex fork_node 5 = Inr (filled 205)"
proof -
  obtain s m b where s: "store_ok sample_bincode sample_exfer (fs_db s)" "load_meta sample_bincode (fs_db s) = Inr m"
    "m_last_indexed_height m = 6" "m_last_indexed_block_id m = filled 206"
    "tick sample_bincode sample_exfer sample_hex torn no_faults 7 \<lparr>fs_db = open_all_tables, fs_tip = 0\<rparr> = (Inr (), s)"
    "av_blocks (view sample_bincode (fs_db s)) 5 = Some b" "bm_block_id b = filled 105"
    by (rule torn_store)
  let ?A = "view sample_bincode (fs_db (snd (tick sample_bincode sample_exfer sample_hex (steady fork_node) no_faults 8 s)))"
  have "?A\<lparr>av_meta := None\<rparr> = (view sample_bincode (fs_db s))\<lparr>av_meta := None\<rparr>"
    by (rule matching_tip_keeps_rows [OF sample_bincode_ok s(1,2), of "steady fork_node", unfolded steady_simps, OF fork_tip]) (simp_all add: s(3,4))
  then have "av_blocks (?A\<lparr>av_meta := None\<rparr>) 5 = av_blocks ((view sample_bincode (fs_db s))\<lparr>av_meta := None\<rparr>) 5" by (rule arg_cong)
  with s(5-7) show ?thesis by simp
qed

end
