(* ===== verification/ChainIndex.thy ===== *)
theory ChainIndex
  imports FollowerTorn
begin

section \<open>The index is a function of the chain\<close>

text \<open>
  The abstract specification of the whole follower: the rows that a chain determines, block
  by block from genesis. As long as the node never contradicts that chain (it may fail, lag
  behind or serve a shorter part of it), every sequence of polls, with any write refused at any
  point and the checkpoint unreadable at any tick, leaves exactly the rows of the part of the
  chain up to the checkpoint. The one fault that shows is a failing read of a spent HTLC, which the follower takes for an
  HTLC that is not there: when one occurs, this holds of all rows but the settlements.
\<close>

subsection \<open>The specification\<close>

definition rows_of :: "StoreView \<Rightarrow> StoreView" where
  "rows_of A = A\<lparr>av_meta := None\<rparr>"

definition no_rows :: StoreView where
  "no_rows = \<lparr>av_meta = None, av_blocks = Map.empty, av_htlcs = Map.empty, av_settlements = Map.empty,
     av_activity = Map.empty, av_spent = Map.empty, av_datums = Map.empty\<rparr>"

text \<open>The rows that are compared with the chain's: all of them, or all but the settlements.\<close>

definition shown :: "bool \<Rightarrow> StoreView \<Rightarrow> StoreView" where
  "shown full A = (if full then rows_of A else (rows_of A)\<lparr>av_settlements := Map.empty\<rparr>)"

text \<open>The events of the chain's block at a height, over the rows of the blocks below it.\<close>

definition chain_events :: "'p exfer \<Rightarrow> hex \<Rightarrow> node \<Rightarrow> u64 \<Rightarrow> StoreView \<Rightarrow> BlockApplyEvents res" where
  "chain_events E H N h A =
     bind_res (lift (n_get_block_by_height N h)) (\<lambda>block.
     bind_res (decode_hex32 H (b_block_id block)) (\<lambda>block_id.
     bind_res (fold_res (scan_tx E H N h) (b_transactions block) empty_scan) (\<lambda>s.
       Inr \<lparr>ev_height = h, ev_block_id = block_id, ev_tx_count = b_tx_count block,
            ev_timestamp = b_timestamp block, ev_full_scan_complete = False, ev_started_at = 0,
            ev_locks = bs_locks s, ev_spends = bs_spends s,
            ev_settlements = concat (map (settlements_for E A h) (bs_spends s)),
            ev_activity = bs_activity s, ev_spent_by = bs_spent_by s, ev_output_datums = bs_output_datums s\<rparr>)))"

text \<open>The rows of the first blocks of a chain.\<close>

fun chain_rows :: "'p exfer \<Rightarrow> hex \<Rightarrow> node \<Rightarrow> nat \<Rightarrow> StoreView" where
  "chain_rows E H N 0 = no_rows"
| "chain_rows E H N (Suc n) =
     (case chain_events E H N (word_of_nat n) (chain_rows E H N n) of
        Inr ev \<Rightarrow> rows_of (spec_apply ev (chain_rows E H N n))
      | Inl _ \<Rightarrow> chain_rows E H N n)"

text \<open>The rows of a store that holds \<open>A\<close> when the walk over the chain begins, after the first blocks.\<close>

fun rows_over :: "'p exfer \<Rightarrow> hex \<Rightarrow> node \<Rightarrow> StoreView \<Rightarrow> nat \<Rightarrow> StoreView" where
  "rows_over E H N A 0 = rows_of A"
| "rows_over E H N A (Suc n) =
     (case chain_events E H N (word_of_nat n) (rows_over E H N A n) of
        Inr ev \<Rightarrow> rows_of (spec_apply ev (rows_over E H N A n))
      | Inl _ \<Rightarrow> rows_over E H N A n)"

text \<open>A node's answers that do not contradict the chain: a block or the bytes of a transaction, if
  given at all, are the chain's; the tip may be any height but the last 64-bit number.\<close>

definition consistent_with :: "node \<Rightarrow> node \<Rightarrow> bool" where
  "consistent_with N N' \<longleftrightarrow>
     (\<forall>h b. n_get_block_by_height N' h = Inr b \<longrightarrow> n_get_block_by_height N h = Inr b) \<and>
     (\<forall>t s. n_get_transaction N' t = Inr s \<longrightarrow>
        (\<exists>s0. n_get_transaction N t = Inr s0 \<and> st_tx_hex s0 = st_tx_hex s))"

definition serves_chain :: "node \<Rightarrow> answers \<Rightarrow> bool" where
  "serves_chain N A \<longleftrightarrow> consistent_with N (at_check A) \<and> (\<forall>h. consistent_with N (at_block A h)) \<and>
     (\<forall>tip. n_get_block_height (at_tip A) = Inr tip \<longrightarrow> tip_height tip \<noteq> - 1)"


text \<open>The reads of HTLCs that a block's spends make all succeed; any other read or write may fail.\<close>

definition peeks_succeed :: "faults \<Rightarrow> bool" where
  "peeks_succeed ft \<longleftrightarrow> (\<forall>h. ft_peek ft h = (\<lambda>_. None))"

lemma peeks_succeed_no_faults [simp]: "peeks_succeed no_faults"
  by (simp add: peeks_succeed_def)


subsection \<open>What a consistent node serves is the chain's\<close>

lemma rows_of_simps [simp]: "rows_of (rows_of A) = rows_of A" "rows_of (A\<lparr>av_meta := m\<rparr>) = rows_of A"
  "av_htlcs (rows_of A) = av_htlcs A" "rows_of no_rows = no_rows"
  by (simp_all add: rows_of_def no_rows_def)

lemma shown_simps [simp]: "shown True A = rows_of A" "shown full (rows_of A) = shown full A"
  "shown full (A\<lparr>av_meta := m\<rparr>) = shown full A"
  by (simp_all add: shown_def rows_of_def)

lemma shown_htlcs: "shown full A = shown full A' \<Longrightarrow> av_htlcs A = av_htlcs A'"
  by (drule arg_cong [of _ _ av_htlcs]) (simp add: shown_def rows_of_def split: if_splits)

lemma rows_of_chain_rows [simp]: "rows_of (chain_rows E H N n) = chain_rows E H N n"
  by (induction n) (simp_all split: sum.split)

lemma rows_of_rows_over [simp]: "rows_of (rows_over E H N A n) = rows_over E H N A n"
  by (induction n) (simp_all split: sum.split)

lemma rows_over_no_rows: "rows_over E H N no_rows n = chain_rows E H N n"
  by (induction n) (simp_all split: sum.split)

lemma rows_of_spec_apply: "rows_of (spec_apply ev A) = rows_of (spec_apply ev (rows_of A))"
  by (simp add: spec_apply_eq rows_of_def)

lemma rows_of_spec_apply_start: "rows_of (spec_apply (ev\<lparr>ev_started_at := t\<rparr>) A) = rows_of (spec_apply ev A)"
  by (simp add: spec_apply_eq rows_of_def locked_def)

lemma settlements_for_rows [simp]: "settlements_for E (rows_of A) = settlements_for E A"
  by (simp add: fun_eq_iff settlements_for_def)

lemma consistent_withE:
  assumes "consistent_with N N'" "n_get_transaction N' t = Inr s"
  obtains s0 where "n_get_transaction N t = Inr s0" "st_tx_hex s0 = st_tx_hex s"
  using assms unfolding consistent_with_def by blast

lemma fetch_tx_consistent:
  assumes "consistent_with N N'" "fetch_tx E H N' t = Inr x"
  shows "fetch_tx E H N t = Inr x"
proof -
  obtain s where "n_get_transaction N' (hex_encode H (byte_list t)) = Inr s"
    using assms(2) by (auto simp: fetch_tx_def bind_res_eq_Inr_iff lift_eq_Inr_iff)
  moreover from consistent_withE [OF assms(1) this] obtain s0 where
    "n_get_transaction N (hex_encode H (byte_list t)) = Inr s0" "st_tx_hex s0 = st_tx_hex s" .
  ultimately show ?thesis using assms(2) by (auto simp: fetch_tx_def lift_def split: if_splits)
qed

lemma scan_input_consistent:
  assumes "consistent_with N N'" "scan_input E H N' t h x s = Inr s'"
  shows "scan_input E H N t h x s = Inr s'"
proof -
  have "cache_prev_tx E H N inp c = Inr c'" if "cache_prev_tx E H N' inp c = Inr c'" for inp c c'
  proof (cases "c (prev_tx_id inp)")
    case None
    with that obtain x where "fetch_tx E H N' (prev_tx_id inp) = Inr x"
      by (auto simp: cache_prev_tx_def bind_res_eq_Inr_iff)
    with fetch_tx_consistent [OF assms(1) this] that None show ?thesis by (simp add: cache_prev_tx_def)
  qed (use that in \<open>simp add: cache_prev_tx_def\<close>)
  then show ?thesis
    using assms(2) by (cases x) (auto simp: scan_input_def Let_def bind_res_eq_Inr_iff)
qed

lemma fold_res_mono:
  assumes "fold_res f xs s = Inr s'" "\<And>x s s'. f x s = Inr s' \<Longrightarrow> g x s = Inr s'"
  shows "fold_res g xs s = Inr s'"
  using assms(1) by (induction xs arbitrary: s) (auto simp: bind_res_eq_Inr_iff intro: assms(2))

lemma scan_tx_consistent:
  assumes "consistent_with N N'" "scan_tx E H N' h t s = Inr s'"
  shows "scan_tx E H N h t s = Inr s'"
proof -
  obtain st where st: "n_get_transaction N' t = Inr st"
    using assms(2) by (auto simp: scan_tx_def bind_res_eq_Inr_iff lift_eq_Inr_iff)
  from consistent_withE [OF assms(1) this] obtain st0 where
    st0: "n_get_transaction N t = Inr st0" "st_tx_hex st0 = st_tx_hex st" .
  have "fold_res (scan_input E H N x h) ins s0 = Inr i" if "fold_res (scan_input E H N' x h) ins s0 = Inr i" for x ins s0 i
    using that by (rule fold_res_mono) (rule scan_input_consistent [OF assms(1)])
  moreover obtain bytes tx i where tx: "hex_decode H (st_tx_hex st) = Some bytes" "deserialize_tx E bytes = Some tx"
    "fold_res (scan_input E H N' (x_tx_id (extract_from_tx E tx h 0)) h)
       (if is_coinbase E tx then [] else enumerate 0 (tx_inputs tx))
       \<lparr>in_spent_by = bs_spent_by s, in_cache = bs_cache s, in_addrs = [], in_activity = x_activity (extract_from_tx E tx h 0)\<rparr> = Inr i"
    "s' = s\<lparr>bs_locks := bs_locks s @ x_locks (extract_from_tx E tx h 0),
            bs_spends := bs_spends s @ x_spends (extract_from_tx E tx h 0),
            bs_output_datums := bs_output_datums s @ x_output_datums (extract_from_tx E tx h 0),
            bs_spent_by := in_spent_by i, bs_cache := in_cache i,
            bs_activity := bs_activity s @ map (attach_counterparties
              (fold push_new (map a_address (x_activity (extract_from_tx E tx h 0))) []) (in_addrs i)) (in_activity i)\<rparr>"
    by (rule scan_txE [OF assms(2)]) (use st in auto)
  ultimately show ?thesis by (simp add: scan_tx_def st0 Let_def)
qed

text \<open>The settlements of a block, and the time the scan started, are seen in their own rows only.\<close>

lemma bare_spec_apply:
  assumes "shown False A = shown False A'"
  shows "shown False (spec_apply (ev\<lparr>ev_started_at := t, ev_settlements := ss\<rparr>) A) = shown False (spec_apply ev A')"
proof -
  have "f (shown False A) = f (shown False A')" for f :: "StoreView \<Rightarrow> 'x" using assms by simp
  from this [of av_blocks] this [of av_htlcs] this [of av_activity] this [of av_spent] this [of av_datums] show ?thesis
    by (simp add: shown_def rows_of_def spec_apply_eq locked_def)
qed

text \<open>The events the follower makes of a served block do to the rows what the chain's do.\<close>

lemma block_events_chain:
  assumes "consistent_with N N'" "n_get_block_by_height N' h = Inr block" "db_ok B d"
    and "block_events B E H N' peek h block started_at d = Inr ev" "full \<longrightarrow> peek = (\<lambda>_. None)"
    and "shown full (view B d) = shown full A"
  obtains ev' where "chain_events E H N h A = Inr ev'"
    "shown full (spec_apply ev (view B d)) = shown full (spec_apply ev' A)"
proof -
  have block: "n_get_block_by_height N h = Inr block"
    using assms(1,2) by (simp add: consistent_with_def)
  have total: "map_res (spend_settlements B E peek d h) sps = Inr (map (seen_settlements E peek (view B d) h) sps)" for sps
    by (rule map_res_total) (rule peek_view [OF assms(3)])
  from assms(4) obtain i s where bs: "decode_hex32 H (b_block_id block) = Inr i"
    "fold_res (scan_tx E H N' h) (b_transactions block) empty_scan = Inr s"
    "ev = \<lparr>ev_height = h, ev_block_id = i, ev_tx_count = b_tx_count block,
            ev_timestamp = b_timestamp block, ev_full_scan_complete = False, ev_started_at = started_at,
            ev_locks = bs_locks s, ev_spends = bs_spends s,
            ev_settlements = concat (map (seen_settlements E peek (view B d) h) (bs_spends s)),
            ev_activity = bs_activity s, ev_spent_by = bs_spent_by s, ev_output_datums = bs_output_datums s\<rparr>"
    by (auto simp: block_events_def bind_res_eq_Inr_iff total)
  from bs(2) have scan: "fold_res (scan_tx E H N h) (b_transactions block) empty_scan = Inr s"
    by (rule fold_res_mono) (rule scan_tx_consistent [OF assms(1)])
  let ?ev = "ev\<lparr>ev_started_at := 0, ev_settlements := concat (map (settlements_for E A h) (bs_spends s))\<rparr>"
  have "chain_events E H N h A = Inr ?ev"
    using bs(1) scan by (simp add: chain_events_def block bs(3))
  moreover have "shown full (spec_apply ev (view B d)) = shown full (spec_apply ?ev A)"
  proof (cases full)
    case True
    then have rows: "rows_of (view B d) = rows_of A" using assms(6) by simp
    have "settlements_for E (view B d) = settlements_for E A"
      using settlements_for_rows [of E "view B d"] settlements_for_rows [of E A] by (simp add: rows)
    then have "?ev = ev\<lparr>ev_started_at := 0\<rparr>" using True assms(5) by (simp add: bs(3))
    then show ?thesis
      using True rows rows_of_spec_apply [of ev "view B d"] rows_of_spec_apply [of ev A]
      by (simp add: rows_of_spec_apply_start)
  next
    case False
    then show ?thesis using bare_spec_apply [where A = A and A' = "view B d" and ev = ev] assms(6) by simp
  qed
  ultimately show ?thesis by (rule that)
qed


subsection \<open>The invariant\<close>

text \<open>The checkpoint after the first \<open>n\<close> blocks of the chain, and a store that holds these blocks, over
  the rows the walk began with or over none.\<close>

definition checkpoint_of :: "hex \<Rightarrow> node \<Rightarrow> nat \<Rightarrow> FollowerMeta \<Rightarrow> bool" where
  "checkpoint_of H N n m \<longleftrightarrow> n < 2 ^ 64 \<and>
     (case n of
        0 \<Rightarrow> m_last_indexed_height m = 0 \<and> m_last_indexed_block_id m = filled 0
      | Suc k \<Rightarrow> m_last_indexed_height m = word_of_nat k \<and>
          block_id_at H N (word_of_nat k) = Inr (m_last_indexed_block_id m))"

definition holds_over :: "'b bincode \<Rightarrow> 'p exfer \<Rightarrow> hex \<Rightarrow> node \<Rightarrow> bool \<Rightarrow> StoreView \<Rightarrow> nat \<Rightarrow> 'b db \<Rightarrow> bool" where
  "holds_over B E H N full A n d \<longleftrightarrow> store_ok B E d \<and> shown full (view B d) = shown full (rows_over E H N A n) \<and>
     (\<forall>k<n. \<exists>ev. chain_events E H N (word_of_nat k) (rows_over E H N A k) = Inr ev) \<and>
     (\<exists>m. load_meta B d = Inr m \<and> checkpoint_of H N n m)"

definition holds_blocks :: "'b bincode \<Rightarrow> 'p exfer \<Rightarrow> hex \<Rightarrow> node \<Rightarrow> bool \<Rightarrow> nat \<Rightarrow> 'b db \<Rightarrow> bool" where
  "holds_blocks B E H N full n d \<longleftrightarrow> store_ok B E d \<and> shown full (view B d) = shown full (chain_rows E H N n) \<and>
     (\<forall>k<n. \<exists>ev. chain_events E H N (word_of_nat k) (chain_rows E H N k) = Inr ev) \<and>
     (\<exists>m. load_meta B d = Inr m \<and> checkpoint_of H N n m)"

lemma holds_blocks_all: "holds_blocks B E H N True n d \<Longrightarrow> (view B d)\<lparr>av_meta := None\<rparr> = chain_rows E H N n"
  by (simp add: holds_blocks_def rows_of_def [of "view B d"])

lemma holds_over_no_rows: "holds_over B E H N full no_rows n d = holds_blocks B E H N full n d"
  by (simp add: holds_over_def holds_blocks_def rows_over_no_rows)

lemma unat_of_small: "n < 2 ^ 64 \<Longrightarrow> unat (word_of_nat n :: u64) = n"
  by (simp add: unat_of_nat)

lemma small_eq_0: "n < 2 ^ 64 \<Longrightarrow> (word_of_nat n :: u64) = 0 \<longleftrightarrow> n = 0"
  using unat_of_small [of n] unat_eq_0 [of "word_of_nat n :: u64"] by metis

lemma checkpoint_start:
  assumes "checkpoint_of H N n m" "block_id_at H N 0 \<noteq> Inr (filled 0)"
  shows "start_height m = word_of_nat n"
proof (cases n)
  case 0
  then show ?thesis using assms(1) by (simp add: checkpoint_of_def start_height_def)
next
  case (Suc k)
  then have k: "m_last_indexed_height m = word_of_nat k" "block_id_at H N (word_of_nat k) = Inr (m_last_indexed_block_id m)"
    "k < 2 ^ 64" using assms(1) by (simp_all add: checkpoint_of_def)
  have "\<not> (m_last_indexed_block_id m = filled 0 \<and> m_last_indexed_height m = 0)"
    using k assms(2) by auto
  then show ?thesis using k(1) Suc by (simp add: start_height_def add.commute)
qed

lemma checkpoint_of_fields:
  "checkpoint_of H N n (with_start now m) = checkpoint_of H N n m"
  "checkpoint_of H N n (m\<lparr>m_full_scan_complete := c\<rparr>) = checkpoint_of H N n m"
  by (simp_all add: checkpoint_of_def split: nat.split)

text \<open>One block of the walk: an error leaves the store, a success adds the chain's next block.\<close>

lemma index_block_result:
  obtains (failed) e s' where "index_block B E H N ft started_at h s = (Inl e, s')" "fs_db s' = fs_db s"
  | (indexed) s' where "index_block B E H N ft started_at h s = (Inr (), s')"
proof -
  obtain r s' where r: "index_block B E H N ft started_at h s = (r, s')" by force
  show ?thesis
  proof (cases r)
    case (Inl e)
    have "fs_db s' = fs_db s"
      using r Inl by (auto simp: index_block_def process_block_def bind_step_apply on_db_def write_txn_def send_tip_def Let_def
        split: sum.splits option.splits prod.splits)
    with r Inl show ?thesis by (auto intro: failed)
  next
    case (Inr u)
    with r show ?thesis by (auto intro: indexed)
  qed
qed

lemma index_block_holds:
  assumes "bincode_ok B" "exfer_ok E" "consistent_with N N'" "holds_over B E H N full A0 n (fs_db s)" "Suc n < 2 ^ 64"
    and "full \<longrightarrow> peeks_succeed ft" "index_block B E H N' ft started_at (word_of_nat n) s = (Inr (), s')"
  shows "holds_over B E H N full A0 (Suc n) (fs_db s')"
proof -
  have st: "store_ok B E (fs_db s)" "shown full (view B (fs_db s)) = shown full (rows_over E H N A0 n)" "db_ok B (fs_db s)"
    "\<forall>k<n. \<exists>ev. chain_events E H N (word_of_nat k) (rows_over E H N A0 k) = Inr ev"
    using assms(4) by (simp_all add: holds_over_def store_ok_def)
  obtain block ev d' where r: "n_get_block_by_height N' (word_of_nat n) = Inr block"
    "block_events B E H N' (ft_peek ft (word_of_nat n)) (word_of_nat n) block started_at (fs_db s) = Inr ev"
    "apply_block_events B ev (fs_db s) = Inr d'" "fs_db s' = d'"
    by (rule index_blockE [OF assms(7)])
  have id: "decode_hex32 H (b_block_id block) = Inr (ev_block_id ev)" "ev_height ev = word_of_nat n"
    by (rule block_eventsE [OF r(2)], assumption)+
  obtain d1 where "apply_block_events B ev (fs_db s) = Inr d1" "store_ok B E d1"
    "view B d1 = spec_apply ev (view B (fs_db s))"
    by (rule index_view [OF assms(1,2) st(1) r(2)])
  with r(3,4) have d': "store_ok B E (fs_db s')" "view B (fs_db s') = spec_apply ev (view B (fs_db s))" by simp_all
  have reads: "full \<longrightarrow> ft_peek ft (word_of_nat n) = (\<lambda>_. None)" using assms(6) by (simp add: peeks_succeed_def)
  obtain ev' where next_ev: "chain_events E H N (word_of_nat n) (rows_over E H N A0 n) = Inr ev'"
    and rows: "shown full (view B (fs_db s')) = shown full (spec_apply ev' (rows_over E H N A0 n))"
    unfolding d'(2) by (rule block_events_chain [OF assms(3) r(1) st(3) r(2) reads st(2)])
  have "shown full (view B (fs_db s')) = shown full (rows_over E H N A0 (Suc n))"
    by (simp add: rows next_ev)
  moreover have "load_meta B (fs_db s') = Inr (advanced_meta ev)"
    using load_meta_view [of B "fs_db s'"] d' by (simp add: store_ok_def spec_apply_eq)
  moreover have "block_id_at H N (word_of_nat n) = Inr (ev_block_id ev)"
    using assms(3) r(1) id(1) by (simp add: consistent_with_def block_id_at_def)
  then have "checkpoint_of H N (Suc n) (advanced_meta ev)"
    using assms(5) id(2) by (simp add: checkpoint_of_def advanced_meta_def)
  moreover have "\<forall>k<Suc n. \<exists>ev. chain_events E H N (word_of_nat k) (rows_over E H N A0 k) = Inr ev"
    using st(4) next_ev by (simp add: less_Suc_eq all_conj_distrib)
  ultimately show ?thesis using d'(1) by (auto simp: holds_over_def)
qed

lemma index_blocks_hold:
  assumes "bincode_ok B" "exfer_ok E" "\<And>h. consistent_with N (K h)" "a \<le> b" "b < 2 ^ 64"
    and "full \<longrightarrow> peeks_succeed ft" "holds_over B E H N full A0 a (fs_db s)"
  shows "\<exists>n. holds_over B E H N full A0 n
    (fs_db (snd (for_step (\<lambda>h. index_block B E H (K h) ft started_at h) (map word_of_nat [a..<b]) s)))"
  using assms(4,7)
proof (induction "b - a" arbitrary: a s)
  case 0
  then have "map word_of_nat [a..<b] = ([] :: u64 list)" by simp
  with 0 show ?case by auto
next
  case (Suc k)
  then have less: "a < b" by simp
  let ?f = "\<lambda>h. index_block B E H (K h) ft started_at h" and ?h = "word_of_nat a :: u64"
  have list: "map word_of_nat [a..<b] = ?h # map word_of_nat [Suc a..<b]"
    using less by (simp add: upt_conv_Cons)
  show ?case
  proof (rule index_block_result [of B E H "K ?h" ft started_at ?h s])
    fix e s' assume "?f ?h s = (Inl e, s')" "fs_db s' = fs_db s"
    then show ?thesis using Suc.prems(2) by (auto simp: list bind_step_apply)
  next
    fix s' assume step: "?f ?h s = (Inr (), s')"
    have "holds_over B E H N full A0 (Suc a) (fs_db s')"
      by (rule index_block_holds [OF assms(1-3) Suc.prems(2) _ assms(6) step]) (use less assms(5) in simp)
    with Suc.hyps(1) [of "Suc a" s'] Suc.hyps(2) less show ?thesis
      by (simp add: list bind_step_apply step)
  qed
qed


subsection \<open>Ticks and polls\<close>

text \<open>No reorg is seen while the checkpoint is the chain's.\<close>

lemma check_reorg_steady:
  assumes "consistent_with N (at_check A)" "checkpoint_of H N n meta"
  obtains (failed) e where "check_reorg B H A ft meta s = (Inl e, s)"
  | (passed) "check_reorg B H A ft meta s = (Inr meta, s)"
proof (cases "0 < m_last_indexed_height meta")
  case False
  then show ?thesis by (intro passed) (simp add: check_reorg_def)
next
  case True
  then obtain k where k: "n = Suc k" "m_last_indexed_height meta = word_of_nat k"
    "block_id_at H N (word_of_nat k) = Inr (m_last_indexed_block_id meta)"
    using assms(2) by (cases n) (simp_all add: checkpoint_of_def)
  show ?thesis
  proof (cases "n_get_block_by_height (at_check A) (word_of_nat k)")
    case (Inl e)
    then show ?thesis using True by (intro failed) (simp add: check_reorg_def bind_step_apply k(2))
  next
    case (Inr b)
    then have "n_get_block_by_height N (word_of_nat k) = Inr b"
      using assms(1) by (simp add: consistent_with_def)
    with k(3) have "decode_hex32 H (b_block_id b) = Inr (m_last_indexed_block_id meta)"
      by (simp add: block_id_at_def)
    with Inr show ?thesis using True by (intro passed) (simp add: check_reorg_def bind_step_apply k(2))
  qed
qed

lemma save_keeps_blocks:
  assumes "bincode_ok B" "holds_over B E H N full A0 n d" "checkpoint_of H N n m" "save_meta B m d = Inr d'"
  shows "holds_over B E H N full A0 n d'"
proof -
  have st: "store_ok B E d" "shown full (view B d) = shown full (rows_over E H N A0 n)"
    using assms(2) by (simp_all add: holds_over_def)
  obtain d1 where "save_meta B m d = Inr d1" "store_ok B E d1" "view B d1 = (view B d)\<lparr>av_meta := Some m\<rparr>"
    by (rule save_view [OF assms(1) st(1)])
  with assms(4) have d': "store_ok B E d'" "view B d' = (view B d)\<lparr>av_meta := Some m\<rparr>" by simp_all
  then have "load_meta B d' = Inr m" using load_meta_view [of B d'] by (simp add: store_ok_def)
  with d' st(2) assms(2,3) show ?thesis by (simp add: holds_over_def)
qed

lemma walk_forward_holds:
  assumes "bincode_ok B" "exfer_ok E" "block_id_at H N 0 \<noteq> Inr (filled 0)"
    and "\<And>h. consistent_with N (at_block A h)" "tip_height tip \<noteq> - 1" "full \<longrightarrow> peeks_succeed ft"
    and "holds_over B E H N full A0 n (fs_db s)" "checkpoint_of H N n meta"
  shows "\<exists>n. holds_over B E H N full A0 n (fs_db (snd (walk_forward B E H A ft tip meta s)))"
proof -
  have start: "start_height meta = word_of_nat n" by (rule checkpoint_start [OF assms(8,3)])
  have n: "n < 2 ^ 64" using assms(8) by (simp add: checkpoint_of_def)
  show ?thesis
  proof (cases "start_height meta > tip_height tip")
    case True
    let ?done = "meta\<lparr>m_full_scan_complete := True\<rparr>"
    have "holds_over B E H N full A0 n d'" if "save_meta B ?done (fs_db s) = Inr d'" for d'
      by (rule save_keeps_blocks [OF assms(1,7) _ that]) (simp add: checkpoint_of_fields assms(8))
    with True assms(7) show ?thesis
      by (intro exI [of _ n])
        (auto simp: walk_forward_def Let_def bind_step_apply on_db_def write_txn_def send_tip_def
          split: option.splits sum.splits)
  next
    case False
    have top: "Suc (unat (tip_height tip)) < 2 ^ 64"
      using unat_succ_u64 [OF assms(5)] unat_u64_less [of "tip_height tip + 1"] by simp
    have "n \<le> Suc (unat (tip_height tip))"
      using False unat_of_small [OF n] by (simp add: start word_le_nat_alt not_less)
    from index_blocks_hold [where K = "at_block A", OF assms(1,2,4) this top assms(6,7), of "m_started_at meta"]
    show ?thesis
      using False by (simp add: walk_forward_def Let_def start heights_def unat_of_small [OF n] del: upt_Suc)
  qed
qed

lemma tick_holds:
  assumes "bincode_ok B" "exfer_ok E" "block_id_at H N 0 \<noteq> Inr (filled 0)" "serves_chain N A"
    and "full \<longrightarrow> peeks_succeed ft" "holds_over B E H N full A0 n (fs_db s)"
  shows "\<exists>n. holds_over B E H N full A0 n (fs_db (snd (tick B E H A ft now s)))"
proof -
  have A: "consistent_with N (at_check A)" "\<And>h. consistent_with N (at_block A h)"
    "\<And>tip. n_get_block_height (at_tip A) = Inr tip \<Longrightarrow> tip_height tip \<noteq> - 1"
    using assms(4) by (simp_all add: serves_chain_def)
  obtain m where m: "load_meta B (fs_db s) = Inr m" "checkpoint_of H N n m"
    using assms(6) by (auto simp: holds_over_def)
  show ?thesis
  proof (cases "ft_load ft")
    case None
    show ?thesis
    proof (cases "n_get_block_height (at_tip A)")
      case (Inl e)
      then show ?thesis using assms(6) by (auto simp: tick_def bind_step_apply)
    next
      case (Inr tip)
      have m': "checkpoint_of H N n (with_start now m)" using m(2) by (simp add: checkpoint_of_fields)
      show ?thesis
      proof (rule check_reorg_steady [OF A(1) m', of B ft s])
        fix e assume "check_reorg B H A ft (with_start now m) s = (Inl e, s)"
        then show ?thesis using assms(6) by (auto simp: tick_def bind_step_apply Inr m(1) None)
      next
        assume "check_reorg B H A ft (with_start now m) s = (Inr (with_start now m), s)"
        then have "tick B E H A ft now s = walk_forward B E H A ft tip (with_start now m) s"
          by (simp add: tick_def bind_step_apply Inr m(1) None)
        then show ?thesis
          using walk_forward_holds [OF assms(1-3) A(2) A(3) [OF Inr] assms(5,6) m'] by simp
      qed
    qed
  qed (use assms(6) in \<open>auto simp: tick_load_fault\<close>)
qed

lemma polls_hold:
  assumes "bincode_ok B" "exfer_ok E" "block_id_at H N 0 \<noteq> Inr (filled 0)"
    and "list_all (\<lambda>(A, ft, _). serves_chain N A \<and> (full \<longrightarrow> peeks_succeed ft)) polls" "holds_over B E H N full A0 n (fs_db s)"
  shows "\<exists>n. holds_over B E H N full A0 n (fs_db (run_polls B E H polls s))"
  using assms(4,5)
proof (induction polls arbitrary: s n)
  case (Cons p polls)
  obtain A ft now where p: "p = (A, ft, now)" by (cases p)
  obtain n' where "holds_over B E H N full A0 n' (fs_db (snd (tick B E H A ft now s)))"
    using tick_holds [OF assms(1-3) _ _ Cons.prems(2)] Cons.prems(1) p by fastforce
  with Cons.IH Cons.prems(1) show ?case by (simp add: p)
qed auto

lemmas walk_forward_holds_blocks = walk_forward_holds [where ?A0.0 = no_rows, unfolded holds_over_no_rows]

lemmas polls_hold_blocks = polls_hold [where ?A0.0 = no_rows, unfolded holds_over_no_rows]

lemma holds_blocks_empty [simp]: "holds_blocks B E H N full 0 open_all_tables"
  using load_meta_view [of B open_all_tables]
  by (simp add: holds_blocks_def rows_of_def no_rows_def checkpoint_of_def FollowerMeta_default_def)

lemma polls_hold_start:
  assumes "bincode_ok B" "exfer_ok E" "block_id_at H N 0 \<noteq> Inr (filled 0)"
    and "list_all (\<lambda>(A, ft, _). serves_chain N A \<and> (full \<longrightarrow> peeks_succeed ft)) polls" "fs_db s = open_all_tables"
  obtains m where "load_meta B (fs_db (run_polls B E H polls s)) = Inr m"
    "holds_blocks B E H N full (unat (start_height m)) (fs_db (run_polls B E H polls s))"
proof -
  have "holds_blocks B E H N full 0 (fs_db s)" using assms(5) by simp
  then obtain n where n: "holds_blocks B E H N full n (fs_db (run_polls B E H polls s))"
    using polls_hold_blocks [OF assms(1-4)] by blast
  then obtain m where m: "load_meta B (fs_db (run_polls B E H polls s)) = Inr m" "checkpoint_of H N n m"
    by (auto simp: holds_blocks_def)
  then have "unat (start_height m) = n"
    using checkpoint_start [OF m(2) assms(3)] by (simp add: checkpoint_of_def unat_of_small)
  with n m(1) that show ?thesis by simp
qed

text \<open>C3: the index is exactly the chain's: start from an empty database and poll any number of times a node
  that never contradicts one chain (it may fail, lag, serve a shorter chain, or grow), with
  any read or write refused at any point and any interruption of a walk; then the rows of the
  store but the settlements are those that the chain's blocks below the next height to index
  determine, and nothing else, and so are the settlements when no read of a spent HTLC failed. So what the store holds depends on the checkpoint alone, not on how it got there. The
  genesis block must not have the all-zero id.\<close>

theorem index_is_of_chain:
  assumes "bincode_ok B" "exfer_ok E" "block_id_at H N 0 \<noteq> Inr (filled 0)"
    and "list_all (\<lambda>(A, _, _). serves_chain N A) polls" "fs_db s = open_all_tables"
  shows "\<exists>m. load_meta B (fs_db (run_polls B E H polls s)) = Inr m \<and>
    (view B (fs_db (run_polls B E H polls s)))\<lparr>av_meta := None, av_settlements := Map.empty\<rparr> =
      (chain_rows E H N (unat (start_height m)))\<lparr>av_settlements := Map.empty\<rparr> \<and>
    (list_all (\<lambda>(_, ft, _). peeks_succeed ft) polls \<longrightarrow>
      (view B (fs_db (run_polls B E H polls s)))\<lparr>av_meta := None\<rparr> = chain_rows E H N (unat (start_height m)))"
proof -
  let ?d = "fs_db (run_polls B E H polls s)"
  have serves: "list_all (\<lambda>(A, ft, _). serves_chain N A \<and> (full \<longrightarrow> peeks_succeed ft)) polls"
    if "full \<longrightarrow> list_all (\<lambda>(_, ft, _). peeks_succeed ft) polls" for full
    using assms(4) that by (auto simp: list_all_iff)
  obtain m where m: "load_meta B ?d = Inr m" "holds_blocks B E H N False (unat (start_height m)) ?d"
    by (rule polls_hold_start [OF assms(1-3) serves assms(5), of False]) simp
  have "holds_blocks B E H N True (unat (start_height m)) ?d" if "list_all (\<lambda>(_, ft, _). peeks_succeed ft) polls"
    using polls_hold_start [OF assms(1-3) serves assms(5), of True] that m(1) by auto
  with m show ?thesis
    by (auto simp: holds_blocks_def shown_def rows_of_def rows_of_chain_rows [unfolded rows_of_def])
qed

text \<open>A first poll whose write of block 3 is refused, one that finds the node down, one whose reorg check is
  not answered, one that cannot read the checkpoint, and one that succeeds.\<close>

definition down_node :: node where
  "down_node = \<lparr>n_get_block_height = Inl (UpstreamUnreachable ''down''),
     n_get_block_by_height = (\<lambda>_. Inl (UpstreamUnreachable ''down'')),
     n_get_transaction = (\<lambda>_. Inl (UpstreamUnreachable ''down'')),
     n_get_output_spent_by = (\<lambda>_ _. Inl (UpstreamUnreachable ''down''))\<rparr>"

definition bumpy_polls :: "(answers \<times> faults \<times> u64) list" where
  "bumpy_polls =
     [(steady sample_node, no_faults\<lparr>ft_apply := (\<lambda>h. if h = 3 then Some (CommitError ''io'') else None)\<rparr>, 7),
      (steady down_node, no_faults, 8),
      ((steady sample_node)\<lparr>at_check := down_node\<rparr>, no_faults, 9),
      (steady sample_node, no_faults\<lparr>ft_load := Some (StorageError ''io'')\<rparr>, 9),
      (steady sample_node, no_faults, 10)]"

lemma sample_tip: "n_get_block_height sample_node = Inr tip \<Longrightarrow> tip_height tip = 6"
  by (auto simp: sample_node_def)

lemma consistent_sample: "consistent_with sample_node sample_node" "consistent_with sample_node down_node"
  "n_get_block_height down_node \<noteq> Inr tip"
  by (simp_all add: consistent_with_def down_node_def)

lemma bumpy_serves: "list_all (\<lambda>(A, _, _). serves_chain sample_node A) bumpy_polls"
  "list_all (\<lambda>(_, ft, _). peeks_succeed ft) bumpy_polls"
  using sample_tip by (auto simp: peeks_succeed_def bumpy_polls_def serves_chain_def consistent_sample)

lemma sample_genesis: "block_id_at sample_hex sample_node 0 \<noteq> Inr (filled 0)"
  by simp

lemma sample_run:
  obtains s' m where
    "tick sample_bincode sample_exfer sample_hex (steady sample_node) no_faults now \<lparr>fs_db = open_all_tables, fs_tip = 0\<rparr> = (Inr (), s')"
    "load_meta sample_bincode (fs_db s') = Inr m" "start_height m = 7"
proof -
  let ?s = "\<lparr>fs_db = open_all_tables, fs_tip = 0\<rparr> :: blob FollowerState"
  have tip: "n_get_block_height (at_tip (steady sample_node)) = Inr \<lparr>tip_height = 6, tip_block_id = b_block_id (sample_block 100
        (\<lambda>h. if h = 4 then [tx_hex 3] else if h = 5 then [tx_hex 4] else if h = 6 then [tx_hex 7] else []) 6)\<rparr>"
    by (simp add: sample_node_def)
  obtain s' where s': "tick sample_bincode sample_exfer sample_hex (steady sample_node) no_faults now ?s = (Inr (), s')"
    "checkpoint_at sample_bincode sample_hex sample_node 6 (fs_db s')"
    by (rule tick_indexes [OF sample_bincode_ok sample_exfer_ok _ _ tip,
          where s = ?s and m = FollowerMeta_default and H = sample_hex and now = now])
      (use readable_sample fresh_checkpoint in \<open>simp_all\<close>)
  from s'(2) obtain m where "load_meta sample_bincode (fs_db s') = Inr m" "m_last_indexed_height m = 6"
    by (auto simp: checkpoint_at_def)
  with s'(1) that show ?thesis by (simp add: start_height_def)
qed

theorem index_is_of_chain_witness:
  "\<exists>m. load_meta sample_bincode (fs_db (run_polls sample_bincode sample_exfer sample_hex bumpy_polls
       \<lparr>fs_db = open_all_tables, fs_tip = 0\<rparr>)) = Inr m \<and>
     (view sample_bincode (fs_db (run_polls sample_bincode sample_exfer sample_hex bumpy_polls
       \<lparr>fs_db = open_all_tables, fs_tip = 0\<rparr>)))\<lparr>av_meta := None\<rparr> =
     chain_rows sample_exfer sample_hex sample_node (unat (start_height m))"
  using index_is_of_chain [OF sample_bincode_ok sample_exfer_ok sample_genesis bumpy_serves(1),
      of "\<lparr>fs_db = open_all_tables, fs_tip = 0\<rparr>"] bumpy_serves(2) by auto

end
