(* ===== verification/FollowerHistory.thy ===== *)
theory FollowerHistory
  imports FollowerWitness
begin

section \<open>What an address's history says of a block\<close>

text \<open>
  The stored activity row of an address, a transaction and a direction, traced back from the
  store to the outputs of the transaction in the block. A transaction may pay an address
  more than once; the table has one row for it.
\<close>

text \<open>The transaction the node serves under an id, and the amounts it pays to an address.\<close>

definition served_tx :: "'p exfer \<Rightarrow> hex \<Rightarrow> node \<Rightarrow> string \<Rightarrow> Transaction option" where
  "served_tx E H N txid =
     (case n_get_transaction N txid of
        Inl _ \<Rightarrow> None
      | Inr status \<Rightarrow> Option.bind (hex_decode H (st_tx_hex status)) (deserialize_tx E))"

definition paid :: "32 bytes \<Rightarrow> Transaction \<Rightarrow> u64 list" where
  "paid a tx = map out_value (filter (\<lambda>out. length (out_script out) = 32 \<and> Bytes (out_script out) = a) (tx_outputs tx))"

text \<open>The amounts of the received rows of an address and a transaction id.\<close>

definition received :: "32 bytes \<Rightarrow> 32 bytes \<Rightarrow> AddressActivity list \<Rightarrow> u64 list" where
  "received a t rs = map a_amount (filter (\<lambda>r. \<not> a_is_input r \<and> a_address r = a \<and> a_tx_id r = t) rs)"

lemma received_append [simp]: "received a t (xs @ ys) = received a t xs @ received a t ys"
  by (simp add: received_def)

lemma received_attach [simp]: "received a t (map (attach_counterparties os ins) rs) = received a t rs"
  by (induction rs) (simp_all add: received_def attach_counterparties_def)

lemma received_inputs: "list_all (\<lambda>r. a_is_input r \<and> a_tx_id r = x) rs \<Longrightarrow> received a t rs = []"
  by (induction rs) (simp_all add: received_def)

lemma received_outputs:
  "received a t (concat (map (\<lambda>(v, out). extract_activity t' c out) (enumerate n outs))) =
     (if t' = t then map out_value (filter (\<lambda>out. length (out_script out) = 32 \<and> Bytes (out_script out) = a) outs) else [])"
proof (induction outs arbitrary: n)
  case (Cons out outs)
  then show ?case by (simp add: extract_activity_def received_def)
qed (simp add: received_def)

lemma received_extracted:
  "received a t (x_activity (extract_from_tx E tx h l)) = (if tx_id_of E tx = Some t then paid a tx else [])"
proof (cases "tx_id_of E tx")
  case None
  then show ?thesis by (simp add: extract_from_tx_None ExtractedTx_default_def received_def)
next
  case (Some t')
  then show ?thesis by (simp add: extract_from_tx_Some received_outputs paid_def)
qed

lemma scan_tx_received:
  assumes "scan_tx E H N h txid s = Inr s'"
  obtains tx where "served_tx E H N txid = Some tx"
    "received a t (bs_activity s') = received a t (bs_activity s) @ (if tx_id_of E tx = Some t then paid a tx else [])"
proof -
  obtain status bytes tx i where tx: "n_get_transaction N txid = Inr status" "hex_decode H (st_tx_hex status) = Some bytes"
      "deserialize_tx E bytes = Some tx"
    and i: "fold_res (scan_input E H N (x_tx_id (extract_from_tx E tx h 0)) h)
       (if is_coinbase E tx then [] else enumerate 0 (tx_inputs tx))
       \<lparr>in_spent_by = bs_spent_by s, in_cache = bs_cache s, in_addrs = [], in_activity = x_activity (extract_from_tx E tx h 0)\<rparr> = Inr i"
    and s': "bs_activity s' = bs_activity s @ map (attach_counterparties
             (fold push_new (map a_address (x_activity (extract_from_tx E tx h 0))) []) (in_addrs i)) (in_activity i)"
    by (rule scan_txE [OF assms]) simp
  have "scan_ok (x_tx_id (extract_from_tx E tx h 0)) (x_activity (extract_from_tx E tx h 0)) i"
    by (rule fold_res_invariant [OF i]) (simp add: scan_ok_def, rule scan_input_ok)
  then have "received a t (in_activity i) = received a t (x_activity (extract_from_tx E tx h 0))"
    by (auto simp: scan_ok_def received_inputs)
  then show ?thesis
    by (intro that [of tx]) (simp_all add: served_tx_def tx s' received_extracted)
qed

text \<open>Over a block: when an id commits to the outputs, every occurrence of the transaction pays the same.\<close>

lemma scan_block_received:
  assumes "exfer_ok E" "fold_res (scan_tx E H N h) txs s = Inr s'"
    and "served_tx E H N x = Some tx" "tx_id_of E tx = Some t"
  shows "\<exists>n. received a t (bs_activity s') = received a t (bs_activity s) @ concat (replicate n (paid a tx)) \<and>
    (x \<in> set txs \<longrightarrow> 0 < n)"
  using assms(2)
proof (induction txs arbitrary: s)
  case Nil
  then show ?case by (auto intro: exI [of _ 0])
next
  case (Cons y txs)
  then obtain s1 where s1: "scan_tx E H N h y s = Inr s1" "fold_res (scan_tx E H N h) txs s1 = Inr s'"
    by (auto simp: bind_res_eq_Inr_iff)
  obtain tx' where tx': "served_tx E H N y = Some tx'"
    "received a t (bs_activity s1) = received a t (bs_activity s) @ (if tx_id_of E tx' = Some t then paid a tx' else [])"
    by (rule scan_tx_received [OF s1(1)])
  obtain n where n: "received a t (bs_activity s') = received a t (bs_activity s1) @ concat (replicate n (paid a tx))"
    "x \<in> set txs \<longrightarrow> 0 < n" using Cons.IH [OF s1(2)] by blast
  show ?case
  proof (cases "tx_id_of E tx' = Some t")
    case True
    then have "tx_outputs tx' = tx_outputs tx"
      using assms(1,4) unfolding exfer_ok_def by blast
    then have "paid a tx' = paid a tx" by (simp add: paid_def)
    with True tx'(2) n(1) show ?thesis by (intro exI [of _ "Suc n"]) simp
  next
    case False
    with assms(3,4) tx'(1) have "y \<noteq> x" by auto
    with False tx'(2) n show ?thesis by (intro exI [of _ n]) auto
  qed
qed

lemma last_concat_replicate: "vs \<noteq> [] \<Longrightarrow> 0 < n \<Longrightarrow> last (concat (replicate n vs)) = last vs \<and> concat (replicate n vs) \<noteq> []"
proof (induction n)
  case (Suc n)
  then show ?case by (cases "n = 0") auto
qed simp

text \<open>The stored row is the last one written under its key.\<close>

lemma written_amount:
  "map_option v_amount (written (activity_key_of h) activity_value_of rs (a, h, t, DIR_OUTPUT_TO)) =
     (if received a t rs = [] then None else Some (last (received a t rs)))"
proof (induction rs rule: rev_induct)
  case Nil
  then show ?case by (simp add: written_def received_def)
next
  case (snoc r rs)
  have "written (activity_key_of h) activity_value_of (rs @ [r]) =
      (written (activity_key_of h) activity_value_of rs)(activity_key_of h r \<mapsto> activity_value_of r)"
    by (simp add: written_def)
  moreover have "(a, h, t, DIR_OUTPUT_TO) = activity_key_of h r \<longleftrightarrow> \<not> a_is_input r \<and> a_address r = a \<and> a_tx_id r = t"
    by (auto simp: activity_key_of_def DIR_OUTPUT_TO_def DIR_INPUT_FROM_def)
  moreover have "received a t [r] = (if \<not> a_is_input r \<and> a_address r = a \<and> a_tx_id r = t then [a_amount r] else [])"
    by (simp add: received_def)
  moreover have "v_amount (activity_value_of r) = a_amount r" by (simp add: activity_value_of_def)
  ultimately show ?case
    using snoc by (cases "\<not> a_is_input r \<and> a_address r = a \<and> a_tx_id r = t") simp_all
qed

text \<open>C19: what a received row says: after a block is indexed, the row of an address for a transaction of
  the block has the value of the last output that pays the address, and there is one row for
  all of them; what the other outputs pay does not show. An address that is not paid gets no row.\<close>

theorem received_amount_is_last:
  assumes "bincode_ok B" "exfer_ok E" "store_ok B E d"
    and "block_events B E H N peek h block started_at d = Inr ev" "apply_block_events B ev d = Inr d'"
    and "txid \<in> set (b_transactions block)" "served_tx E H N txid = Some tx" "tx_id_of E tx = Some t"
  shows "map_option v_amount (av_activity (view B d') (a, h, t, DIR_OUTPUT_TO)) =
    (if paid a tx = [] then map_option v_amount (av_activity (view B d) (a, h, t, DIR_OUTPUT_TO))
     else Some (last (paid a tx)))"
proof -
  obtain s :: BlockScan where s: "fold_res (scan_tx E H N h) (b_transactions block) empty_scan = Inr s"
    "ev_activity ev = bs_activity s" "ev_height ev = h"
    by (rule block_eventsE [OF assms(4)])
  obtain n where "received a t (bs_activity s) = concat (replicate n (paid a tx))" "0 < n"
    using scan_block_received [OF assms(2) s(1) assms(7,8), of a] assms(6) by (auto simp: empty_scan_def received_def)
  then have rows: "map_option v_amount (written (activity_key_of h) activity_value_of (ev_activity ev) (a, h, t, DIR_OUTPUT_TO)) =
      (if paid a tx = [] then None else Some (last (paid a tx)))"
    using last_concat_replicate [of "paid a tx" n] by (simp add: written_amount s(2))
  obtain d1 where "apply_block_events B ev d = Inr d1" "view B d1 = spec_apply ev (view B d)"
    by (rule index_view [OF assms(1-4)])
  with assms(5) have "av_activity (view B d') =
      av_activity (view B d) ++ written (activity_key_of h) activity_value_of (ev_activity ev)"
    by (simp add: spec_apply_eq s(3))
  with rows show ?thesis by (auto simp: map_add_def split: option.splits if_splits)
qed

text \<open>A coinbase that pays one address twice.\<close>

definition twice_tx :: Transaction where
  "twice_tx = \<lparr>tx_inputs = [], tx_outputs =
     [\<lparr>out_value = 120, out_script = byte_list (filled 1 :: 32 bytes), out_datum = None, out_datum_hash = None\<rparr>,
      \<lparr>out_value = 30, out_script = byte_list (filled 1 :: 32 bytes), out_datum = None, out_datum_hash = None\<rparr>],
     tx_witnesses = []\<rparr>"

definition twice_exfer :: "unit exfer" where
  "twice_exfer = sample_exfer\<lparr>tx_id_of := (\<lambda>tx. if tx = twice_tx then Some (filled 3) else None),
     is_coinbase := (\<lambda>_. True), deserialize_tx := (\<lambda>_. Some twice_tx)\<rparr>"

definition twice_block :: BlockSummary where
  "twice_block = sample_block 100 (\<lambda>_. [tx_hex 3]) 4"

lemma twice_exfer_ok: "exfer_ok twice_exfer"
  by (auto simp: exfer_ok_def twice_exfer_def twice_tx_def split: if_splits)

lemma twice_served: "served_tx twice_exfer sample_hex sample_node (tx_hex 3) = Some twice_tx"
  by (simp add: served_tx_def sample_node_def sample_status_def twice_exfer_def)

lemma paid_twice: "paid (filled 1) twice_tx = [120, 30]"
proof -
  have "Bytes (replicate 32 1) = (filled 1 :: 32 bytes)" by (simp add: filled_def)
  then show ?thesis by (simp add: paid_def twice_tx_def)
qed

lemma twice_events:
  obtains ev where
    "block_events sample_bincode twice_exfer sample_hex sample_node (\<lambda>_. None) 4 twice_block 0 open_all_tables = Inr ev"
proof -
  obtain s where s: "scan_tx twice_exfer sample_hex sample_node 4 (tx_hex 3) empty_scan = Inr s"
    "bs_spends s = []"
    by (simp add: scan_tx_def sample_node_def sample_status_def twice_exfer_def Let_def empty_scan_def
        extract_from_tx_Some)
  then show ?thesis
    using that by (simp add: block_events_def twice_block_def)
qed

theorem received_amount_is_last_witness:
  "\<exists>ev d. block_events sample_bincode twice_exfer sample_hex sample_node (\<lambda>_. None) 4 twice_block 0 open_all_tables = Inr ev \<and>
     apply_block_events sample_bincode ev open_all_tables = Inr d \<and> paid (filled 1) twice_tx = [120, 30] \<and>
     map_option v_amount (av_activity (view sample_bincode d) (filled 1, 4, filled 3, DIR_OUTPUT_TO)) = Some 30"
proof -
  obtain ev where ev: "block_events sample_bincode twice_exfer sample_hex sample_node (\<lambda>_. None) 4 twice_block 0 open_all_tables = Inr ev"
    by (rule twice_events)
  obtain d where d: "apply_block_events sample_bincode ev open_all_tables = Inr d"
    by (rule index_view [OF sample_bincode_ok twice_exfer_ok store_ok_empty ev])
  have "map_option v_amount (av_activity (view sample_bincode d) (filled 1, 4, filled 3, DIR_OUTPUT_TO)) =
    (if paid (filled 1) twice_tx = [] then map_option v_amount
       (av_activity (view sample_bincode open_all_tables) (filled 1, 4, filled 3, DIR_OUTPUT_TO))
     else Some (last (paid (filled 1) twice_tx)))"
    by (rule received_amount_is_last [OF sample_bincode_ok twice_exfer_ok store_ok_empty ev d _ twice_served])
      (simp_all add: twice_block_def twice_exfer_def)
  with ev d show ?thesis by (auto simp: paid_twice)
qed

end
