(* ===== verification/HtlcQueries.thy ===== *)
theory HtlcQueries
  imports Sample Paging
begin

section \<open>HTLC queries (\<^verbatim>\<open>src/db/mod.rs\<close>, lines 35-46, 177-197, 450-617, 841-928)\<close>

text \<open>
  Reads over the HTLC tables: by outpoint, by hashlock, the filtered and paged list, and the
  groups of HTLCs that share a hashlock. The list takes one of two paths, a scan of the
  sender and receiver indexes or a scan of the primary table; both give the records that
  match the filter, so the result does not depend on the path.
\<close>

subsection \<open>Operations\<close>

record HtlcFilter =
  f_role :: "HtlcRole option"
  f_states :: "HtlcState list"
  f_address :: "32 bytes option"
  f_since_height :: "u64 option"

definition filter_matches :: "HtlcRecord \<Rightarrow> HtlcFilter \<Rightarrow> bool" where
  "filter_matches r f \<longleftrightarrow>
     (case f_role f of Some rl \<Rightarrow> role r = rl | None \<Rightarrow> True) \<and>
     (f_states f = [] \<or> state r \<in> set (f_states f)) \<and>
     (case f_address f of Some addr \<Rightarrow> sender (params r) = addr \<or> receiver (params r) = addr | None \<Rightarrow> True) \<and>
     (case f_since_height f of Some since \<Rightarrow> \<not> lock_height_or_max r < since | None \<Rightarrow> True)"

definition get_htlc :: "'b bincode \<Rightarrow> 'b db \<Rightarrow> 32 bytes \<Rightarrow> u32 \<Rightarrow> HtlcRecord option res" where
  "get_htlc B d tx_id i = get_rec (cd_htlc B) ''decode htlc'' (HTLC_FULL d) (htlc_primary_key tx_id i)"

text \<open>The records under a list of primary keys: a missing row is skipped, a bad one an error.\<close>

definition read_htlcs :: "'b bincode \<Rightarrow> 'b db \<Rightarrow> u8 list list \<Rightarrow> HtlcRecord list res" where
  "read_htlcs B d pks = collect_res (get_rec (cd_htlc B) ''decode htlc'' (HTLC_FULL d)) pks"

definition lookup_by_hashlock :: "'b bincode \<Rightarrow> 'b db \<Rightarrow> 32 bytes \<Rightarrow> HtlcRecord list res" where
  "lookup_by_hashlock B d hl =
     bind_res (collect_res (\<lambda>(k, _).
         if length k = 68
         then bind_res (bind_res (slice_from 32 k) copy_from_slice) (\<lambda>pk :: 36 bytes. Inr (Some (byte_list pk)))
         else Inr None)
       (t_range (HTLC_BY_HASHLOCK d) (prefix_lo 68 (byte_list hl)) (prefix_hi 68 (byte_list hl))))
     (read_htlcs B d)"

text \<open>The two index scans of the list, into an ordered set of primary keys.\<close>

definition scan_party :: "32 bytes \<Rightarrow> (u8 list, unit) table \<Rightarrow> u8 list list \<Rightarrow> u8 list list res" where
  "scan_party addr t keys =
     fold_res (\<lambda>(k, _) keys.
         if length k = 76
         then
           bind_res (bind_res (slice_range 40 72 k) copy_from_slice) (\<lambda>tx :: 32 bytes.
           bind_res (bind_res (slice_from 72 k) copy_from_slice) (\<lambda>i :: 4 bytes.
             Inr (insort_insert (byte_list tx @ byte_list i) keys)))
         else Inr keys)
       (t_range t (prefix_lo 76 (byte_list addr)) (prefix_hi 76 (byte_list addr))) keys"

definition materialize :: "'b bincode \<Rightarrow> 'b db \<Rightarrow> HtlcFilter \<Rightarrow> HtlcRecord list res" where
  "materialize B d f =
     (case f_address f of
        Some addr \<Rightarrow>
          bind_res (scan_party addr (HTLC_BY_SENDER d) []) (\<lambda>keys.
          bind_res (scan_party addr (HTLC_BY_RECEIVER d) keys) (read_htlcs B d))
      | None \<Rightarrow> map_res (\<lambda>blob. ok_or (de (cd_htlc B) blob) (Storage ''decode htlc'')) (map snd (t_iter (HTLC_FULL d))))"

definition htlc_order :: "HtlcRecord \<Rightarrow> u64 \<times> 32 bytes \<times> u32" where
  "htlc_order r = (lock_height_or_max r, lock_tx_id r, output_index r)"

definition cursor_of :: "u64 \<times> 32 bytes \<times> u32 \<Rightarrow> Cursor" where
  "cursor_of = (\<lambda>(h, t, i). \<lparr>cu_lock_height = h, cu_lock_tx_id = t, cu_output_index = i\<rparr>)"

definition cursor_order :: "Cursor \<Rightarrow> u64 \<times> 32 bytes \<times> u32" where
  "cursor_order c = (cu_lock_height c, cu_lock_tx_id c, cu_output_index c)"

definition list_htlcs ::
  "'b bincode \<Rightarrow> 'b db \<Rightarrow> HtlcFilter \<Rightarrow> nat \<Rightarrow> Cursor option \<Rightarrow> (HtlcRecord list \<times> Cursor option) res" where
  "list_htlcs B d f limit cursor =
     bind_res (materialize B d f) (\<lambda>rows.
     bind_res (page_asc htlc_order limit (map_option cursor_order cursor) (filter (\<lambda>r. filter_matches r f) rows)) (\<lambda>(rows, next).
       Inr (rows, map_option cursor_of next)))"

record SharedHashlockGroup =
  g_hash_lock :: "32 bytes"
  g_htlcs :: "HtlcRecord list"

text \<open>
  The scan of the hashlock index: the run being collected, and the runs of more than one key
  pushed so far; it stops as soon as the limit is reached.
\<close>

fun scan_groups ::
  "nat \<Rightarrow> (32 bytes \<times> u8 list) list \<Rightarrow> (32 bytes \<times> u8 list list) option \<Rightarrow> (32 bytes \<times> u8 list list) list \<Rightarrow>
   (32 bytes \<times> u8 list list) list" where
  "scan_groups limit [] current groups =
     (case current of
        Some (hl, pks) \<Rightarrow> if length pks > 1 \<and> length groups < limit then groups @ [(hl, pks)] else groups
      | None \<Rightarrow> groups)"
| "scan_groups limit ((hl, pk) # ks) current groups =
     (case current of
        Some (hl', pks) \<Rightarrow>
          (if hl' = hl then scan_groups limit ks (Some (hl', pks @ [pk])) groups
           else if length pks > 1
             then (if length (groups @ [(hl', pks)]) \<ge> limit then groups @ [(hl', pks)]
                   else scan_groups limit ks (Some (hl, [pk])) (groups @ [(hl', pks)]))
             else scan_groups limit ks (Some (hl, [pk])) groups)
      | None \<Rightarrow> scan_groups limit ks (Some (hl, [pk])) groups)"

text \<open>Every entry of the range taken apart: its hashlock and the primary key behind it.\<close>

definition hashlock_entries :: "(u8 list \<times> unit) list \<Rightarrow> (32 bytes \<times> u8 list) list res" where
  "hashlock_entries entries =
     collect_res (\<lambda>(k, _).
         if length k \<noteq> 68 then Inr None
         else
           bind_res (bind_res (slice_range 0 32 k) copy_from_slice) (\<lambda>hl.
           bind_res (bind_res (slice_from 32 k) copy_from_slice) (\<lambda>pk :: 36 bytes.
             Inr (Some (hl, byte_list pk)))))
       entries"

definition find_shared_hashlock_groups ::
  "'b bincode \<Rightarrow> 'b db \<Rightarrow> 32 bytes option \<Rightarrow> nat \<Rightarrow> SharedHashlockGroup list res" where
  "find_shared_hashlock_groups B d only limit =
     (let prefix = (case only of Some h \<Rightarrow> byte_list h | None \<Rightarrow> []);
          entries = t_range (HTLC_BY_HASHLOCK d) (prefix_lo 68 prefix) (prefix_hi 68 prefix)
      in bind_res (hashlock_entries entries) (\<lambda>ks.
         bind_res (map_res (\<lambda>(hl, pks). bind_res (read_htlcs B d pks) (\<lambda>htlcs.
             Inr (if length htlcs > 1 then [\<lparr>g_hash_lock = hl, g_htlcs = htlcs\<rparr>] else [])))
           (scan_groups limit ks None [])) (\<lambda>out.
           Inr (concat out))))"


subsection \<open>No slice of a key is out of range\<close>

lemma fold_res_Inr: "(\<And>x s. f x s = Inr (g x s)) \<Longrightarrow> fold_res f xs s = Inr (fold g xs s)"
  by (induction xs arbitrary: s) simp_all

lemma collect_res_filter:
  assumes "\<And>x. f x = Inr (if P x then Some (g x) else None)"
  shows "collect_res f xs = Inr (map g (filter P xs))"
  by (induction xs) (simp_all add: assms)

lemma lookup_by_hashlock_eq:
  "lookup_by_hashlock B d hl =
     read_htlcs B d (map (\<lambda>(k, _). drop 32 k) (filter (\<lambda>(k, _). length k = 68)
       (t_range (HTLC_BY_HASHLOCK d) (prefix_lo 68 (byte_list hl)) (prefix_hi 68 (byte_list hl)))))"
proof -
  have "collect_res (\<lambda>(k :: u8 list, _ :: unit).
         if length k = 68
         then bind_res (bind_res (slice_from 32 k) copy_from_slice) (\<lambda>pk :: 36 bytes. Inr (Some (byte_list pk)))
         else Inr None) entries = Inr (map (\<lambda>(k, _). drop 32 k) (filter (\<lambda>(k, _). length k = 68) entries))" for entries
    by (rule collect_res_filter) (simp split: prod.split)
  then show ?thesis by (simp add: lookup_by_hashlock_def)
qed

lemma hashlock_entries_eq:
  "hashlock_entries entries = Inr (map (\<lambda>(k, _). (Bytes (take 32 k), drop 32 k)) (filter (\<lambda>(k, _). length k = 68) entries))"
  unfolding hashlock_entries_def by (rule collect_res_filter) (simp add: subslice_def split: prod.split)

definition party_keys :: "32 bytes \<Rightarrow> (u8 list, unit) table \<Rightarrow> u8 list list \<Rightarrow> u8 list list" where
  "party_keys addr t keys =
     fold (\<lambda>(k, _) keys. if length k = 76 then insort_insert (subslice 40 72 k @ drop 72 k) keys else keys)
       (t_range t (prefix_lo 76 (byte_list addr)) (prefix_hi 76 (byte_list addr))) keys"

lemma scan_party_eq: "scan_party addr t keys = Inr (party_keys addr t keys)"
  unfolding scan_party_def party_keys_def by (rule fold_res_Inr) (simp split: prod.split)


subsection \<open>Reading through an index\<close>

lemma get_htlc_view: "db_ok B d \<Longrightarrow> get_htlc B d t i = Inr (av_htlcs (view B d) (t, i))"
  by (simp add: get_htlc_def db_ok_get_htlc)

lemma read_htlcs_map:
  assumes "db_ok B d"
  shows "read_htlcs B d (map outpoint_key xs) = Inr (List.map_filter (av_htlcs (view B d)) xs)"
proof -
  have "read_htlcs B d (map outpoint_key xs) =
      Inr (List.map_filter (\<lambda>k. t_recs (cd_htlc B) (HTLC_FULL d) k) (map outpoint_key xs))"
    unfolding read_htlcs_def
  proof (rule collect_res_total)
    show "get_rec (cd_htlc B) ''decode htlc'' (HTLC_FULL d) k = Inr (t_recs (cd_htlc B) (HTLC_FULL d) k)" for k
      using assms by (simp add: get_rec_encoded view_simps htlcs_ok_def stored_def)
  qed
  also have "List.map_filter (\<lambda>k. t_recs (cd_htlc B) (HTLC_FULL d) k) (map outpoint_key ys) =
      List.map_filter (av_htlcs (view B d)) ys" for ys
    by (induction ys) (auto simp: view_def rows_def split: option.splits)
  finally show ?thesis .
qed

text \<open>The keys of an index that is exact, in the order of the table.\<close>

lemma index_keys:
  assumes "db_ok B d"
  shows "t_get (HTLC_BY_SENDER d) k \<noteq> None \<longleftrightarrow> (\<exists>x r. av_htlcs (view B d) x = Some r \<and> sender_idx x r = Some k)"
    and "t_get (HTLC_BY_RECEIVER d) k \<noteq> None \<longleftrightarrow> (\<exists>x r. av_htlcs (view B d) x = Some r \<and> receiver_idx x r = Some k)"
    and "t_get (HTLC_BY_HASHLOCK d) k \<noteq> None \<longleftrightarrow> (\<exists>x r. av_htlcs (view B d) x = Some r \<and> hashlock_idx x r = Some k)"
proof -
  have unit: "t_get t k \<noteq> None \<longleftrightarrow> t_get t k = Some ()" for t :: "(u8 list, unit) table" by auto
  have ix: "indexed sender_idx (HTLC_BY_SENDER d) (av_htlcs (view B d))"
    "indexed receiver_idx (HTLC_BY_RECEIVER d) (av_htlcs (view B d))"
    "indexed hashlock_idx (HTLC_BY_HASHLOCK d) (av_htlcs (view B d))"
    using assms by (simp_all add: view_simps htlcs_ok_def)
  show "t_get (HTLC_BY_SENDER d) k \<noteq> None \<longleftrightarrow> (\<exists>x r. av_htlcs (view B d) x = Some r \<and> sender_idx x r = Some k)"
    unfolding unit by (rule indexedD [OF ix(1)])
  show "t_get (HTLC_BY_RECEIVER d) k \<noteq> None \<longleftrightarrow> (\<exists>x r. av_htlcs (view B d) x = Some r \<and> receiver_idx x r = Some k)"
    unfolding unit by (rule indexedD [OF ix(2)])
  show "t_get (HTLC_BY_HASHLOCK d) k \<noteq> None \<longleftrightarrow> (\<exists>x r. av_htlcs (view B d) x = Some r \<and> hashlock_idx x r = Some k)"
    unfolding unit by (rule indexedD [OF ix(3)])
qed

lemma index_keyed:
  assumes "db_ok B d"
  shows "keyed (\<lambda>(a, h, t, i). composite_key_address_height a h t i) (HTLC_BY_SENDER d)"
    and "keyed (\<lambda>(a, h, t, i). composite_key_address_height a h t i) (HTLC_BY_RECEIVER d)"
    and "keyed (\<lambda>(l, t, i). hashlock_key l t i) (HTLC_BY_HASHLOCK d)"
proof -
  show "keyed (\<lambda>(a, h, t, i). composite_key_address_height a h t i) (HTLC_BY_SENDER d)"
  proof (rule keyedI)
    fix k v assume "t_get (HTLC_BY_SENDER d) k = Some v"
    then obtain t i r where "sender_idx (t, i) r = Some k"
      using index_keys(1) [OF assms, of k] by auto
    then show "\<exists>x. k = (\<lambda>(a, h, t, i). composite_key_address_height a h t i) x"
      by (intro exI [of _ "(sender (params r), lock_height_or_max r, t, i)"]) (simp add: sender_key_def)
  qed
  show "keyed (\<lambda>(a, h, t, i). composite_key_address_height a h t i) (HTLC_BY_RECEIVER d)"
  proof (rule keyedI)
    fix k v assume "t_get (HTLC_BY_RECEIVER d) k = Some v"
    then obtain t i r where "receiver_idx (t, i) r = Some k"
      using index_keys(2) [OF assms, of k] by auto
    then show "\<exists>x. k = (\<lambda>(a, h, t, i). composite_key_address_height a h t i) x"
      by (intro exI [of _ "(receiver (params r), lock_height_or_max r, t, i)"]) (simp add: receiver_key_def)
  qed
  show "keyed (\<lambda>(l, t, i). hashlock_key l t i) (HTLC_BY_HASHLOCK d)"
  proof (rule keyedI)
    fix k v assume "t_get (HTLC_BY_HASHLOCK d) k = Some v"
    then obtain t i r where "hashlock_idx (t, i) r = Some k"
      using index_keys(3) [OF assms, of k] by auto
    then show "\<exists>x. k = (\<lambda>(l, t, i). hashlock_key l t i) x"
      by (intro exI [of _ "(hash_lock (params r), t, i)"]) simp
  qed
qed


subsection \<open>Lookup by hashlock\<close>

definition own_key :: "HtlcRecord \<Rightarrow> u8 list" where
  "own_key r = htlc_primary_key (lock_tx_id r) (output_index r)"

lemma own_key_view: "db_ok B d \<Longrightarrow> av_htlcs (view B d) x = Some r \<Longrightarrow> own_key r = outpoint_key x"
  using db_ok_htlc_key by (cases x) (fastforce simp: own_key_def)

lemma map_filter_keys:
  assumes "db_ok B d" "\<forall>x\<in>set xs. av_htlcs (view B d) x \<noteq> None"
  shows "map own_key (List.map_filter (av_htlcs (view B d)) xs) = map outpoint_key xs"
  using assms(2) own_key_view [OF assms(1)] by (induction xs) auto

text \<open>The outpoints the hashlock index lists, in the order of the table.\<close>

definition hash_rows :: "'b db \<Rightarrow> u8 list \<Rightarrow> (32 bytes \<times> outpoint) list" where
  "hash_rows d p = map (\<lambda>(k, _). (Bytes (take 32 k), Bytes (subslice 32 64 k), from_be32 (drop 64 k)))
     (t_range (HTLC_BY_HASHLOCK d) (prefix_lo 68 p) (prefix_hi 68 p))"

lemma hash_range_key:
  assumes "db_ok B d" "(k, v) \<in> set (t_range (HTLC_BY_HASHLOCK d) lo hi)"
  shows "\<exists>l t i. k = hashlock_key l t i"
  using assms(2) index_keyed(3) [OF assms(1)] by (fastforce simp: redb.range_iff keyed_def)

lemma hashlock_key_parts [simp]:
  "Bytes (take 32 (hashlock_key l t i)) = l"
  "Bytes (subslice 32 64 (hashlock_key l t i)) = t"
  "from_be32 (drop 64 (hashlock_key l t i)) = i"
  "drop 32 (hashlock_key l t i) = htlc_primary_key t i"
  by (simp_all add: key_defs subslice_def)

lemma hash_scan:
  assumes "db_ok B d"
  shows "filter (\<lambda>(k, _). length k = 68) (t_range (HTLC_BY_HASHLOCK d) lo hi) = t_range (HTLC_BY_HASHLOCK d) lo hi"
    and "map (\<lambda>(k, _). (Bytes (take 32 k), drop 32 k)) (t_range (HTLC_BY_HASHLOCK d) (prefix_lo 68 p) (prefix_hi 68 p)) =
      map (\<lambda>(l, x). (l, outpoint_key x)) (hash_rows d p)"
    and "map (\<lambda>(k, _). drop 32 k) (t_range (HTLC_BY_HASHLOCK d) (prefix_lo 68 p) (prefix_hi 68 p)) =
      map outpoint_key (map snd (hash_rows d p))"
    and "map fst (t_range (HTLC_BY_HASHLOCK d) (prefix_lo 68 p) (prefix_hi 68 p)) =
      map (\<lambda>(l, t, i). hashlock_key l t i) (hash_rows d p)"
  using hash_range_key [OF assms] by (fastforce simp: filter_id_conv hash_rows_def)+

lemma hash_rows_iff:
  assumes "db_ok B d" "length p \<le> 68"
  shows "(l, x) \<in> set (hash_rows d p) \<longleftrightarrow>
    take (length p) ((\<lambda>(l, t, i). hashlock_key l t i) (l, x)) = p \<and> (\<exists>r. av_htlcs (view B d) x = Some r \<and> hash_lock (params r) = l)"
proof -
  let ?k = "(\<lambda>(l, t, i). hashlock_key l t i) (l, x)"
  obtain t i where x: "x = (t, i)" by force
  have "(l, x) \<in> set (hash_rows d p) \<longleftrightarrow> ?k \<in> set (map (\<lambda>(l, t, i). hashlock_key l t i) (hash_rows d p))"
    unfolding set_map by (rule hash_key.in_keys_iff [symmetric])
  also have "\<dots> \<longleftrightarrow> ?k \<in> set (map fst (t_range (HTLC_BY_HASHLOCK d) (prefix_lo 68 p) (prefix_hi 68 p)))"
    by (simp only: hash_scan(4) [OF assms(1)])
  also have "\<dots> \<longleftrightarrow> t_get (HTLC_BY_HASHLOCK d) ?k \<noteq> None \<and> take (length p) ?k = p"
    unfolding redb.in_range_keys using prefix_bounds_iff [of ?k 68 p] assms(2) by (simp add: x)
  also have "t_get (HTLC_BY_HASHLOCK d) ?k \<noteq> None \<longleftrightarrow> (\<exists>r. av_htlcs (view B d) x = Some r \<and> hash_lock (params r) = l)"
    unfolding index_keys(3) [OF assms(1)] by (auto simp: x)
  finally show ?thesis by blast
qed

lemma hash_rows_sorted:
  assumes "db_ok B d"
  shows "sorted_wrt (<) (map (\<lambda>(l, t, i). hashlock_key l t i) (hash_rows d p))"
  using redb.range_sorted by (simp add: hash_scan(4) [OF assms, symmetric])

lemma take_hashlock_key [simp]: "take 32 (hashlock_key l t i) = byte_list l"
  by (simp add: hashlock_key_def)

text \<open>Looking up a hashlock returns exactly the stored HTLCs locked under it, each once, in the order of
  their outpoints; looking up an outpoint returns the HTLC stored under it.\<close>

theorem lookup_by_hashlock_exact:
  assumes "db_ok B d"
  shows "\<exists>rs. lookup_by_hashlock B d hl = Inr rs \<and>
    set rs = {r. av_htlcs (view B d) (lock_tx_id r, output_index r) = Some r \<and> hash_lock (params r) = hl} \<and>
    sorted_wrt (<) (map own_key rs) \<and>
    get_htlc B d t i = Inr (av_htlcs (view B d) (t, i))"
proof -
  let ?m = "av_htlcs (view B d)" and ?xs = "map snd (hash_rows d (byte_list hl))"
  let ?rs = "List.map_filter ?m ?xs"
  have row: "(l, x) \<in> set (hash_rows d (byte_list hl)) \<longleftrightarrow> l = hl \<and> (\<exists>r. ?m x = Some r \<and> hash_lock (params r) = hl)" for l x
    using hash_rows_iff [OF assms, of "byte_list hl" l x] by (cases x) auto
  have "lookup_by_hashlock B d hl = Inr ?rs"
    by (simp only: lookup_by_hashlock_eq hash_scan(1) [OF assms] hash_scan(3) [OF assms] read_htlcs_map [OF assms])
  moreover have "set ?rs = {r. ?m (lock_tx_id r, output_index r) = Some r \<and> hash_lock (params r) = hl}"
  proof -
    have "r \<in> set ?rs \<longleftrightarrow> (\<exists>x. (\<exists>r. ?m x = Some r \<and> hash_lock (params r) = hl) \<and> ?m x = Some r)" for r
      using row by (force simp: in_map_filter_iff)
    then have "r \<in> set ?rs \<longleftrightarrow> (\<exists>x. ?m x = Some r \<and> hash_lock (params r) = hl)" for r
      by (metis option.inject)
    then show ?thesis using db_ok_htlc_at [OF assms] by blast
  qed
  moreover have "sorted_wrt (<) (map own_key ?rs)"
  proof -
    have "map (\<lambda>(l, t, i). hashlock_key l t i) (hash_rows d (byte_list hl)) =
        map (\<lambda>x. byte_list hl @ outpoint_key x) ?xs"
      using row by (auto simp: hashlock_key_def htlc_primary_key_def)
    then have "sorted_wrt (<) (map (\<lambda>x. byte_list hl @ outpoint_key x) ?xs)"
      using hash_rows_sorted [OF assms] by metis
    then have "sorted_wrt (<) (map outpoint_key ?xs)"
      by (simp add: sorted_wrt_map append_less_iff)
    moreover have "map own_key ?rs = map outpoint_key ?xs"
      using row by (intro map_filter_keys [OF assms]) auto
    ultimately show ?thesis by simp
  qed
  ultimately show ?thesis using get_htlc_view [OF assms] by blast
qed


theorem lookup_by_hashlock_exact_witness:
  "\<exists>d rs. apply_block_events sample_bincode lock_block open_all_tables = Inr d \<and>
     lookup_by_hashlock sample_bincode d (filled 3) = Inr rs \<and> set rs = {sample_htlc}"
proof -
  obtain d where d: "apply_block_events sample_bincode lock_block open_all_tables = Inr d" "db_ok sample_bincode d"
    "view sample_bincode d = spec_apply lock_block (view sample_bincode open_all_tables)"
    by (rule sample_db)
  from lookup_by_hashlock_exact [OF d(2), of "filled 3" "filled 4" 0] obtain rs where
    rs: "lookup_by_hashlock sample_bincode d (filled 3) = Inr rs"
    "set rs = {r. av_htlcs (view sample_bincode d) (lock_tx_id r, output_index r) = Some r \<and> hash_lock (params r) = filled 3}"
    by blast
  have "set rs = {sample_htlc}"
    unfolding rs(2) sample_view [OF d(3)] by (auto simp: sample_htlc_def sample_params_def)
  with d(1) rs(1) show ?thesis by blast
qed


subsection \<open>The filtered list\<close>

text \<open>What a list query is about: the stored HTLCs that match the filter.\<close>

definition matching :: "StoreView \<Rightarrow> HtlcFilter \<Rightarrow> HtlcRecord set" where
  "matching A f = {r. av_htlcs A (lock_tx_id r, output_index r) = Some r \<and> filter_matches r f}"

text \<open>The scan of one index adds the keys it finds to the ordered set.\<close>

lemma sorted_insort_fold:
  assumes "sorted keys" "distinct keys"
  shows "sorted (fold (\<lambda>(k, _) keys. if P k then insort_insert (g k) keys else keys) xs keys) \<and>
    distinct (fold (\<lambda>(k, _) keys. if P k then insort_insert (g k) keys else keys) xs keys) \<and>
    set (fold (\<lambda>(k, _) keys. if P k then insort_insert (g k) keys else keys) xs keys) =
      set keys \<union> {g k |k. k \<in> set (map fst xs) \<and> P k}"
  using assms
proof (induction xs arbitrary: keys)
  case (Cons x xs)
  obtain k v where x: "x = (k, v)" by force
  have "sorted (insort_insert (g k) keys)" "distinct (insort_insert (g k) keys)"
    using Cons.prems by (auto simp: insort_insert_key_def sorted_insort distinct_insort)
  then show ?case
    using Cons.IH [of "insort_insert (g k) keys"] Cons.IH [of keys] Cons.prems
    by (auto simp: x set_insort_insert)
qed simp

lemma party_key_parts:
  "subslice 40 72 (composite_key_address_height a h t i) @ drop 72 (composite_key_address_height a h t i) =
     htlc_primary_key t i"
  "take 32 (composite_key_address_height a h t i) = byte_list a"
  by (simp_all add: key_defs subslice_def)

lemma party_keys_props:
  assumes "keyed (\<lambda>(a, h, t, i). composite_key_address_height a h t i) tab" "sorted keys" "distinct keys"
  shows "sorted (party_keys addr tab keys)" "distinct (party_keys addr tab keys)"
    and "set (party_keys addr tab keys) =
      set keys \<union> {outpoint_key (t, i) |t i. \<exists>h. t_get tab (composite_key_address_height addr h t i) \<noteq> None}"
proof -
  let ?R = "t_range tab (prefix_lo 76 (byte_list addr)) (prefix_hi 76 (byte_list addr))"
  have mem: "k \<in> set (map fst ?R) \<longleftrightarrow> (\<exists>h t i. k = composite_key_address_height addr h t i \<and> t_get tab k \<noteq> None)" for k
  proof
    assume "k \<in> set (map fst ?R)"
    then have k: "t_get tab k \<noteq> None" "prefix_lo 76 (byte_list addr) \<le> k" "k \<le> prefix_hi 76 (byte_list addr)"
      unfolding redb.in_range_keys by auto
    then obtain a h t i where key: "k = composite_key_address_height a h t i"
      using assms(1) by (fastforce simp: keyed_def)
    then have "a = addr"
      using prefix_bounds_iff [of k 76 "byte_list addr"] k by (simp add: party_key_parts)
    then show "\<exists>h t i. k = composite_key_address_height addr h t i \<and> t_get tab k \<noteq> None"
      using key k(1) by blast
  next
    assume "\<exists>h t i. k = composite_key_address_height addr h t i \<and> t_get tab k \<noteq> None"
    then obtain h t i where key: "k = composite_key_address_height addr h t i" "t_get tab k \<noteq> None" by blast
    then show "k \<in> set (map fst ?R)"
      unfolding redb.in_range_keys using prefix_bounds_iff [of k 76 "byte_list addr"] by (simp add: party_key_parts)
  qed
  have "{subslice 40 72 k @ drop 72 k |k. k \<in> set (map fst ?R) \<and> length k = 76} =
      {outpoint_key (t, i) |t i. \<exists>h. t_get tab (composite_key_address_height addr h t i) \<noteq> None}"
    unfolding mem by (auto simp: party_key_parts) (metis party_key_parts(1) length_keys(2))
  then show "sorted (party_keys addr tab keys)" "distinct (party_keys addr tab keys)"
    "set (party_keys addr tab keys) =
      set keys \<union> {outpoint_key (t, i) |t i. \<exists>h. t_get tab (composite_key_address_height addr h t i) \<noteq> None}"
    using sorted_insort_fold [OF assms(2,3), of "\<lambda>k. length k = 76" "\<lambda>k. subslice 40 72 k @ drop 72 k" ?R]
    unfolding party_keys_def by blast+
qed

text \<open>The records both paths put into memory.\<close>

lemma map_filter_total:
  assumes "\<forall>x\<in>set xs. m x \<noteq> None"
  shows "set (List.map_filter m xs) = {r. \<exists>x\<in>set xs. m x = Some r}"
  by (auto simp: in_map_filter_iff)

lemma materialize_address:
  assumes "db_ok B d" "f_address f = Some addr"
  shows "\<exists>rows. materialize B d f = Inr rows \<and> distinct (map own_key rows) \<and>
    set rows = {r. av_htlcs (view B d) (lock_tx_id r, output_index r) = Some r \<and>
      (sender (params r) = addr \<or> receiver (params r) = addr)}"
proof -
  let ?m = "av_htlcs (view B d)"
  let ?S = "party_keys addr (HTLC_BY_SENDER d) []"
  let ?K = "party_keys addr (HTLC_BY_RECEIVER d) ?S"
  have nil: "sorted ([] :: u8 list list)" "distinct ([] :: u8 list list)" by simp_all
  note s1 = party_keys_props [OF index_keyed(1) [OF assms(1)] nil, of addr]
  note s2 = party_keys_props [OF index_keyed(2) [OF assms(1)] s1(1,2), of addr]
  have snd: "(\<exists>h. t_get (HTLC_BY_SENDER d) (composite_key_address_height addr h t i) \<noteq> None) \<longleftrightarrow>
      (\<exists>r. ?m (t, i) = Some r \<and> sender (params r) = addr)" for t i
    unfolding index_keys(1) [OF assms(1)] by (force simp: sender_key_def)
  have rcv: "(\<exists>h. t_get (HTLC_BY_RECEIVER d) (composite_key_address_height addr h t i) \<noteq> None) \<longleftrightarrow>
      (\<exists>r. ?m (t, i) = Some r \<and> receiver (params r) = addr)" for t i
    unfolding index_keys(2) [OF assms(1)] by (force simp: receiver_key_def)
  define X where "X = {x. \<exists>r. ?m x = Some r \<and> (sender (params r) = addr \<or> receiver (params r) = addr)}"
  have setK: "set ?K = outpoint_key ` X"
    unfolding s2(3) s1(3) snd rcv X_def by auto
  then have "\<forall>k\<in>set ?K. \<exists>x. k = outpoint_key x" by auto
  then obtain xs where xs: "?K = map outpoint_key xs"
    using ex_map_conv [of ?K outpoint_key] by blast
  have "outpoint_key ` set xs = outpoint_key ` X"
    using setK xs by (metis set_map)
  then have setxs: "set xs = X"
    using inj_image_eq_iff [of outpoint_key "set xs" X] outpoint_key_eq_iff by (meson injI)
  have some: "\<forall>x\<in>set xs. ?m x \<noteq> None"
    by (auto simp: setxs X_def)
  let ?rows = "List.map_filter ?m xs"
  have "materialize B d f = Inr ?rows"
    by (simp only: materialize_def assms(2) option.case scan_party_eq bind_res_simps xs read_htlcs_map [OF assms(1)])
  moreover have "distinct (map own_key ?rows)"
    unfolding map_filter_keys [OF assms(1) some] xs [symmetric] by (rule s2(2))
  moreover have "set ?rows = {r. ?m (lock_tx_id r, output_index r) = Some r \<and>
      (sender (params r) = addr \<or> receiver (params r) = addr)}"
    unfolding map_filter_total [OF some] setxs X_def using db_ok_htlc_at [OF assms(1)] by auto
  ultimately show ?thesis by blast
qed

lemma materialize_all:
  assumes "db_ok B d" "f_address f = None"
  shows "\<exists>rows. materialize B d f = Inr rows \<and> distinct (map own_key rows) \<and>
    set rows = {r. av_htlcs (view B d) (lock_tx_id r, output_index r) = Some r}"
proof -
  let ?t = "HTLC_FULL d"
  have st: "stored (cd_htlc B) outpoint_key ?t"
    using assms(1) by (simp add: view_simps htlcs_ok_def)
  define rec where "rec = (\<lambda>b. the (de (cd_htlc B) b))"
  let ?rows = "map rec (map snd (t_iter ?t))"
  have row: "\<exists>x r. k = outpoint_key x \<and> av_htlcs (view B d) x = Some r \<and> de (cd_htlc B) b = Some r"
    if "(k, b) \<in> set (t_iter ?t)" for k b
    by (rule stored_iterE [OF st that]) (auto simp: view_def)
  have "materialize B d f = Inr ?rows"
    unfolding materialize_def assms(2) option.case
  proof (rule map_res_total)
    fix b assume "b \<in> set (map snd (t_iter ?t))"
    then obtain k where "(k, b) \<in> set (t_iter ?t)" by auto
    from row [OF this] show "ok_or (de (cd_htlc B) b) (Storage ''decode htlc'') = Inr (rec b)"
      by (auto simp: rec_def)
  qed
  moreover have keys: "map own_key ?rows = map fst (t_iter ?t)"
    unfolding map_map comp_def
  proof (rule map_cong [OF refl])
    fix kb assume "kb \<in> set (t_iter ?t)"
    with row [of "fst kb" "snd kb"] show "own_key (rec (snd kb)) = fst kb"
      using own_key_view [OF assms(1)] by (auto simp: rec_def)
  qed
  moreover have "distinct (map own_key ?rows)"
    unfolding keys by (rule redb.iter_distinct)
  moreover have "set ?rows = {r. av_htlcs (view B d) (lock_tx_id r, output_index r) = Some r}"
  proof (intro set_eqI iffI)
    fix r assume "r \<in> set ?rows"
    then obtain k b where "(k, b) \<in> set (t_iter ?t)" "r = rec b" by auto
    with row [of k b] show "r \<in> {r. av_htlcs (view B d) (lock_tx_id r, output_index r) = Some r}"
      using db_ok_htlc_at [OF assms(1)] by (auto simp: rec_def)
  next
    fix r assume "r \<in> {r. av_htlcs (view B d) (lock_tx_id r, output_index r) = Some r}"
    then have "rows (cd_htlc B) outpoint_key ?t (lock_tx_id r, output_index r) = Some r"
      by (simp add: view_def)
    from stored_rowE [OF this] obtain b where "(outpoint_key (lock_tx_id r, output_index r), b) \<in> set (t_iter ?t)"
      "de (cd_htlc B) b = Some r" by blast
    then show "r \<in> set ?rows" by (force simp: rec_def)
  qed
  ultimately show ?thesis by blast
qed


text \<open>Whatever the path, the rows that pass the filter are the matching HTLCs, each once.\<close>

lemma materialize_matching:
  assumes "db_ok B d"
  obtains rows where "materialize B d f = Inr rows"
    "distinct (map htlc_order (filter (\<lambda>r. filter_matches r f) rows))"
    "set (filter (\<lambda>r. filter_matches r f) rows) = matching (view B d) f"
proof -
  obtain rows where rows: "materialize B d f = Inr rows" "distinct (map own_key rows)"
    "set (filter (\<lambda>r. filter_matches r f) rows) = matching (view B d) f"
  proof (cases "f_address f")
    case None
    then show ?thesis
      using materialize_all [OF assms None] that by (auto simp: matching_def)
  next
    case (Some addr)
    have "filter_matches r f \<Longrightarrow> sender (params r) = addr \<or> receiver (params r) = addr" for r
      using Some by (simp add: filter_matches_def)
    then show ?thesis
      using materialize_address [OF assms Some] that by (fastforce simp: matching_def)
  qed
  have "distinct (map htlc_order rows)"
    using rows(2) unfolding distinct_map by (auto simp: inj_on_def htlc_order_def own_key_def)
  then have "distinct (map htlc_order (filter (\<lambda>r. filter_matches r f) rows))"
    by (rule distinct_map_filter_list)
  with rows show ?thesis using that by blast
qed

lemma cursor_order_of [simp]: "cursor_order (cursor_of k) = k" "cursor_of (cursor_order c) = c"
  by (cases k) (simp_all add: cursor_order_def cursor_of_def)

text \<open>One page of the filtered HTLC list, for a positive limit: the records are in strictly ascending
  order of (lock height, transaction id, output index), each matches the filter and lies
  beyond the cursor; they are the first such records, at most as many as the limit; and a next
  cursor comes back exactly when matching records are left, and then it is the position of
  the page's last record. The path taken (index scan or full scan) does not show.\<close>

theorem list_htlcs_page:
  assumes "db_ok B d" "0 < limit"
  shows "\<exists>page next. list_htlcs B d f limit cursor = Inr (page, next) \<and>
    sorted_wrt (<) (map htlc_order page) \<and> length page \<le> limit \<and>
    set page \<subseteq> {r. r \<in> matching (view B d) f \<and> (case cursor of None \<Rightarrow> True | Some c \<Rightarrow> cursor_order c < htlc_order r)} \<and>
    (\<forall>r r'. r \<in> set page \<and> r' \<in> matching (view B d) f - set page \<and>
       (case cursor of None \<Rightarrow> True | Some c \<Rightarrow> cursor_order c < htlc_order r') \<longrightarrow> htlc_order r < htlc_order r') \<and>
    (case next of
       None \<Rightarrow> set page = {r. r \<in> matching (view B d) f \<and>
         (case cursor of None \<Rightarrow> True | Some c \<Rightarrow> cursor_order c < htlc_order r)}
     | Some c \<Rightarrow> length page = limit \<and> cursor_order c = htlc_order (last page))"
proof -
  obtain rows where rows: "materialize B d f = Inr rows"
    "distinct (map htlc_order (filter (\<lambda>r. filter_matches r f) rows))"
    "set (filter (\<lambda>r. filter_matches r f) rows) = matching (view B d) f"
    by (rule materialize_matching [OF assms(1)])
  define beyond where "beyond r \<longleftrightarrow> (case cursor of None \<Rightarrow> True | Some c \<Rightarrow> cursor_order c < htlc_order r)" for r
  define L where "L = filter beyond (sort_key htlc_order (filter (\<lambda>r. filter_matches r f) rows))"
  have setL: "set L = {r. r \<in> matching (view B d) f \<and> beyond r}"
    using rows(3) by (auto simp: L_def)
  have sorted: "sorted_wrt (<) (map htlc_order L)"
    using strict_sort_key [OF rows(2)] by (simp add: L_def sorted_wrt_map sorted_wrt_filter)
  have "page_asc htlc_order limit (map_option cursor_order cursor) (filter (\<lambda>r. filter_matches r f) rows) =
      cut_page htlc_order limit L"
    by (cases cursor) (simp_all add: page_asc_def L_def beyond_def [abs_def])
  then have eq: "list_htlcs B d f limit cursor = Inr (take limit L,
      if length L > limit then Some (cursor_of (htlc_order (last (take limit L)))) else None)"
    by (simp add: list_htlcs_def rows(1) cut_page_Inr [OF assms(2)])
  have split: "L = take limit L @ drop limit L" by simp
  have before: "htlc_order r < htlc_order r'" if "r \<in> set (take limit L)" "r' \<in> set (drop limit L)" for r r'
    using sorted that by (subst (asm) split) (simp only: map_append sorted_wrt_append, simp)
  have rest: "set L - set (take limit L) \<subseteq> set (drop limit L)"
    by (subst split) (auto simp del: append_take_drop_id)
  show ?thesis
    unfolding eq beyond_def [symmetric]
  proof (intro exI conjI)
    show "sorted_wrt (<) (map htlc_order (take limit L))"
      using sorted by (subst (asm) split) (simp only: map_append sorted_wrt_append)
    show "set (take limit L) \<subseteq> {r. r \<in> matching (view B d) f \<and> beyond r}"
      using set_take_subset [of limit L] setL by blast
    show "\<forall>r r'. r \<in> set (take limit L) \<and> r' \<in> matching (view B d) f - set (take limit L) \<and> beyond r' \<longrightarrow>
        htlc_order r < htlc_order r'"
      using before rest setL by blast
  qed (use setL in \<open>auto simp: cursor_order_of\<close>)
qed

text \<open>Paging loses and repeats nothing: for any positive page size, a client that follows the cursors
  gets every matching HTLC exactly once, in ascending order, after at most one request more
  than there are matching HTLCs.\<close>

theorem list_htlcs_pages_complete:
  assumes "db_ok B d" "0 < limit" "card (matching (view B d) f) < n"
  shows "\<exists>all. walk_pages (list_htlcs B d f limit) n None = Inr all \<and>
    sorted_wrt (<) (map htlc_order all) \<and> set all = matching (view B d) f"
proof -
  obtain rows where rows: "materialize B d f = Inr rows"
    "distinct (map htlc_order (filter (\<lambda>r. filter_matches r f) rows))"
    "set (filter (\<lambda>r. filter_matches r f) rows) = matching (view B d) f"
    by (rule materialize_matching [OF assms(1)])
  let ?M = "filter (\<lambda>r. filter_matches r f) rows"
  have "length ?M = card (matching (view B d) f)"
    using rows(2,3) by (metis distinct_card distinct_map)
  then have "walk_pages (\<lambda>c. page_asc htlc_order limit c ?M) n None = Inr (sort_key htlc_order ?M)"
    using assms(2,3) by (intro walk_page_asc [OF rows(2)]) simp_all
  moreover have "walk_pages (list_htlcs B d f limit) k c =
      walk_pages (\<lambda>c. page_asc htlc_order limit c ?M) k (map_option cursor_order c)" for k c
  proof (induction k arbitrary: c)
    case (Suc k)
    then show ?case
      by (auto simp: list_htlcs_def rows(1) bind_res_def split: sum.splits option.splits)
  qed simp
  ultimately have "walk_pages (list_htlcs B d f limit) n None = Inr (sort_key htlc_order ?M)" by simp
  then show ?thesis
    using strict_sort_key [OF rows(2)] rows(3) by (intro exI [of _ "sort_key htlc_order ?M"]) simp
qed

text \<open>A page size of 0 crashes the query: whenever an HTLC matches, the first page panics (the code
  reads the last row of an empty page), and it panics in no other case.\<close>

theorem list_htlcs_zero_limit:
  assumes "db_ok B d"
  shows "list_htlcs B d f 0 None = Inl Panic \<longleftrightarrow> matching (view B d) f \<noteq> {}"
proof -
  obtain rows where rows: "materialize B d f = Inr rows"
    "set (filter (\<lambda>r. filter_matches r f) rows) = matching (view B d) f"
    using materialize_matching [OF assms] by metis
  let ?M = "filter (\<lambda>r. filter_matches r f) rows"
  have "list_htlcs B d f 0 None = Inl Panic \<longleftrightarrow> cut_page htlc_order 0 (sort_key htlc_order ?M) = Inl Panic"
    by (auto simp: list_htlcs_def rows(1) page_asc_def bind_res_def split: sum.splits)
  also have "\<dots> \<longleftrightarrow> set (sort_key htlc_order ?M) \<noteq> {}"
    unfolding cut_page_Panic set_empty by simp
  finally show ?thesis by (simp only: set_sort rows(2))
qed


text \<open>The sample database, with its single HTLC and a filter for its receiver.\<close>

definition sample_filter :: HtlcFilter where
  "sample_filter = \<lparr>f_role = None, f_states = [Locked, Claimed], f_address = Some (filled 2), f_since_height = Some 3\<rparr>"

lemma sample_matching:
  assumes "view sample_bincode d = spec_apply lock_block (view sample_bincode open_all_tables)"
  shows "matching (view sample_bincode d) sample_filter = {sample_htlc}"
  unfolding matching_def sample_view [OF assms]
  by (auto simp: filter_matches_def sample_filter_def sample_htlc_def sample_params_def lock_height_or_max_def)

theorem list_htlcs_page_witness:
  "\<exists>d page next. apply_block_events sample_bincode lock_block open_all_tables = Inr d \<and>
     list_htlcs sample_bincode d sample_filter 10 None = Inr (page, next) \<and> length page \<le> 10 \<and>
     set page \<subseteq> {sample_htlc}"
proof -
  obtain d where d: "apply_block_events sample_bincode lock_block open_all_tables = Inr d" "db_ok sample_bincode d"
    "view sample_bincode d = spec_apply lock_block (view sample_bincode open_all_tables)"
    by (rule sample_db)
  have "0 < (10 :: nat)" by simp
  from list_htlcs_page [OF d(2) this, of sample_filter None] obtain page nxt where
    "list_htlcs sample_bincode d sample_filter 10 None = Inr (page, nxt)" "length page \<le> 10"
    "set page \<subseteq> {r. r \<in> matching (view sample_bincode d) sample_filter \<and> True}"
    by (auto simp only: option.case)
  then show ?thesis
    using d(1) by (simp only: sample_matching [OF d(3)]) auto
qed

theorem list_htlcs_pages_complete_witness:
  "\<exists>d rows. apply_block_events sample_bincode lock_block open_all_tables = Inr d \<and>
     walk_pages (list_htlcs sample_bincode d sample_filter 1) 2 None = Inr rows \<and> set rows = {sample_htlc}"
proof -
  obtain d where d: "apply_block_events sample_bincode lock_block open_all_tables = Inr d" "db_ok sample_bincode d"
    "view sample_bincode d = spec_apply lock_block (view sample_bincode open_all_tables)"
    by (rule sample_db)
  from list_htlcs_pages_complete [OF d(2), of 1 sample_filter 2] d(1) show ?thesis
    by (auto simp: sample_matching [OF d(3)])
qed

theorem list_htlcs_zero_limit_witness:
  "\<exists>d. apply_block_events sample_bincode lock_block open_all_tables = Inr d \<and>
     list_htlcs sample_bincode d sample_filter 0 None = Inl Panic"
proof -
  obtain d where d: "apply_block_events sample_bincode lock_block open_all_tables = Inr d" "db_ok sample_bincode d"
    "view sample_bincode d = spec_apply lock_block (view sample_bincode open_all_tables)"
    by (rule sample_db)
  from list_htlcs_zero_limit [OF d(2), of sample_filter] d(1) show ?thesis
    by (auto simp: sample_matching [OF d(3)])
qed

end
