(* ===== verification/ChainHtlcs.thy ===== *)
theory ChainHtlcs
  imports ChainIndex FollowerHistory HtlcQueries
begin

section \<open>The life of an HTLC, from the chain to the answer\<close>

text \<open>
  What the index says of one HTLC, in terms of the transactions in the chain's blocks only:
  there is a record of it once the block of its lock is indexed, and that record is the one
  the lock creates, settled by the first later input of the chain that spends the output with
  a witness of a claim or a reclaim.
\<close>

subsection \<open>Locks and spends of a block\<close>

definition block_txs :: "'p exfer \<Rightarrow> hex \<Rightarrow> node \<Rightarrow> u64 \<Rightarrow> Transaction list" where
  "block_txs E H N h =
     (case n_get_block_by_height N h of
        Inr b \<Rightarrow> List.map_filter (served_tx E H N) (b_transactions b)
      | Inl _ \<Rightarrow> [])"

definition block_locks :: "'p exfer \<Rightarrow> hex \<Rightarrow> node \<Rightarrow> u64 \<Rightarrow> ExtractedHtlcLock list" where
  "block_locks E H N h = concat (map (\<lambda>tx. x_locks (extract_from_tx E tx h 0)) (block_txs E H N h))"

definition block_spends :: "'p exfer \<Rightarrow> hex \<Rightarrow> node \<Rightarrow> u64 \<Rightarrow> ExtractedHtlcSpend list" where
  "block_spends E H N h = concat (map (\<lambda>tx. x_spends (extract_from_tx E tx h 0)) (block_txs E H N h))"

text \<open>The spends of an outpoint in the blocks from one height up to another, in chain order.\<close>

definition spends_of :: "'p exfer \<Rightarrow> hex \<Rightarrow> node \<Rightarrow> outpoint \<Rightarrow> nat \<Rightarrow> nat \<Rightarrow> (u64 \<times> ExtractedHtlcSpend) list" where
  "spends_of E H N x a b =
     concat (map (\<lambda>k. map (Pair (word_of_nat k)) (filter (spend_hits x) (block_spends E H N (word_of_nat k)))) [a..<b])"

definition settled_by :: "(u64 \<times> ExtractedHtlcSpend) list \<Rightarrow> HtlcRecord \<Rightarrow> HtlcRecord" where
  "settled_by sps r = (case sps of [] \<Rightarrow> r | (h, sp) # _ \<Rightarrow> settle_record (sp_arm sp) h r)"

lemma scan_txs_collect:
  assumes "fold_res (scan_tx E H N h) ids s = Inr s'"
  shows "bs_locks s' = bs_locks s @ concat (map (\<lambda>tx. x_locks (extract_from_tx E tx h 0)) (List.map_filter (served_tx E H N) ids))"
    "bs_spends s' = bs_spends s @ concat (map (\<lambda>tx. x_spends (extract_from_tx E tx h 0)) (List.map_filter (served_tx E H N) ids))"
proof -
  have "bs_locks s' = bs_locks s @ concat (map (\<lambda>tx. x_locks (extract_from_tx E tx h 0)) (List.map_filter (served_tx E H N) ids)) \<and>
    bs_spends s' = bs_spends s @ concat (map (\<lambda>tx. x_spends (extract_from_tx E tx h 0)) (List.map_filter (served_tx E H N) ids))"
    using assms
  proof (induction ids arbitrary: s)
    case (Cons t ids)
    then obtain s1 where s1: "scan_tx E H N h t s = Inr s1" "fold_res (scan_tx E H N h) ids s1 = Inr s'"
      by (auto simp: bind_res_eq_Inr_iff)
    obtain tx where tx: "served_tx E H N t = Some tx"
      "bs_locks s1 = bs_locks s @ x_locks (extract_from_tx E tx h 0)"
      "bs_spends s1 = bs_spends s @ x_spends (extract_from_tx E tx h 0)"
      by (rule scan_txE [OF s1(1)]) (simp add: served_tx_def)
    then show ?case using Cons.IH [OF s1(2)] by simp
  qed simp
  then show "bs_locks s' = bs_locks s @ concat (map (\<lambda>tx. x_locks (extract_from_tx E tx h 0)) (List.map_filter (served_tx E H N) ids))"
    "bs_spends s' = bs_spends s @ concat (map (\<lambda>tx. x_spends (extract_from_tx E tx h 0)) (List.map_filter (served_tx E H N) ids))"
    by simp_all
qed

lemma chain_events_parts:
  assumes "chain_events E H N h A = Inr ev"
  shows "ev_height ev = h" "ev_locks ev = block_locks E H N h" "ev_spends ev = block_spends E H N h"
proof -
  obtain b s where b: "n_get_block_by_height N h = Inr b" "fold_res (scan_tx E H N h) (b_transactions b) empty_scan = Inr s"
    "ev_height ev = h" "ev_locks ev = bs_locks s" "ev_spends ev = bs_spends s"
    using assms by (auto simp: chain_events_def bind_res_eq_Inr_iff lift_eq_Inr_iff)
  then show "ev_height ev = h" "ev_locks ev = block_locks E H N h" "ev_spends ev = block_spends E H N h"
    using scan_txs_collect [OF b(2)] by (simp_all add: block_locks_def block_spends_def block_txs_def empty_scan_def)
qed


subsection \<open>The record of an HTLC\<close>

lemma find_filter: "find P xs = (case filter P xs of [] \<Rightarrow> None | y # _ \<Rightarrow> Some y)"
  by (induction xs) auto

lemma after_spends_settled_by:
  "\<not> settled r \<Longrightarrow> after_spends h sps x r = settled_by (map (Pair h) (filter (spend_hits x) sps)) r"
  by (simp add: after_spends_def settled_by_def find_filter split: list.split)

lemma settled_by_append:
  assumes "\<not> settled r"
  shows "settled_by (xs @ map (Pair h) (filter (spend_hits x) sps)) r = after_spends h sps x (settled_by xs r)"
proof (cases xs)
  case Nil
  then show ?thesis using after_spends_settled_by [OF assms, of h sps x] by (simp add: settled_by_def)
next
  case (Cons p ps)
  then show ?thesis by (cases p) (simp add: after_spends_def settled_by_def)
qed

lemma spends_of_Suc:
  "a \<le> b \<Longrightarrow> spends_of E H N x a (Suc b) =
     spends_of E H N x a b @ map (Pair (word_of_nat b)) (filter (spend_hits x) (block_spends E H N (word_of_nat b)))"
  by (simp add: spends_of_def)

text \<open>An outpoint locked in one block of the chain only, by locks that all create the same record.\<close>

lemma chain_htlc:
  assumes "\<forall>k<n. \<exists>ev. chain_events E H N (word_of_nat k) (chain_rows E H N k) = Inr ev"
    and "\<And>k l. k < n \<Longrightarrow> l \<in> set (block_locks E H N (word_of_nat k)) \<Longrightarrow>
      (lock_tx_id (lk_record l), output_index (lk_record l)) = x \<Longrightarrow> k = h \<and> lk_record l = r"
    and "l0 \<in> set (block_locks E H N (word_of_nat h))" "(lock_tx_id (lk_record l0), output_index (lk_record l0)) = x"
      "lk_record l0 = r" "\<not> settled r"
  shows "av_htlcs (chain_rows E H N n) x = (if h < n then Some (settled_by (spends_of E H N x h n) r) else None)"
  using assms(1,2)
proof (induction n)
  case 0
  then show ?case by (simp add: no_rows_def)
next
  case (Suc n)
  let ?L = "block_locks E H N (word_of_nat n)"
  have IH: "av_htlcs (chain_rows E H N n) x = (if h < n then Some (settled_by (spends_of E H N x h n) r) else None)"
    by (rule Suc.IH) (use Suc.prems less_SucI in blast)+
  obtain ev where ev: "chain_events E H N (word_of_nat n) (chain_rows E H N n) = Inr ev" using Suc.prems(1) by auto
  note parts = chain_events_parts [OF ev]
  have rows: "av_htlcs (chain_rows E H N (Suc n)) x =
      map_option (after_spends (word_of_nat n) (block_spends E H N (word_of_nat n)) x)
        ((av_htlcs (chain_rows E H N n) ++ locked ev) x)"
    by (simp add: ev spec_apply_fields parts)
  have locked: "locked ev x = (if n = h then Some r else None)"
  proof (cases "n = h")
    case True
    have "locked ev x \<noteq> None"
      using assms(3,4) True by (auto simp: locked_def parts written_eq_None_iff)
    moreover have "locked ev x = Some r'  \<Longrightarrow> r' = r" for r'
      using Suc.prems(2) [of n] unfolding locked_def parts by (blast dest: written_eq_Some)
    ultimately show ?thesis using True by auto
  next
    case False
    have "locked ev x = None"
      unfolding locked_def parts written_eq_None_iff using Suc.prems(2) [of n] False by blast
    with False show ?thesis by simp
  qed
  show ?case
  proof (cases "h < n")
    case True
    then show ?thesis
      unfolding rows using IH locked settled_by_append [OF assms(6)] by (simp add: map_add_def spends_of_Suc)
  next
    case False
    show ?thesis
    proof (cases "h = n")
      case True
      have "spends_of E H N x n (Suc n) =
          map (Pair (word_of_nat n)) (filter (spend_hits x) (block_spends E H N (word_of_nat n)))"
        by (simp add: spends_of_def)
      with True show ?thesis
        unfolding rows using locked by (simp add: map_add_def after_spends_settled_by [OF assms(6)])
    next
      case outside: False
      then show ?thesis
        unfolding rows using IH locked False by (simp add: map_add_def)
    qed
  qed
qed


subsection \<open>The answer\<close>

lemma in_block_locks:
  "l \<in> set (block_locks E H N h) \<longleftrightarrow>
     (\<exists>tx t v ps. tx \<in> set (block_txs E H N h) \<and> tx_id_of E tx = Some t \<and> v < length (tx_outputs tx) \<and>
        100 \<le> length (out_script (tx_outputs tx ! v)) \<and>
        try_parse_htlc E (out_script (tx_outputs tx ! v)) = Some ps \<and> l = fresh_lock t h v (tx_outputs tx ! v) ps)"
  unfolding block_locks_def by (auto simp: locks_exact)

lemma fresh_lock_simps [simp]:
  "lock_tx_id (lk_record (fresh_lock t h v out ps)) = t"
  "output_index (lk_record (fresh_lock t h v out ps)) = word_of_nat v"
  "\<not> settled (lk_record (fresh_lock t h v out ps))"
  by (simp_all add: fresh_lock_def settled_def)

text \<open>C4: from the chain to the answer: take an output of a transaction that one block of the chain holds,
  with a script that parses as an HTLC. After any polls of a node that never contradicts the
  chain, whatever reads and writes redb refuses in them, looking the output up finds nothing
  until its block is indexed, and from then on the record its lock creates, settled by the first input of an indexed block, from the lock's own
  on, that spends the output with a witness of a claim or a reclaim; later spends do not count.\<close>

theorem htlc_answer_from_chain:
  assumes "bincode_ok B" "exfer_ok E" "block_id_at H N 0 \<noteq> Inr (filled 0)"
    and "list_all (\<lambda>(A, _, _). serves_chain N A) polls" "fs_db s = open_all_tables"
    and "tx \<in> set (block_txs E H N (word_of_nat h))" "tx_id_of E tx = Some t" "h < 2 ^ 64"
    and "\<forall>k tx'. k < 2 ^ 64 \<longrightarrow> tx' \<in> set (block_txs E H N (word_of_nat k)) \<longrightarrow> tx_id_of E tx' = Some t \<longrightarrow> k = h"
    and "v < length (tx_outputs tx)" "100 \<le> length (out_script (tx_outputs tx ! v))"
      "try_parse_htlc E (out_script (tx_outputs tx ! v)) = Some ps"
  shows "\<exists>m. load_meta B (fs_db (run_polls B E H polls s)) = Inr m \<and>
    get_htlc B (fs_db (run_polls B E H polls s)) t (word_of_nat v) =
      Inr (if h < unat (start_height m)
        then Some (settled_by (spends_of E H N (t, word_of_nat v) h (unat (start_height m)))
          (lk_record (fresh_lock t (word_of_nat h) v (tx_outputs tx ! v) ps)))
        else None)"
proof -
  let ?d = "fs_db (run_polls B E H polls s)" and ?r = "lk_record (fresh_lock t (word_of_nat h) v (tx_outputs tx ! v) ps)"
  obtain m where m: "load_meta B ?d = Inr m" "holds_blocks B E H N False (unat (start_height m)) ?d"
    by (rule polls_hold_start [OF assms(1-3) _ assms(5), of False]) (use assms(4) in simp)
  let ?n = "unat (start_height m)"
  have outs: "tx_outputs tx' = tx_outputs tx \<and> length (tx_outputs tx) \<le> 2 ^ 32" if "tx_id_of E tx' = Some t" for tx'
    using assms(2,7) that unfolding exfer_ok_def by metis
  have one: "k = h \<and> lk_record l = ?r"
    if k: "k < ?n" "l \<in> set (block_locks E H N (word_of_nat k))"
      and x: "(lock_tx_id (lk_record l), output_index (lk_record l)) = (t, word_of_nat v)" for k l
  proof -
    obtain tx' v' ps' where l: "tx' \<in> set (block_txs E H N (word_of_nat k))" "tx_id_of E tx' = Some t" "v' < length (tx_outputs tx')"
      "try_parse_htlc E (out_script (tx_outputs tx' ! v')) = Some ps'" "(word_of_nat v' :: u32) = word_of_nat v"
      "l = fresh_lock t (word_of_nat k) v' (tx_outputs tx' ! v') ps'"
      using k(2) x unfolding in_block_locks by auto
    have "k < 2 ^ 64" using less_trans [OF k(1) unat_u64_less] by simp
    then have "k = h" using assms(9) l(1,2) by blast
    moreover have "v' = v"
      by (rule word_of_nat_u32_eq [OF _ assms(10) _ l(5)]) (use outs [OF l(2)] l(3) in simp_all)
    ultimately show ?thesis using l(4,6) outs [OF l(2)] assms(12) by simp
  qed
  have "av_htlcs (chain_rows E H N ?n) (t, word_of_nat v) =
      (if h < ?n then Some (settled_by (spends_of E H N (t, word_of_nat v) h ?n) ?r) else None)"
  proof (rule chain_htlc [OF _ one])
    show "\<forall>k<?n. \<exists>ev. chain_events E H N (word_of_nat k) (chain_rows E H N k) = Inr ev"
      using m(2) by (simp add: holds_blocks_def)
    show "fresh_lock t (word_of_nat h) v (tx_outputs tx ! v) ps \<in> set (block_locks E H N (word_of_nat h))"
      using assms(6,7,10-12) unfolding in_block_locks by blast
  qed simp_all
  moreover have d: "shown False (view B ?d) = shown False (chain_rows E H N ?n)" "db_ok B ?d"
    using m(2) by (simp_all add: holds_blocks_def store_ok_def)
  note shown_htlcs [OF d(1)]
  ultimately show ?thesis using m(1) get_htlc_view [OF d(2)] by auto
qed

text \<open>On the sample chain the lock of block 5 is answered as claimed by the transaction of block 6.\<close>

lemma served_sample:
  "served_tx sample_exfer sample_hex sample_node (tx_hex 3) = Some fund_tx"
  "served_tx sample_exfer sample_hex sample_node (tx_hex 4) = Some lock_tx"
  "served_tx sample_exfer sample_hex sample_node (tx_hex 7) = Some claim_tx"
  by (simp_all add: served_tx_def sample_node_def sample_status_def sample_exfer_def)

lemma sample_block_txs_at:
  "block_txs sample_exfer sample_hex sample_node h =
     (if h = 4 then [fund_tx] else if h = 5 then [lock_tx] else if h = 6 then [claim_tx] else [])"
  using served_sample by (simp add: block_txs_def) (simp add: sample_node_def)

lemma lock_tx_id_sample: "tx_id_of sample_exfer tx = Some (filled 4) \<longleftrightarrow> tx = lock_tx"
  by (simp add: sample_exfer_def)

lemma small_u64: "k < 2 ^ 64 \<Longrightarrow> (word_of_nat k :: u64) = word_of_nat j \<Longrightarrow> j < 2 ^ 64 \<Longrightarrow> k = j"
  using unat_of_small [of k] unat_of_small [of j] by metis

lemma sample_spends: "map snd (spends_of sample_exfer sample_hex sample_node (filled 4, 0) 5 7) = [sample_spend]"
proof -
  have preimage: "extract_claim_preimage [1, 0, 5, 1, 0, 0, 0, 42] = Some [42]" by code_simp
  have "x_spends (extract_from_tx sample_exfer lock_tx h 0) = []"
    "x_spends (extract_from_tx sample_exfer claim_tx h 0) = [sample_spend]" for h
    by (simp_all add: extract_from_tx_Some sample_exfer_def claim_tx_def fund_tx_def lock_tx_def input_spends_def
        classify_spend_arm_def preimage VALUE_TAG_LEFT_def sample_spend_def)
  moreover have "spend_hits (filled 4, 0) sample_spend" by (simp add: spend_hits_def sample_spend_def)
  ultimately show ?thesis
    by (simp add: spends_of_def block_spends_def sample_block_txs_at upt_conv_Cons)
qed

theorem htlc_answer_from_chain_witness:
  "\<exists>r. get_htlc sample_bincode (fs_db (run_polls sample_bincode sample_exfer sample_hex
       [(steady sample_node, no_faults, 7)] \<lparr>fs_db = open_all_tables, fs_tip = 0\<rparr>)) (filled 4) 0 = Inr (Some r) \<and>
     state r = Claimed \<and> amount r = 50"
proof -
  let ?s = "\<lparr>fs_db = open_all_tables, fs_tip = 0\<rparr> :: blob FollowerState"
  let ?d = "fs_db (run_polls sample_bincode sample_exfer sample_hex [(steady sample_node, no_faults, 7)] ?s)"
  obtain s' m0 where s': "tick sample_bincode sample_exfer sample_hex (steady sample_node) no_faults 7 ?s = (Inr (), s')"
    "load_meta sample_bincode (fs_db s') = Inr m0" "start_height m0 = 7"
    by (rule sample_run)
  then have d: "?d = fs_db s'" by simp
  obtain m where m: "load_meta sample_bincode ?d = Inr m"
    "get_htlc sample_bincode ?d (filled 4) (word_of_nat 0) =
      Inr (if 5 < unat (start_height m)
        then Some (settled_by (spends_of sample_exfer sample_hex sample_node (filled 4, word_of_nat 0) 5 (unat (start_height m)))
          (lk_record (fresh_lock (filled 4) (word_of_nat 5) 0 (tx_outputs lock_tx ! 0) sample_params)))
        else None)"
  proof (rule exE [OF htlc_answer_from_chain [OF sample_bincode_ok sample_exfer_ok sample_genesis, where h = 5 and t = "filled 4" and
        v = 0 and tx = lock_tx and ps = sample_params and polls = "[(steady sample_node, no_faults, 7)]" and s = ?s]])
    show "\<forall>k tx'. k < 2 ^ 64 \<longrightarrow> tx' \<in> set (block_txs sample_exfer sample_hex sample_node (word_of_nat k)) \<longrightarrow>
        tx_id_of sample_exfer tx' = Some (filled 4) \<longrightarrow> k = 5"
      using small_u64 [of _ 5] by (auto simp: sample_block_txs_at lock_tx_id_sample split: if_splits)
    show "list_all (\<lambda>(A, _, _). serves_chain sample_node A) [(steady sample_node, no_faults, 7)]"
      using sample_tip by (simp add: serves_chain_def consistent_sample)
  qed (auto simp: sample_block_txs_at, simp_all add: sample_exfer_def lock_tx_def fund_tx_def claim_tx_def)
  have "unat (start_height m) = 7" using s'(2,3) m(1) unfolding d by simp
  moreover obtain h where "spends_of sample_exfer sample_hex sample_node (filled 4, 0) 5 7 = [(h, sample_spend)]"
    using sample_spends by (auto simp: map_eq_Cons_conv)
  ultimately show ?thesis
    using m(2) by (simp add: settled_by_def settle_record_def sample_spend_def fresh_lock_def lock_tx_def)
qed

end
