(* ===== verification/ChainReorg.thy ===== *)
theory ChainReorg
  imports ChainHtlcs
begin

section \<open>When a reorg is recovered\<close>

text \<open>
  The follower undoes one block when the node no longer has the block of its checkpoint. Here
  the case in which that is enough: only that block was replaced, and it had added rows without
  changing older ones. Then the tick leaves exactly the rows of the node's new chain.
\<close>

subsection \<open>The heights in a chain's rows\<close>

text \<open>Everything the events of a block write carries the block's height.\<close>

lemma scan_spent_heights:
  assumes "fold_res (scan_tx E H N h) ids s = Inr s'" "\<forall>sb\<in>set (bs_spent_by s). sb_block_height sb = h"
  shows "\<forall>sb\<in>set (bs_spent_by s'). sb_block_height sb = h"
proof (rule fold_res_invariant [OF assms(1), where I = "\<lambda>s. \<forall>sb\<in>set (bs_spent_by s). sb_block_height sb = h"])
  fix t s s' assume inv: "\<forall>sb\<in>set (bs_spent_by s). sb_block_height sb = h" and "scan_tx E H N h t s = Inr s'"
  from this(2) show "\<forall>sb\<in>set (bs_spent_by s'). sb_block_height sb = h"
    by (rule scan_txE) (use inv in \<open>auto simp: spent_entry_def dest!: scan_inputs_spent_by\<close>)
qed (rule assms(2))

lemma event_heights:
  assumes "chain_events E H N h A = Inr ev"
  shows "ev_height ev = h"
    and "l \<in> set (ev_locks ev) \<Longrightarrow> lock_height_or_max (lk_record l) = h"
    and "s \<in> set (ev_settlements ev) \<Longrightarrow> s_block_height s = h"
    and "sb \<in> set (ev_spent_by ev) \<Longrightarrow> sb_block_height sb = h"
proof -
  obtain ids s0 where s0: "fold_res (scan_tx E H N h) ids empty_scan = Inr s0" "ev_spent_by ev = bs_spent_by s0"
    "ev_settlements ev = concat (map (settlements_for E A h) (bs_spends s0))"
    using assms by (auto simp: chain_events_def bind_res_eq_Inr_iff lift_eq_Inr_iff)
  show "ev_height ev = h" by (rule chain_events_parts [OF assms])
  show "lock_height_or_max (lk_record l) = h" if "l \<in> set (ev_locks ev)"
    using that unfolding chain_events_parts(2) [OF assms] in_block_locks
    by (auto simp: fresh_lock_def lock_height_or_max_def)
  show "s_block_height s = h" if "s \<in> set (ev_settlements ev)"
    using that unfolding s0(3)
    by (auto simp: settlements_for_def settlements_for_settled_htlc_def Let_def split: option.splits)
  show "sb_block_height sb = h" if "sb \<in> set (ev_spent_by ev)"
    using scan_spent_heights [OF s0(1)] that by (simp add: s0(2) empty_scan_def)
qed

text \<open>A wipe that leaves the rows leaves the rows of a further block at or below its bound.\<close>

lemma dropped_fixed_iff: "dropped P m = m \<longleftrightarrow> (\<forall>x r. m x = Some r \<longrightarrow> \<not> P x r)"
  by (auto simp: dropped_def fun_eq_iff split: option.splits)

lemma spec_wipe_fixed_iff:
  "spec_wipe keep A = A \<longleftrightarrow>
     (\<forall>h b. av_blocks A h = Some b \<longrightarrow> h \<le> keep) \<and>
     (\<forall>x r. av_htlcs A x = Some r \<longrightarrow> lock_height_or_max r \<le> keep) \<and>
     (\<forall>c a h t s. av_settlements A (c, a, h, t) = Some s \<longrightarrow> h \<le> keep) \<and>
     (\<forall>a h t i v. av_activity A (a, h, t, i) = Some v \<longrightarrow> h \<le> keep) \<and>
     (\<forall>x sb. av_spent A x = Some sb \<longrightarrow> sb_block_height sb \<le> keep) \<and>
     (\<forall>x r. av_datums A x = Some r \<longrightarrow> dr_block_height r \<le> keep)"
proof -
  have "spec_wipe keep A = A \<longleftrightarrow>
     dropped (\<lambda>h _. h > keep) (av_blocks A) = av_blocks A \<and>
     dropped (\<lambda>_ r. lock_height_or_max r > keep) (av_htlcs A) = av_htlcs A \<and>
     dropped (\<lambda>x _. case x of (c, a, h, t) \<Rightarrow> h > keep) (av_settlements A) = av_settlements A \<and>
     dropped (\<lambda>x _. case x of (a, h, t, d) \<Rightarrow> h > keep) (av_activity A) = av_activity A \<and>
     dropped (\<lambda>_ sb. sb_block_height sb > keep) (av_spent A) = av_spent A \<and>
     dropped (\<lambda>_ r. dr_block_height r > keep) (av_datums A) = av_datums A"
    by (cases A) (simp add: spec_wipe_def)
  then show ?thesis by (simp add: dropped_fixed_iff not_less)
qed

lemma spec_wipe_rows: "rows_of (spec_wipe keep A) = spec_wipe keep (rows_of A)"
  by (simp add: spec_wipe_def rows_of_def)

lemma map_add_written:
  assumes "(m ++ written key val es) x = Some r"
  obtains e where "e \<in> set es" "key e = x" "val e = r" | "m x = Some r"
  using assms written_eq_Some [of key val es x r] by (auto simp: map_add_Some_iff)

lemma spec_wipe_fixed_apply:
  assumes "spec_wipe keep A = A" "chain_events E H N h A' = Inr ev" "h \<le> keep"
  shows "spec_wipe keep (spec_apply ev A) = spec_apply ev A"
  unfolding spec_wipe_fixed_iff
proof (intro conjI allI impI)
  note heights = event_heights [OF assms(2)]
  have low: "\<And>h b. av_blocks A h = Some b \<Longrightarrow> h \<le> keep"
    "\<And>x r. av_htlcs A x = Some r \<Longrightarrow> lock_height_or_max r \<le> keep"
    "\<And>c a h t s. av_settlements A (c, a, h, t) = Some s \<Longrightarrow> h \<le> keep"
    "\<And>a h t i v. av_activity A (a, h, t, i) = Some v \<Longrightarrow> h \<le> keep"
    "\<And>x sb. av_spent A x = Some sb \<Longrightarrow> sb_block_height sb \<le> keep"
    "\<And>x r. av_datums A x = Some r \<Longrightarrow> dr_block_height r \<le> keep"
    using assms(1) unfolding spec_wipe_fixed_iff by blast+
  let ?A = "spec_apply ev A"
  show "h' \<le> keep" if "av_blocks ?A h' = Some b" for h' b
    using that assms(3) heights(1) by (auto simp: spec_apply_eq split: if_splits intro: low(1))
  show "lock_height_or_max r \<le> keep" if "av_htlcs ?A x = Some r" for x r
  proof -
    let ?w = "(av_htlcs A ++ locked ev) x"
    have r: "map_option (after_spends (ev_height ev) (ev_spends ev) x) ?w = Some r" using that by (simp only: spec_apply_fields)
    then obtain r0 where r0: "?w = Some r0" by (cases ?w) simp_all
    with r have same: "lock_height_or_max r = lock_height_or_max r0" by (auto simp del: map_add_Some_iff)
    from r0 [unfolded locked_def] have "lock_height_or_max r0 \<le> keep"
      by (rule map_add_written) (use heights(2) assms(3) in \<open>auto intro: low(2)\<close>)
    then show ?thesis by (simp add: same)
  qed
  show "h' \<le> keep" if "av_settlements ?A (c, a, h', t) = Some s" for c a h' t s
    using that unfolding spec_apply_fields by (rule map_add_written) (use heights(3) assms(3) in \<open>auto intro: low(3)\<close>)
  show "h' \<le> keep" if "av_activity ?A (a, h', t, i) = Some v" for a h' t i v
    using that unfolding spec_apply_fields
    by (rule map_add_written) (use heights(1) assms(3) in \<open>auto simp: activity_key_of_def intro: low(4)\<close>)
  show "sb_block_height sb \<le> keep" if "av_spent ?A x = Some sb" for x sb
    using that unfolding spec_apply_eq StoreView.simps
    by (rule map_add_written) (use heights(4) assms(3) in \<open>auto intro: low(5)\<close>)
  show "dr_block_height r \<le> keep" if "av_datums ?A x = Some r" for x r
    using that unfolding spec_apply_fields
    by (rule map_add_written) (use heights(1) assms(3) in \<open>auto simp: datum_value_of_def intro: low(6)\<close>)
qed

lemma chain_rows_low:
  assumes "n \<le> Suc (unat keep)"
  shows "spec_wipe keep (chain_rows E H N n) = chain_rows E H N n"
  using assms
proof (induction n)
  case 0
  show ?case by (simp add: spec_wipe_def no_rows_def dropped_def)
next
  case (Suc n)
  show ?case
  proof (cases "chain_events E H N (word_of_nat n) (chain_rows E H N n)")
    case (Inr ev)
    have "n \<le> unat keep" using Suc.prems by simp
    then have "n < 2 ^ 64" using unat_u64_less [of keep] by (simp add: order_le_less_trans)
    then have "word_of_nat n \<le> keep" using Suc.prems unat_of_small [of n] by (simp add: word_le_nat_alt)
    then have "spec_wipe keep (spec_apply ev (chain_rows E H N n)) = spec_apply ev (chain_rows E H N n)"
      using Suc by (intro spec_wipe_fixed_apply [OF _ Inr]) simp_all
    then show ?thesis using Inr by (simp flip: spec_wipe_rows)
  qed (use Suc in simp)
qed


subsection \<open>Undoing the last block\<close>

text \<open>A block that only adds: it locks no outpoint that has a record, spends no unsettled HTLC that the chain
  below holds, and writes no spent or datum row that is there.\<close>

definition only_adds :: "BlockApplyEvents \<Rightarrow> StoreView \<Rightarrow> bool" where
  "only_adds ev A \<longleftrightarrow>
     (\<forall>l\<in>set (ev_locks ev). av_htlcs A (lock_tx_id (lk_record l), output_index (lk_record l)) = None) \<and>
     (\<forall>sp\<in>set (ev_spends ev). case av_htlcs A (sp_lock_tx_id sp, sp_output_index sp) of None \<Rightarrow> True | Some r \<Rightarrow> settled r) \<and>
     (\<forall>sb\<in>set (ev_spent_by ev). av_spent A (sb_prev_tx_id sb, sb_output_index sb) = None) \<and>
     (\<forall>od\<in>set (ev_output_datums ev). av_datums A (od_tx_id od, od_output_index od) = None)"

lemma undo_block:
  assumes "chain_events E H N h A = Inr ev" "0 < h" "only_adds ev A" "spec_wipe (h - 1) A = A"
  shows "rows_of (spec_wipe (h - 1) (spec_apply ev A)) = rows_of A"
proof -
  have less: "h - 1 < h" using assms(2) by (simp add: word_less_nat_alt unat_pred_u64)
  have "extends_above (h - 1) ev A"
    unfolding extends_above_def using assms(3) less event_heights [OF assms(1)]
    by (simp add: only_adds_def list_all_iff)
  from spec_wipe_apply [OF this assms(4)] show ?thesis by simp
qed


subsection \<open>A common part of two chains\<close>

text \<open>A chain that another one extends determines the same rows as far as it goes.\<close>

lemma chain_events_consistent:
  assumes "consistent_with N C" "chain_events E H C h A = Inr ev"
  shows "chain_events E H N h A = Inr ev"
proof -
  obtain b where b: "n_get_block_by_height C h = Inr b"
    using assms(2) by (auto simp: chain_events_def bind_res_eq_Inr_iff lift_eq_Inr_iff)
  then have N: "n_get_block_by_height N h = Inr b" using assms(1) by (simp add: consistent_with_def)
  obtain s where s: "fold_res (scan_tx E H C h) (b_transactions b) empty_scan = Inr s"
    using assms(2) b by (auto simp: chain_events_def bind_res_eq_Inr_iff)
  then have "fold_res (scan_tx E H N h) (b_transactions b) empty_scan = Inr s"
    by (rule fold_res_mono) (rule scan_tx_consistent [OF assms(1)])
  then show ?thesis using assms(2) by (simp add: chain_events_def N b s)
qed

lemma readable_events: "readable E H C h \<Longrightarrow> \<exists>ev. chain_events E H C h A = Inr ev"
  by (auto simp: readable_def chain_events_def)

lemma chain_rows_common:
  assumes "consistent_with N C" "\<forall>h<k. readable E H C (word_of_nat h)"
  shows "chain_rows E H N k = chain_rows E H C k"
  using assms(2)
proof (induction k)
  case (Suc k)
  obtain ev where ev: "chain_events E H C (word_of_nat k) (chain_rows E H C k) = Inr ev"
    using readable_events Suc.prems by blast
  with chain_events_consistent [OF assms(1) ev] Suc show ?case by simp
qed simp

lemma block_id_consistent: "consistent_with N C \<Longrightarrow> block_id_at H C h = Inr i \<Longrightarrow> block_id_at H N h = Inr i"
  by (auto simp: block_id_at_def consistent_with_def bind_res_eq_Inr_iff lift_eq_Inr_iff)


subsection \<open>The tick after a reorg\<close>

text \<open>The reorg check leaves the rows of the common part, with the checkpoint at its last block.\<close>

lemma check_reorg_undoes:
  assumes "bincode_ok B" "block_id_at H N 0 \<noteq> Inr (filled 0)" "holds_blocks B E H N True (Suc k) (fs_db s)" "0 < k"
    and "load_meta B (fs_db s) = Inr m" "m_last_indexed_height meta = m_last_indexed_height m"
      "m_last_indexed_block_id meta = m_last_indexed_block_id m"
    and "consistent_with N C" "consistent_with N' C" "\<forall>h<k. readable E H C (word_of_nat h)"
    and "chain_events E H N (word_of_nat k) (chain_rows E H N k) = Inr ev" "only_adds ev (chain_rows E H N k)"
    and "block_id_at H N' (word_of_nat k) = Inr i" "i \<noteq> m_last_indexed_block_id m"
  obtains s1 meta1 where "check_reorg B H (steady N') no_faults meta s = (Inr meta1, s1)"
    "holds_blocks B E H N' True k (fs_db s1)" "load_meta B (fs_db s1) = Inr meta1" "checkpoint_of H N' k meta1"
proof -
  have st: "store_ok B E (fs_db s)" "rows_of (view B (fs_db s)) = chain_rows E H N (Suc k)" "checkpoint_of H N (Suc k) m"
    using assms(3,5) by (auto simp: holds_blocks_def)
  then have k: "Suc k < 2 ^ 64" "m_last_indexed_height meta = word_of_nat k" by (simp_all add: checkpoint_of_def assms(6))
  then have k0: "0 < m_last_indexed_height meta" using assms(4) small_eq_0 [of k] by (simp add: word_gt_0)
  have pred: "word_of_nat k - 1 = (word_of_nat (k - 1) :: u64)" using assms(4) by (simp add: of_nat_diff)
  obtain j where j: "block_id_at H C (word_of_nat (k - 1)) = Inr j"
    using readable_block_id assms(4,10) by (metis diff_less zero_less_one)
  have "block_id_at H N' (m_last_indexed_height meta) = Inr i" "block_id_at H N' (m_last_indexed_height meta - 1) = Inr j"
    using assms(13) block_id_consistent [OF assms(9) j] by (simp_all add: k(2) pred)
  note ids = this
  have br: "0 < m_last_indexed_height meta \<and> i \<noteq> m_last_indexed_block_id meta" using k0 assms(7,14) by simp
  from check_reorg_ok [OF assms(1) st(1) ids] obtain s1 meta1 where
    c0: "check_reorg B H (steady N') no_faults meta s = (Inr meta1, s1) \<and> store_ok B E (fs_db s1) \<and> fs_tip s1 = fs_tip s \<and>
    (if 0 < m_last_indexed_height meta \<and> i \<noteq> m_last_indexed_block_id meta
     then meta1 = meta\<lparr>m_last_indexed_height := m_last_indexed_height meta - 1, m_last_indexed_block_id := j,
                       m_full_scan_complete := False\<rparr> \<and>
       view B (fs_db s1) = (spec_wipe (m_last_indexed_height meta - 1) (view B (fs_db s)))\<lparr>av_meta := Some meta1\<rparr>
     else meta1 = meta \<and> s1 = s)" by blast
  note c' = c0 [unfolded if_P [OF br], unfolded k(2) pred]
  have c: "check_reorg B H (steady N') no_faults meta s = (Inr meta1, s1)" "store_ok B E (fs_db s1)"
    "meta1 = meta\<lparr>m_last_indexed_height := word_of_nat (k - 1), m_last_indexed_block_id := j, m_full_scan_complete := False\<rparr>"
    "view B (fs_db s1) = (spec_wipe (word_of_nat (k - 1)) (view B (fs_db s)))\<lparr>av_meta := Some meta1\<rparr>"
    by (fact c' [THEN conjunct1] c' [THEN conjunct2, THEN conjunct1] c' [THEN conjunct2, THEN conjunct2, THEN conjunct2, THEN conjunct1]
        c' [THEN conjunct2, THEN conjunct2, THEN conjunct2, THEN conjunct2])+
  have "k \<le> Suc (unat (word_of_nat (k - 1) :: u64))" using k(1) unat_of_small [of "k - 1"] by simp
  then have low: "spec_wipe (word_of_nat k - 1) (chain_rows E H N k) = chain_rows E H N k"
    unfolding pred by (rule chain_rows_low)
  have "rows_of (view B (fs_db s1)) = spec_wipe (word_of_nat (k - 1)) (chain_rows E H N (Suc k))"
    unfolding c(4) rows_of_simps spec_wipe_rows st(2) ..
  also have "\<dots> = rows_of (spec_wipe (word_of_nat k - 1) (spec_apply ev (chain_rows E H N k)))"
    unfolding chain_rows.simps assms(11) sum.case pred spec_wipe_rows ..
  also have "\<dots> = rows_of (chain_rows E H N k)"
    by (rule undo_block [OF assms(11) k0 [unfolded k(2)] assms(12) low])
  also have "\<dots> = chain_rows E H N' k"
    using chain_rows_common [OF assms(8,10)] chain_rows_common [OF assms(9,10)] by simp
  finally have rows: "rows_of (view B (fs_db s1)) = chain_rows E H N' k" .
  have "\<exists>ev. chain_events E H N' (word_of_nat h) (chain_rows E H N' h) = Inr ev" if "h < k" for h
    using readable_events assms(10) chain_events_consistent [OF assms(9)] that by blast
  moreover have meta: "load_meta B (fs_db s1) = Inr meta1"
    using c(2) by (simp add: load_meta_view store_ok_def c(4))
  moreover have cp: "checkpoint_of H N' k meta1"
    using assms(4) k(1) block_id_consistent [OF assms(9) j] by (cases k) (simp_all add: checkpoint_of_def c(3))
  ultimately have "holds_blocks B E H N' True k (fs_db s1)"
    using rows c(2) by (simp add: holds_blocks_def)
  from that [OF c(1) this meta cp] show ?thesis .
qed

text \<open>C5: a reorg of one block is recovered when the lost block had only added: let the index be that of one
  chain, made without a failing read of a spent HTLC, and let the node switch to another chain
  that shares every block below the checkpoint but not the checkpoint's; if the lost block settled no older HTLC, then one tick without
  faults succeeds and leaves exactly the rows the new chain determines up to the node's tip,
  as if the lost block had never been indexed.\<close>

theorem one_block_reorg_recovers:
  assumes "bincode_ok B" "exfer_ok E" "block_id_at H N 0 \<noteq> Inr (filled 0)" "block_id_at H N' 0 \<noteq> Inr (filled 0)"
    and "list_all (\<lambda>(A, ft, _). serves_chain N A \<and> peeks_succeed ft) polls" "fs_db s0 = open_all_tables" "s = run_polls B E H polls s0"
    and "load_meta B (fs_db s) = Inr m" "start_height m = word_of_nat (Suc k)" "0 < k" "Suc k < 2 ^ 64"
    and "consistent_with N C" "consistent_with N' C" "\<forall>h<k. readable E H C (word_of_nat h)"
    and "chain_events E H N (word_of_nat k) (chain_rows E H N k) = Inr ev" "only_adds ev (chain_rows E H N k)"
    and "n_get_block_height N' = Inr tip" "word_of_nat k \<le> tip_height tip" "tip_height tip \<noteq> - 1"
    and "\<forall>h. word_of_nat k \<le> h \<and> h \<le> tip_height tip \<longrightarrow> readable E H N' h"
    and "block_id_at H N' (word_of_nat k) \<noteq> Inr (m_last_indexed_block_id m)"
  shows "\<exists>s'. tick B E H (steady N') no_faults now s = (Inr (), s') \<and>
    (view B (fs_db s'))\<lparr>av_meta := None\<rparr> = chain_rows E H N' (Suc (unat (tip_height tip)))"
proof -
  obtain m' where m': "load_meta B (fs_db s) = Inr m'" "holds_blocks B E H N True (unat (start_height m')) (fs_db s)"
    using polls_hold_start [OF assms(1-3) _ assms(6), of True polls] assms(5) unfolding assms(7) by auto
  then have hold: "holds_blocks B E H N True (Suc k) (fs_db s)"
    using assms(8,9,11) unat_of_small [of "Suc k"] by simp
  let ?meta = "with_start now m"
  obtain i where i: "block_id_at H N' (word_of_nat k) = Inr i" "i \<noteq> m_last_indexed_block_id m"
    using assms(18,20,21) readable_block_id by (metis order_refl)
  obtain s1 meta1 where c: "check_reorg B H (steady N') no_faults ?meta s = (Inr meta1, s1)"
    "holds_blocks B E H N' True k (fs_db s1)" "load_meta B (fs_db s1) = Inr meta1" "checkpoint_of H N' k meta1"
    by (rule check_reorg_undoes [OF assms(1,3) hold assms(10) assms(8) _ _ assms(12-16) i, of ?meta]) simp_all
  have tick: "tick B E H (steady N') no_faults now s = walk_forward B E H (steady N') no_faults tip meta1 s1"
    by (simp add: tick_def bind_step_apply assms(17,8) c(1))
  have start: "start_height meta1 = word_of_nat k" by (rule checkpoint_start [OF c(4) assms(4)])
  have last: "m_last_indexed_height meta1 = word_of_nat (k - 1)"
    "block_id_at H N' (m_last_indexed_height meta1) = Inr (m_last_indexed_block_id meta1)"
    using c(4) assms(10) by (auto simp: checkpoint_of_def split: nat.splits)
  have "unat (word_of_nat (k - 1) :: u64) \<le> unat (word_of_nat k :: u64)"
    using assms(11) by (simp add: unat_of_small)
  then have le: "m_last_indexed_height meta1 \<le> tip_height tip"
    unfolding last(1) using assms(18) by (simp add: word_le_nat_alt)
  have "list_all (readable E H N') (heights (start_height meta1) (tip_height tip))"
    using assms(20) by (simp add: list_all_iff start heights_props(3) [OF assms(18)])
  from walk_forward_ok [OF assms(1,2) _ this le assms(19) c(3) refl refl last(2)] c(2) obtain s' where
    s': "walk_forward B E H (steady N') no_faults tip meta1 s1 = (Inr (), s')"
    "checkpoint_at B H N' (tip_height tip) (fs_db s')"
    by (auto simp: holds_blocks_def)
  obtain n where n: "holds_blocks B E H N' True n (fs_db s')"
    using walk_forward_holds_blocks [OF assms(1,2,4) _ assms(19) _ c(2,4), of "steady N'" no_faults] s'(1)
    by (auto simp: consistent_with_def)
  obtain m2 where m2: "load_meta B (fs_db s') = Inr m2" "m_last_indexed_height m2 = tip_height tip"
    using s'(2) by (auto simp: checkpoint_at_def)
  have cp: "checkpoint_of H N' n m2" using n m2(1) by (auto simp: holds_blocks_def)
  have "tip_height tip \<noteq> 0" using assms(10,11,18) small_eq_0 [of k] by auto
  then have "word_of_nat n = tip_height tip + 1"
    using checkpoint_start [OF cp assms(4)] m2(2) by (simp add: start_height_def)
  then have "n = Suc (unat (tip_height tip))"
    using cp unat_of_small [of n] unat_succ_u64 [OF assms(19)] by (simp add: checkpoint_of_def)
  with holds_blocks_all [OF n] s'(1) tick show ?thesis by simp
qed


subsection \<open>A lost block with a lock\<close>

text \<open>Block 1 of the lost chain locks an HTLC; the new chain shares block 0 and grows to height 6.\<close>

definition lost_chain :: node where
  "lost_chain = chain_node 100 (\<lambda>h. if h = 1 then [tx_hex 4] else [])"

definition lost_answers :: answers where
  "lost_answers = (steady lost_chain)\<lparr>at_tip := lost_chain\<lparr>n_get_block_height := Inr \<lparr>tip_height = 1, tip_block_id = []\<rparr>\<rparr>\<rparr>"

definition new_chain :: node where
  "new_chain = lost_chain\<lparr>n_get_block_by_height :=
     (\<lambda>h. Inr (sample_block (if h = 0 then 100 else 200) (\<lambda>_. []) h))\<rparr>"

definition common_part :: node where
  "common_part = lost_chain\<lparr>n_get_block_by_height :=
     (\<lambda>h. if h = 0 then Inr (sample_block 100 (\<lambda>_. []) 0) else Inl (UpstreamRpc (- 1) ''no such block''))\<rparr>"

lemma reorg_nodes:
  "consistent_with lost_chain common_part" "consistent_with new_chain common_part"
  "consistent_with lost_chain lost_chain"
  by (auto simp: consistent_with_def lost_chain_def new_chain_def common_part_def sample_block_def split: if_splits)

lemma empty_block_readable:
  assumes "n_get_block_by_height N h = Inr (sample_block salt (\<lambda>_. []) h)"
  shows "readable sample_exfer sample_hex N h" "block_id_at sample_hex N h = Inr (filled (salt + of_nat (unat h)))"
  using assms by (simp_all add: readable_def block_id_at_def)

lemma lost_readable: "readable sample_exfer sample_hex lost_chain h"
  unfolding lost_chain_def by (rule readable_chain) simp

lemma lost_ids: "block_id_at sample_hex lost_chain h = Inr (filled (100 + of_nat (unat h)))"
  by (simp add: lost_chain_def block_id_at_def)

lemma lost_run:
  obtains s m where
    "run_polls sample_bincode sample_exfer sample_hex [(lost_answers, no_faults, 7)] \<lparr>fs_db = open_all_tables, fs_tip = 0\<rparr> = s"
    "load_meta sample_bincode (fs_db s) = Inr m" "start_height m = 2" "m_last_indexed_block_id m = filled 101"
proof -
  let ?s = "\<lparr>fs_db = open_all_tables, fs_tip = 0\<rparr> :: blob FollowerState"
  have tip: "n_get_block_height (at_tip lost_answers) = Inr \<lparr>tip_height = 1, tip_block_id = []\<rparr>"
    "at_block lost_answers = (\<lambda>_. lost_chain)"
    by (simp_all add: lost_answers_def steady_def)
  obtain s where s: "tick sample_bincode sample_exfer sample_hex lost_answers no_faults 7 ?s = (Inr (), s)"
    "checkpoint_at sample_bincode sample_hex lost_chain 1 (fs_db s)"
    by (rule tick_indexes [OF sample_bincode_ok sample_exfer_ok _ _ tip(1),
          where s = ?s and m = FollowerMeta_default and H = sample_hex and now = 7])
      (use lost_readable fresh_checkpoint in \<open>simp_all add: tip(2)\<close>)
  from s(2) obtain m where "load_meta sample_bincode (fs_db s) = Inr m" "m_last_indexed_height m = 1"
    "m_last_indexed_block_id m = filled 101"
    by (auto simp: checkpoint_at_def lost_ids)
  with s(1) show ?thesis by (intro that [of s m]) (simp_all add: start_height_def)
qed

lemma lost_block_adds:
  obtains ev where "chain_events sample_exfer sample_hex lost_chain 1 (chain_rows sample_exfer sample_hex lost_chain 1) = Inr ev"
    "only_adds ev (chain_rows sample_exfer sample_hex lost_chain 1)"
proof -
  let ?A = "chain_rows sample_exfer sample_hex lost_chain 1"
  have "av_htlcs ?A x = None \<and> av_spent ?A x = None \<and> av_datums ?A x = None" for x
    by (simp add: lost_chain_def chain_events_def empty_scan_def rows_of_def spec_apply_eq locked_def no_rows_def written_def)
  then have "only_adds ev ?A" for ev by (simp add: only_adds_def)
  moreover obtain ev where "chain_events sample_exfer sample_hex lost_chain 1 ?A = Inr ev"
    using readable_events [OF lost_readable] by blast
  ultimately show ?thesis using that by blast
qed

theorem one_block_reorg_recovers_witness:
  "\<exists>s m s'. run_polls sample_bincode sample_exfer sample_hex [(lost_answers, no_faults, 7)]
       \<lparr>fs_db = open_all_tables, fs_tip = 0\<rparr> = s \<and>
     load_meta sample_bincode (fs_db s) = Inr m \<and> m_last_indexed_block_id m = filled 101 \<and>
     tick sample_bincode sample_exfer sample_hex (steady new_chain) no_faults 8 s = (Inr (), s') \<and>
     (view sample_bincode (fs_db s'))\<lparr>av_meta := None\<rparr> = chain_rows sample_exfer sample_hex new_chain 7"
proof -
  let ?s = "\<lparr>fs_db = open_all_tables, fs_tip = 0\<rparr> :: blob FollowerState"
  obtain s m where s: "run_polls sample_bincode sample_exfer sample_hex [(lost_answers, no_faults, 7)] ?s = s"
    "load_meta sample_bincode (fs_db s) = Inr m" "start_height m = 2" "m_last_indexed_block_id m = filled 101"
    by (rule lost_run)
  obtain ev where ev: "chain_events sample_exfer sample_hex lost_chain 1 (chain_rows sample_exfer sample_hex lost_chain 1) = Inr ev"
    "only_adds ev (chain_rows sample_exfer sample_hex lost_chain 1)"
    by (rule lost_block_adds)
  have new: "n_get_block_by_height new_chain h = Inr (sample_block (if h = 0 then 100 else 200) (\<lambda>_. []) h)" for h
    by (simp add: new_chain_def)
  let ?tip = "\<lparr>tip_height = 6, tip_block_id = b_block_id (sample_block 100 (\<lambda>h. if h = 1 then [tx_hex 4] else []) 6)\<rparr>"
  have tip: "n_get_block_height new_chain = Inr ?tip"
    by (simp add: new_chain_def lost_chain_def)
  have common: "readable sample_exfer sample_hex common_part (word_of_nat h)" if "h < 1" for h
    using that by (intro empty_block_readable(1) [where salt = 100]) (simp add: common_part_def)
  have ids: "block_id_at sample_hex new_chain 0 \<noteq> Inr (filled 0)" "block_id_at sample_hex new_chain 1 \<noteq> Inr (filled 101)"
    by (simp_all add: empty_block_readable(2) [OF new])
  have "\<exists>s'. tick sample_bincode sample_exfer sample_hex (steady new_chain) no_faults 8 s = (Inr (), s') \<and>
    (view sample_bincode (fs_db s'))\<lparr>av_meta := None\<rparr> = chain_rows sample_exfer sample_hex new_chain (Suc (unat (tip_height ?tip)))"
  proof (rule one_block_reorg_recovers [OF sample_bincode_ok sample_exfer_ok _ ids(1) _ _ s(1) [symmetric] s(2), where k = 1
        and C = common_part and N = lost_chain and ev = ev and tip = ?tip])
    show "list_all (\<lambda>(A, ft, _). serves_chain lost_chain A \<and> peeks_succeed ft) [(lost_answers, no_faults, 7)]"
      using reorg_nodes(3) by (auto simp: serves_chain_def lost_answers_def)
  qed (use s(3,4) ev reorg_nodes common tip ids(2) empty_block_readable(1) [OF new] in \<open>simp_all add: lost_ids del: chain_rows.simps\<close>)
  moreover have "Suc (unat (tip_height ?tip)) = 7" by simp
  ultimately show ?thesis using s(1,2,4) by auto
qed

end
