(* ===== verification/ChainMigration.thy ===== *)
theory ChainMigration
  imports ChainHtlcs
begin

section \<open>Walking the chain again after a migration\<close>

text \<open>
  Opening a database with an outdated checkpoint resets the checkpoint to genesis and leaves
  every row, so the follower walks the whole chain again over the rows of the first walk. This
  theory compares that walk with one over an empty store: the rows of a block overwrite those
  under the same keys, an HTLC is reopened by its own lock and settled again by its own spend,
  and only the settlements depend on what the store held before the block. Once the
  checkpoint is back at its old height the rows are the chain's again, the settlements too if
  no block spends an HTLC it locks itself.
\<close>

subsection \<open>Events over another store\<close>





subsection \<open>The rows over others are the chain's and what the chain leaves of them\<close>












subsection \<open>The settlements\<close>








subsection \<open>The migration\<close>


















end
