(* ===== verification/SwapGroups.thy ===== *)
theory SwapGroups
  imports HtlcQueries
begin

section \<open>Groups of HTLCs that share a hashlock (\<^verbatim>\<open>src/db/mod.rs\<close>, lines 830-928)\<close>

text \<open>
  The streaming scan of the hashlock index that \<open>scan_groups\<close> models is shown to be
  the obvious computation: cut the sorted key list into runs of equal hashlock, keep the runs
  of more than one key, take the first \<open>limit\<close>.
\<close>

fun join_run :: "'h \<Rightarrow> 'k list \<Rightarrow> ('h \<times> 'k list) list \<Rightarrow> ('h \<times> 'k list) list" where
  "join_run h ps [] = [(h, ps)]"
| "join_run h ps ((h', ps') # rs) = (if h' = h then (h, ps @ ps') # rs else (h, ps) # (h', ps') # rs)"

fun runs :: "('h \<times> 'k) list \<Rightarrow> ('h \<times> 'k list) list" where
  "runs [] = []"
| "runs ((h, p) # ks) = join_run h [p] (runs ks)"

definition multi :: "'h \<times> 'k list \<Rightarrow> bool" where
  "multi g \<longleftrightarrow> length (snd g) > 1"

lemma join_run_join_run:
  "join_run h ps (join_run h qs rs) = join_run h (ps @ qs) rs"
  "h' \<noteq> h \<Longrightarrow> join_run h ps (join_run h' qs rs) = (h, ps) # join_run h' qs rs"
  by (cases rs; auto)+

lemma scan_groups_runs:
  "length groups < limit \<Longrightarrow>
     scan_groups limit ks (Some (h, ps)) groups = take limit (groups @ filter multi (join_run h ps (runs ks)))"
proof (induction ks arbitrary: h ps groups)
  case Nil
  then show ?case by (simp add: multi_def)
next
  case (Cons k ks)
  obtain h' p where k: "k = (h', p)" by force
  show ?case
  proof (cases "h' = h")
    case True
    then show ?thesis using Cons by (simp add: k join_run_join_run)
  next
    case False
    show ?thesis
    proof (cases "length ps > 1 \<and> length (groups @ [(h, ps)]) \<ge> limit")
      case True
      then have "limit - length groups = Suc 0" using Cons.prems by (auto simp: le_Suc_eq)
      then show ?thesis using True False Cons.prems by (simp add: k join_run_join_run multi_def)
    next
      case more: False
      then show ?thesis
        using False Cons.prems Cons.IH [of "groups @ [(h, ps)]" h' "[p]"] Cons.IH [of groups h' "[p]"]
        by (auto simp: k join_run_join_run multi_def)
    qed
  qed
qed

lemma scan_groups_eq: "0 < limit \<Longrightarrow> scan_groups limit ks None [] = take limit (filter multi (runs ks))"
  by (cases ks) (auto simp: scan_groups_runs)

text \<open>The runs of a list sorted by hashlock: one per hashlock, with all its keys.\<close>

lemma runs_sorted:
  fixes ks :: "('h::linorder \<times> 'k) list"
  assumes "sorted (map fst ks)"
  shows "sorted_wrt (<) (map fst (runs ks)) \<and> set (map fst (runs ks)) = set (map fst ks) \<and>
    (\<forall>g. g \<in> set (runs ks) \<longrightarrow> snd g = map snd (filter (\<lambda>k. fst k = fst g) ks))"
  using assms
proof (induction ks)
  case (Cons k ks)
  obtain h p where k: "k = (h, p)" by force
  have IH: "sorted_wrt (<) (map fst (runs ks))" "set (map fst (runs ks)) = set (map fst ks)"
    "\<And>g. g \<in> set (runs ks) \<Longrightarrow> snd g = map snd (filter (\<lambda>k. fst k = fst g) ks)"
    using Cons by auto
  have le: "\<forall>h'\<in>set (map fst (runs ks)). h \<le> h'"
    unfolding IH(2) using Cons.prems by (auto simp: k)
  show ?case
  proof (cases "runs ks")
    case Nil
    then have "ks = []" using IH(2) by simp
    then show ?thesis by (simp add: k)
  next
    case runs: (Cons g rs)
    obtain h' ps' where g: "g = (h', ps')" by force
    show ?thesis
    proof (cases "h' = h")
      case True
      have hd: "ps' = map snd (filter (\<lambda>k. fst k = h) ks)"
        using IH(3) [of g] by (simp add: runs g True)
      have "fst r \<noteq> h" if "r \<in> set rs" for r
        using IH(1) that by (auto simp: runs g True)
      moreover have "snd r = map snd (filter (\<lambda>k. fst k = fst r) ks)" if "r \<in> set rs" for r
        using IH(3) [of r] that by (simp add: runs)
      ultimately show ?thesis
        using IH(1,2) hd by (auto simp: k runs g True)
    next
      case False
      then have lt: "h < h'"
        using le by (auto simp: runs g)
      then have above: "\<forall>h2\<in>set (map fst (runs ks)). h < h2"
        using IH(1) by (auto simp: runs g)
      then have none: "filter (\<lambda>k. fst k = h) ks = []"
        unfolding IH(2) by (auto simp: filter_empty_conv)
      have "snd r = map snd (filter (\<lambda>k. fst k = fst r) (k # ks))" if "r \<in> set (runs ks)" for r
        using IH(3) [OF that] above that by (auto simp: k)
      then show ?thesis
        using IH(1,2) above none False by (auto simp: k runs g)
    qed
  qed
qed simp


subsection \<open>The query\<close>

definition locked_under :: "StoreView \<Rightarrow> 32 bytes \<Rightarrow> HtlcRecord set" where
  "locked_under A hl = {r. av_htlcs A (lock_tx_id r, output_index r) = Some r \<and> hash_lock (params r) = hl}"

text \<open>The hashlocks a query can report: shared by two HTLCs, and the one asked for, if any.\<close>

definition shared_hashlocks :: "StoreView \<Rightarrow> 32 bytes option \<Rightarrow> 32 bytes set" where
  "shared_hashlocks A only =
     {hl. 2 \<le> card (locked_under A hl) \<and> (case only of None \<Rightarrow> True | Some h \<Rightarrow> hl = h)}"

lemma group_rows:
  assumes "db_ok B d"
  shows "(l, x) \<in> set (hash_rows d (case only of Some h \<Rightarrow> byte_list h | None \<Rightarrow> [])) \<longleftrightarrow>
     (case only of None \<Rightarrow> True | Some h \<Rightarrow> l = h) \<and>
     (\<exists>r. av_htlcs (view B d) x = Some r \<and> hash_lock (params r) = l)"
proof (cases only)
  case None
  then show ?thesis using hash_rows_iff [OF assms, of "[]" l x] by simp
next
  case (Some h)
  then show ?thesis using hash_rows_iff [OF assms, of "byte_list h" l x] by (cases x) auto
qed

lemma hash_rows_order:
  assumes "db_ok B d"
  shows "sorted (map fst (hash_rows d p))"
    and "sorted_wrt (<) (map outpoint_key (map snd (filter (\<lambda>y. fst y = hl) (hash_rows d p))))"
proof -
  note st = hash_rows_sorted [OF assms, of p, unfolded sorted_wrt_map]
  show "sorted (map fst (hash_rows d p))"
    unfolding sorted_map
    by (rule sorted_wrt_mono_rel [OF _ st])
      (auto simp: hashlock_key_def append_less_iff less_eq_bytes_def)
  have "sorted_wrt (\<lambda>x y. outpoint_key (snd x) < outpoint_key (snd y)) (filter (\<lambda>y. fst y = hl) (hash_rows d p))"
    by (rule sorted_wrt_mono_rel [OF _ sorted_wrt_filter [OF st]])
      (auto simp: hashlock_key_def htlc_primary_key_def append_less_iff)
  then show "sorted_wrt (<) (map outpoint_key (map snd (filter (\<lambda>y. fst y = hl) (hash_rows d p))))"
    by (simp add: sorted_wrt_map)
qed

text \<open>The members of a group, read in the order of their outpoints.\<close>

definition group_members :: "'b bincode \<Rightarrow> 'b db \<Rightarrow> u8 list \<Rightarrow> 32 bytes \<Rightarrow> HtlcRecord list" where
  "group_members B d p hl =
     List.map_filter (av_htlcs (view B d)) (map snd (filter (\<lambda>y. fst y = hl) (hash_rows d p)))"

lemma group_members_props:
  assumes "db_ok B d" and p: "p = (case only of Some h \<Rightarrow> byte_list h | None \<Rightarrow> [])"
    and "case only of None \<Rightarrow> True | Some h \<Rightarrow> hl = h"
  shows "set (group_members B d p hl) = locked_under (view B d) hl"
    and "sorted_wrt (<) (map own_key (group_members B d p hl))"
    and "length (group_members B d p hl) = length (filter (\<lambda>y. fst y = hl) (hash_rows d p))"
    and "card (locked_under (view B d) hl) = length (filter (\<lambda>y. fst y = hl) (hash_rows d p))"
proof -
  let ?m = "av_htlcs (view B d)" and ?xs = "map snd (filter (\<lambda>y. fst y = hl) (hash_rows d p))"
  have mem: "x \<in> set ?xs \<longleftrightarrow> (\<exists>r. ?m x = Some r \<and> hash_lock (params r) = hl)" for x
    using group_rows [OF assms(1), of _ x only, folded p] assms(3) by force
  have some: "\<forall>x\<in>set ?xs. ?m x \<noteq> None" unfolding Ball_def mem by blast
  have keys: "map own_key (group_members B d p hl) = map outpoint_key ?xs"
    unfolding group_members_def by (rule map_filter_keys [OF assms(1) some])
  have "r \<in> set (group_members B d p hl) \<longleftrightarrow> (\<exists>x. ?m x = Some r \<and> hash_lock (params r) = hl)" for r
    unfolding group_members_def map_filter_total [OF some] Bex_def mem by auto
  then show set: "set (group_members B d p hl) = locked_under (view B d) hl"
    unfolding locked_under_def using db_ok_htlc_at [OF assms(1)] by blast
  show sorted: "sorted_wrt (<) (map own_key (group_members B d p hl))"
    unfolding keys by (rule hash_rows_order(2) [OF assms(1)])
  show len: "length (group_members B d p hl) = length (filter (\<lambda>y. fst y = hl) (hash_rows d p))"
    using arg_cong [OF keys, of length] by simp
  have "distinct (group_members B d p hl)"
    using sorted by (simp add: strict_sorted_iff distinct_map)
  then show "card (locked_under (view B d) hl) = length (filter (\<lambda>y. fst y = hl) (hash_rows d p))"
    using distinct_card [of "group_members B d p hl"] set len by simp
qed

text \<open>The entries a query scans, the key of each read as its outpoint, and their runs of one hashlock.\<close>

definition hash_keys :: "'b db \<Rightarrow> u8 list \<Rightarrow> (32 bytes \<times> u8 list) list" where
  "hash_keys d p = map (\<lambda>(l, x). (l, outpoint_key x)) (hash_rows d p)"

lemma hash_keys_runs:
  assumes "db_ok B d"
  shows "sorted_wrt (<) (map fst (runs (hash_keys d p)))"
    and "set (map fst (runs (hash_keys d p))) = set (map fst (hash_rows d p))"
    and "g \<in> set (runs (hash_keys d p)) \<Longrightarrow>
      snd g = map outpoint_key (map snd (filter (\<lambda>y. fst y = fst g) (hash_rows d p)))"
proof -
  have fst_ks: "map fst (hash_keys d p) = map fst (hash_rows d p)"
    by (simp add: hash_keys_def case_prod_beta)
  have "sorted (map fst (hash_keys d p))"
    unfolding fst_ks by (rule hash_rows_order(1) [OF assms])
  note R = runs_sorted [OF this]
  show "sorted_wrt (<) (map fst (runs (hash_keys d p)))" using R by simp
  show "set (map fst (runs (hash_keys d p))) = set (map fst (hash_rows d p))"
    unfolding fst_ks [symmetric] using R by simp
  show "snd g = map outpoint_key (map snd (filter (\<lambda>y. fst y = fst g) (hash_rows d p)))"
    if "g \<in> set (runs (hash_keys d p))"
    using R that by (simp add: hash_keys_def filter_map comp_def case_prod_beta)
qed

lemma run_asked:
  assumes "db_ok B d" and p: "p = (case only of Some h \<Rightarrow> byte_list h | None \<Rightarrow> [])"
    and "g \<in> set (runs (hash_keys d p))"
  shows "case only of None \<Rightarrow> True | Some h \<Rightarrow> fst g = h"
proof -
  have "fst g \<in> set (map fst (hash_rows d p))"
    using assms(3) unfolding hash_keys_runs(2) [OF assms(1), symmetric] by simp
  then show ?thesis using group_rows [OF assms(1), of "fst g" _ only] by (auto simp: p)
qed

text \<open>The runs of two entries or more are those of the shared hashlocks.\<close>

lemma multi_runs:
  assumes "db_ok B d" and p: "p = (case only of Some h \<Rightarrow> byte_list h | None \<Rightarrow> [])"
  shows "map fst (filter multi (runs (hash_keys d p))) = sorted_list_of_set (shared_hashlocks (view B d) only)"
proof -
  let ?G = "filter multi (runs (hash_keys d p))"
  note R = hash_keys_runs [OF assms(1), where p = p]
  note card = group_members_props(4) [OF assms]
  have "l \<in> set (map fst ?G) \<longleftrightarrow> l \<in> shared_hashlocks (view B d) only" for l
  proof
    assume "l \<in> set (map fst ?G)"
    then obtain g where g: "g \<in> set (runs (hash_keys d p))" "multi g" "l = fst g" by auto
    then show "l \<in> shared_hashlocks (view B d) only"
      using R(3) [OF g(1)] run_asked [OF assms g(1)] card [of "fst g"] by (simp add: shared_hashlocks_def multi_def)
  next
    assume l: "l \<in> shared_hashlocks (view B d) only"
    then have two: "2 \<le> length (filter (\<lambda>y. fst y = l) (hash_rows d p))"
      using card [of l] by (simp add: shared_hashlocks_def)
    then obtain y where "y \<in> set (hash_rows d p)" "fst y = l"
      by (metis (mono_tags, lifting) filter_False list.size(3) not_numeral_le_zero)
    then have "l \<in> set (map fst (runs (hash_keys d p)))" unfolding R(2) by auto
    then obtain g where g: "g \<in> set (runs (hash_keys d p))" "fst g = l" by auto
    with R(3) [OF g(1)] two show "l \<in> set (map fst ?G)" by (force simp: multi_def)
  qed
  then have "set (map fst ?G) = shared_hashlocks (view B d) only" by (rule set_eqI)
  moreover have "sorted_wrt (<) (map fst ?G)"
    using R(1) by (simp add: sorted_wrt_map sorted_wrt_filter)
  ultimately show ?thesis
    by (metis sorted_list_of_set.idem_if_sorted_distinct strict_sorted_iff)
qed

lemma read_run:
  assumes "db_ok B d" "p = (case only of Some (h :: 32 bytes) \<Rightarrow> byte_list h | None \<Rightarrow> [])"
    and "g \<in> set (runs (hash_keys d p))" "multi g"
  shows "(case g of (hl, pks) \<Rightarrow> bind_res (read_htlcs B d pks) (\<lambda>htlcs.
      Inr (if length htlcs > 1 then [\<lparr>g_hash_lock = hl, g_htlcs = htlcs\<rparr>] else []))) =
    Inr [\<lparr>g_hash_lock = fst g, g_htlcs = group_members B d p (fst g)\<rparr>]"
proof -
  obtain hl pks where hp: "g = (hl, pks)" by force
  note run = hash_keys_runs(3) [OF assms(1,3)] and asked = run_asked [OF assms(1-3)]
  have "read_htlcs B d pks = Inr (group_members B d p hl)"
    using run by (simp only: hp fst_conv snd_conv read_htlcs_map [OF assms(1)] group_members_def)
  moreover have "length (group_members B d p hl) > 1"
    using assms(4) run group_members_props(3) [OF assms(1,2) asked] by (simp add: hp multi_def)
  ultimately show ?thesis by (simp add: hp)
qed

text \<open>C31: the atomic-swap groups are exact, for a positive limit: the groups returned are, in ascending
  order of hashlock, the first \<open>limit\<close> of the hashlocks under which at least two stored
  HTLCs are locked (restricted to the hashlock asked for), and each group lists all the HTLCs
  of its hashlock, each once, in the order of their outpoints.\<close>

theorem shared_hashlock_groups_exact:
  assumes "db_ok B d" "0 < limit"
  shows "\<exists>gs. find_shared_hashlock_groups B d only limit = Inr gs \<and>
    map g_hash_lock gs = take limit (sorted_list_of_set (shared_hashlocks (view B d) only)) \<and>
    list_all (\<lambda>g. set (g_htlcs g) = locked_under (view B d) (g_hash_lock g) \<and>
      sorted_wrt (<) (map own_key (g_htlcs g))) gs"
proof -
  define p where "p = (case only of Some h \<Rightarrow> byte_list h | None \<Rightarrow> [])"
  define G where "G = filter multi (runs (hash_keys d p))"
  have sub: "g \<in> set (runs (hash_keys d p)) \<and> multi g" if "g \<in> set (take limit G)" for g
    using that set_take_subset [of limit G] by (auto simp: G_def)
  let ?mk = "\<lambda>g. \<lparr>g_hash_lock = fst g, g_htlcs = group_members B d p (fst g)\<rparr>"
  have "map_res (\<lambda>(hl, pks). bind_res (read_htlcs B d pks) (\<lambda>htlcs.
      Inr (if length htlcs > 1 then [\<lparr>g_hash_lock = hl, g_htlcs = htlcs\<rparr>] else []))) (take limit G) =
    Inr (map (\<lambda>g. [?mk g]) (take limit G))"
    by (rule map_res_total) (use sub read_run [OF assms(1) p_def] in blast)
  moreover have "scan_groups limit (map (\<lambda>(k, _). (Bytes (take 32 k), drop 32 k))
      (t_range (HTLC_BY_HASHLOCK d) (prefix_lo 68 p) (prefix_hi 68 p))) None [] = take limit G"
    unfolding hash_scan(2) [OF assms(1)] scan_groups_eq [OF assms(2)] G_def hash_keys_def ..
  ultimately have "find_shared_hashlock_groups B d only limit = Inr (map ?mk (take limit G))"
    by (simp add: find_shared_hashlock_groups_def Let_def hashlock_entries_eq hash_scan(1) [OF assms(1)] flip: p_def)
  moreover have "list_all (\<lambda>g. set (g_htlcs g) = locked_under (view B d) (g_hash_lock g) \<and>
      sorted_wrt (<) (map own_key (g_htlcs g))) (map ?mk (take limit G))"
    using sub run_asked [OF assms(1) p_def] group_members_props(1,2) [OF assms(1) p_def] by (simp add: list_all_iff)
  moreover have "map fst G = sorted_list_of_set (shared_hashlocks (view B d) only)"
    unfolding G_def by (rule multi_runs [OF assms(1) p_def])
  ultimately show ?thesis
    by (intro exI [of _ "map ?mk (take limit G)"]) (simp add: comp_def flip: take_map)
qed


text \<open>A block that locks both legs of a swap under one hashlock.\<close>

definition other_leg :: HtlcRecord where
  "other_leg = sample_htlc\<lparr>lock_tx_id := filled 20, params := sample_params\<lparr>sender := filled 2, receiver := filled 1\<rparr>\<rparr>"

definition swap_block :: BlockApplyEvents where
  "swap_block = lock_block\<lparr>ev_locks := [\<lparr>lk_record = sample_htlc, lk_script = []\<rparr>, \<lparr>lk_record = other_leg, lk_script = []\<rparr>]\<rparr>"

theorem shared_hashlock_groups_exact_witness:
  "\<exists>d gs. apply_block_events sample_bincode swap_block open_all_tables = Inr d \<and>
     find_shared_hashlock_groups sample_bincode d None 10 = Inr gs \<and>
     map g_hash_lock gs = [filled 3] \<and> list_all (\<lambda>g. set (g_htlcs g) = {sample_htlc, other_leg}) gs"
proof -
  have "datums_consistent (ev_output_datums swap_block) (view sample_bincode open_all_tables)"
    using sample_chain_consistent(2) by (simp add: swap_block_def)
  then obtain d where d: "apply_block_events sample_bincode swap_block open_all_tables = Inr d" "db_ok sample_bincode d"
    "view sample_bincode d = spec_apply swap_block (view sample_bincode open_all_tables)"
    by (rule simE [OF apply_refines [OF sample_bincode_ok] db_ok_open_all_tables])
  have view: "av_htlcs (view sample_bincode d) = [(filled 4, 0) \<mapsto> sample_htlc, (filled 20, 0) \<mapsto> other_leg]"
    unfolding d(3) by (auto simp: spec_apply_eq locked_def written_def swap_block_def lock_block_def sample_htlc_def
        other_leg_def after_spends_def fun_eq_iff)
  have under: "locked_under (view sample_bincode d) hl = (if hl = filled 3 then {sample_htlc, other_leg} else {})" for hl
    unfolding locked_under_def view by (auto simp: sample_htlc_def other_leg_def sample_params_def)
  have "sample_htlc \<noteq> other_leg"
    by (simp add: sample_htlc_def other_leg_def)
  then have "shared_hashlocks (view sample_bincode d) None = {filled 3}"
    unfolding shared_hashlocks_def under by auto
  with shared_hashlock_groups_exact [OF d(2), of 10 None] obtain gs where
    gs: "find_shared_hashlock_groups sample_bincode d None 10 = Inr gs" "map g_hash_lock gs = [filled 3]"
    "list_all (\<lambda>g. set (g_htlcs g) = locked_under (view sample_bincode d) (g_hash_lock g) \<and>
      sorted_wrt (<) (map own_key (g_htlcs g))) gs" by auto
  then have "list_all (\<lambda>g. set (g_htlcs g) = {sample_htlc, other_leg}) gs"
    unfolding under by (auto simp: list_all_iff)
  with d(1) gs(1,2) show ?thesis by (intro exI conjI)
qed

end
