(* ===== verification/DatumQueries.thy ===== *)
theory DatumQueries
  imports Sample
begin

section \<open>Settlement-datum and spent-by reads (\<^verbatim>\<open>src/db/mod.rs\<close>, lines 249-254, 1012-1103)\<close>

text \<open>
  The forward read of an outpoint's settlement datum, the reverse read by quote id, which
  parses outpoints back out of index keys, and the spent-by cache. The reverse read agrees
  with the forward read on every outpoint.
\<close>

record DatumOutpoint =
  do_tx_id :: "32 bytes"
  do_output_index :: u32

definition cached_spent_by :: "'b bincode \<Rightarrow> 'b db \<Rightarrow> 32 bytes \<Rightarrow> u32 \<Rightarrow> SpentByCacheEntry option res" where
  "cached_spent_by B d prev_tx i = get_rec (cd_spent B) ''decode spent_by'' (SPENT_BY d) (spent_by_key prev_tx i)"

definition get_output_datum :: "'b bincode \<Rightarrow> 'b db \<Rightarrow> 32 bytes \<Rightarrow> u32 \<Rightarrow> OutputDatumRecord option res" where
  "get_output_datum B d tx_id i = get_rec (cd_datum B) ''decode output_datum'' (OUTPUT_DATUM d) (output_datum_key tx_id i)"

definition find_settlements_by_quote_id :: "'b db \<Rightarrow> 16 bytes \<Rightarrow> DatumOutpoint list res" where
  "find_settlements_by_quote_id d quote_id =
     collect_res (\<lambda>(k, _).
         if length k \<noteq> 52 then Inr None
         else
           bind_res (bind_res (slice_range 16 48 k) copy_from_slice) (\<lambda>tx_id.
           bind_res (bind_res (slice_from 48 k) u32_from_be_slice) (\<lambda>output_index.
             Inr (Some \<lparr>do_tx_id = tx_id, do_output_index = output_index\<rparr>))))
       (t_range (DATUM_BY_QUOTEID d) (prefix_lo 52 (byte_list quote_id)) (prefix_hi 52 (byte_list quote_id)))"

lemma get_output_datum_view: "db_ok B d \<Longrightarrow> get_output_datum B d t i = Inr (av_datums (view B d) (t, i))"
  using stored_get_rec [of "cd_datum B" outpoint_key "OUTPUT_DATUM d" _ "(t, i)"]
  by (simp add: get_output_datum_def output_datum_key_def view_simps datums_ok_def)

lemma cached_spent_by_view: "db_ok B d \<Longrightarrow> cached_spent_by B d t i = Inr (av_spent (view B d) (t, i))"
  using stored_get_rec [of "cd_spent B" outpoint_key "SPENT_BY d" _ "(t, i)"]
  by (simp add: cached_spent_by_def spent_by_key_def view_simps spent_ok_def)

lemma quote_key_parts [simp]:
  "Bytes (subslice 16 48 (datum_by_quoteid_key q t i)) = t"
  "from_be32 (drop 48 (datum_by_quoteid_key q t i)) = i"
  "take 16 (datum_by_quoteid_key q t i) = byte_list q"
  by (simp_all add: key_defs subslice_def)

lemma quote_index:
  assumes "db_ok B d"
  shows "t_get (DATUM_BY_QUOTEID d) k \<noteq> None \<longleftrightarrow>
    (\<exists>q t i r. k = datum_by_quoteid_key q t i \<and> av_datums (view B d) (t, i) = Some r \<and> dr_quote_id r = Some q)"
proof -
  have "indexed quote_idx (DATUM_BY_QUOTEID d) (av_datums (view B d))"
    using assms by (simp add: view_simps datums_ok_def)
  from indexedD [OF this, of k]
  have "t_get (DATUM_BY_QUOTEID d) k = Some () \<longleftrightarrow> (\<exists>x r. av_datums (view B d) x = Some r \<and> quote_idx x r = Some k)" .
  then show ?thesis by auto
qed

lemma find_settlements_total: "\<exists>outs. find_settlements_by_quote_id d q = Inr outs"
  unfolding find_settlements_by_quote_id_def
  by (rule exI, rule collect_res_total [where g = "\<lambda>(k, _). if length k = 52
      then Some \<lparr>do_tx_id = Bytes (subslice 16 48 k), do_output_index = from_be32 (drop 48 k)\<rparr> else None"])
    (simp split: prod.split)

text \<open>The reverse index is exact: the outpoints returned for a quote id are, each once and in
  ascending order, exactly those whose forward datum is indexed with that very quote id; a
  bare datum hash or a datum of another length is never among them.\<close>

theorem find_settlements_exact:
  assumes "db_ok B d"
  shows "\<exists>outs. find_settlements_by_quote_id d q = Inr outs \<and>
    set outs = {x. \<exists>r. get_output_datum B d (do_tx_id x) (do_output_index x) = Inr (Some r) \<and> dr_quote_id r = Some q} \<and>
    sorted_wrt (<) (map (\<lambda>x. htlc_primary_key (do_tx_id x) (do_output_index x)) outs)"
proof -
  let ?R = "t_range (DATUM_BY_QUOTEID d) (prefix_lo 52 (byte_list q)) (prefix_hi 52 (byte_list q))"
  let ?f = "\<lambda>k. \<lparr>do_tx_id = Bytes (subslice 16 48 k), do_output_index = from_be32 (drop 48 k)\<rparr>"
  have mem: "k \<in> set (map fst ?R) \<longleftrightarrow>
      (\<exists>t i r. k = datum_by_quoteid_key q t i \<and> av_datums (view B d) (t, i) = Some r \<and> dr_quote_id r = Some q)" for k
    unfolding redb.in_range_keys quote_index [OF assms]
    using prefix_bounds_iff [of k 52 "byte_list q"] by auto
  have key: "\<exists>t i. k = datum_by_quoteid_key q t i" if "(k, v) \<in> set ?R" for k v
    using mem [of k] that by force
  let ?outs = "map ?f (map fst ?R)"
  have "find_settlements_by_quote_id d q = Inr (List.map_filter (\<lambda>(k, _). Some (?f k)) ?R)"
    unfolding find_settlements_by_quote_id_def
    by (rule collect_res_total) (use key in fastforce)
  moreover have "List.map_filter (\<lambda>(k, _). Some (?f k)) xs = map ?f (map fst xs)" for xs :: "(u8 list \<times> unit) list"
    by (induction xs) auto
  ultimately have "find_settlements_by_quote_id d q = Inr ?outs" by simp
  moreover have "set ?outs = {x. \<exists>r. get_output_datum B d (do_tx_id x) (do_output_index x) = Inr (Some r) \<and> dr_quote_id r = Some q}"
  proof (intro set_eqI iffI)
    fix x :: DatumOutpoint assume "x \<in> set ?outs"
    then obtain k where "k \<in> set (map fst ?R)" "x = ?f k" unfolding set_map [of ?f] by blast
    then show "x \<in> {x. \<exists>r. get_output_datum B d (do_tx_id x) (do_output_index x) = Inr (Some r) \<and> dr_quote_id r = Some q}"
      unfolding mem by (auto simp: get_output_datum_view [OF assms])
  next
    fix x :: DatumOutpoint
    assume "x \<in> {x. \<exists>r. get_output_datum B d (do_tx_id x) (do_output_index x) = Inr (Some r) \<and> dr_quote_id r = Some q}"
    then have "datum_by_quoteid_key q (do_tx_id x) (do_output_index x) \<in> set (map fst ?R)"
      unfolding mem by (auto simp: get_output_datum_view [OF assms])
    moreover have "x = ?f (datum_by_quoteid_key q (do_tx_id x) (do_output_index x))" by simp
    ultimately show "x \<in> set ?outs" unfolding set_map [of ?f] by (rule rev_image_eqI)
  qed
  moreover have "map (\<lambda>x. byte_list q @ htlc_primary_key (do_tx_id x) (do_output_index x)) ?outs = map fst ?R"
    unfolding map_map [where xs = "map fst ?R"]
  proof (rule map_idI)
    fix k assume "k \<in> set (map fst ?R)"
    then obtain t i where "k = datum_by_quoteid_key q t i" unfolding mem by blast
    then show "((\<lambda>x. byte_list q @ htlc_primary_key (do_tx_id x) (do_output_index x)) \<circ> ?f) k = k"
      by (simp only: comp_apply DatumOutpoint.simps quote_key_parts)
        (simp add: datum_by_quoteid_key_def htlc_primary_key_def)
  qed
  then have "sorted_wrt (<) (map (\<lambda>x. byte_list q @ htlc_primary_key (do_tx_id x) (do_output_index x)) ?outs)"
    using redb.range_sorted by metis
  then have "sorted_wrt (<) (map (\<lambda>x. htlc_primary_key (do_tx_id x) (do_output_index x)) ?outs)"
    unfolding sorted_wrt_map by (simp add: append_less_iff)
  ultimately show ?thesis by (intro exI conjI)
qed

theorem find_settlements_exact_witness:
  "\<exists>d outs. apply_block_events sample_bincode lock_block open_all_tables = Inr d \<and>
     find_settlements_by_quote_id d (filled 9) = Inr outs \<and> set outs = {\<lparr>do_tx_id = filled 4, do_output_index = 1\<rparr>}"
proof -
  obtain d where d: "apply_block_events sample_bincode lock_block open_all_tables = Inr d" "db_ok sample_bincode d"
    "view sample_bincode d = spec_apply lock_block (view sample_bincode open_all_tables)"
    by (rule sample_db)
  have view: "av_datums (view sample_bincode d) =
      [(filled 4, 1) \<mapsto> \<lparr>dr_quote_id = Some (filled 9), dr_unhonorable = False, dr_block_height = 5\<rparr>]"
    unfolding d(3) by (auto simp: spec_apply_eq written_def lock_block_def sample_datum_def datum_value_of_def)
  from find_settlements_exact [OF d(2), of "filled 9"] obtain outs where
    outs: "find_settlements_by_quote_id d (filled 9) = Inr outs"
    "set outs = {x. \<exists>r. get_output_datum sample_bincode d (do_tx_id x) (do_output_index x) = Inr (Some r) \<and>
       dr_quote_id r = Some (filled 9)}" by blast
  have "set outs = {\<lparr>do_tx_id = filled 4, do_output_index = 1\<rparr>}"
    unfolding outs(2) get_output_datum_view [OF d(2)] view by auto
  with d(1) outs(1) show ?thesis by (intro exI conjI)
qed

end
