(* ===== verification/HistoryQueries.thy ===== *)
theory HistoryQueries
  imports SettlementQueries
begin

section \<open>Address history (\<^verbatim>\<open>src/db/mod.rs\<close>, lines 163-175, 930-1010)\<close>

text \<open>
  The paged activity of an address, oldest or newest first. The rows of one transaction (one
  for what it spent from the address, one for what it paid to it) share a cursor position,
  so the pages are complete only where the positions are distinct; where they are not, the
  second row of a transaction that straddles a page boundary is never returned.
\<close>

subsection \<open>Operations\<close>

record AddressHistoryRow =
  h_block_height :: u64
  h_tx_id :: "32 bytes"
  h_amount :: u64
  h_is_input :: bool
  h_is_coinbase :: bool
  h_counterparties :: "32 bytes list"

definition history_rows ::
  "'b bincode \<Rightarrow> 'b db \<Rightarrow> 32 bytes \<Rightarrow> u64 option \<Rightarrow> AddressHistoryRow list res" where
  "history_rows B d address since_height =
     collect_res (\<lambda>(k, v).
         if length k \<noteq> 73 then Inr None
         else bind_res (bind_res (slice_range 32 40 k) u64_from_be_slice) (\<lambda>height.
           if (case since_height of Some least \<Rightarrow> height < least | None \<Rightarrow> False) then Inr None
           else
             bind_res (bind_res (slice_range 40 72 k) copy_from_slice) (\<lambda>tx_id.
             bind_res (byte_at 72 k) (\<lambda>dir_byte.
             bind_res (ok_or (de (cd_activity B) v) (Storage ''decode activity'')) (\<lambda>val.
               Inr (Some \<lparr>h_block_height = height, h_tx_id = tx_id, h_amount = v_amount val,
                          h_is_input = (dir_byte = DIR_INPUT_FROM), h_is_coinbase = v_is_coinbase val,
                          h_counterparties = v_counterparties val\<rparr>))))))
       (t_range (TX_BY_ADDRESS d) (prefix_lo 73 (byte_list address)) (prefix_hi 73 (byte_list address)))"

definition history_order :: "AddressHistoryRow \<Rightarrow> u64 \<times> 32 bytes" where
  "history_order r = (h_block_height r, h_tx_id r)"

definition list_address_history ::
  "'b bincode \<Rightarrow> 'b db \<Rightarrow> 32 bytes \<Rightarrow> u64 option \<Rightarrow> nat \<Rightarrow> SettlementCursor option \<Rightarrow> bool \<Rightarrow>
   (AddressHistoryRow list \<times> SettlementCursor option) res" where
  "list_address_history B d address since_height limit cursor reverse =
     bind_res (history_rows B d address since_height) (\<lambda>rows.
     bind_res ((if reverse then page_desc else page_asc) history_order limit
         (map_option settlement_cursor_order cursor) rows) (\<lambda>(rows, next).
       Inr (rows, map_option settlement_cursor_of next)))"


subsection \<open>The rows are those stored\<close>

text \<open>The row of an activity entry, and the entries of an address not older than asked for.\<close>

definition row_at :: "u64 \<times> 32 bytes \<times> u8 \<Rightarrow> ActivityValue \<Rightarrow> AddressHistoryRow" where
  "row_at = (\<lambda>(h, t, dir) val. \<lparr>h_block_height = h, h_tx_id = t, h_amount = v_amount val,
     h_is_input = (dir = DIR_INPUT_FROM), h_is_coinbase = v_is_coinbase val, h_counterparties = v_counterparties val\<rparr>)"

definition history_of :: "StoreView \<Rightarrow> 32 bytes \<Rightarrow> u64 option \<Rightarrow> AddressHistoryRow set" where
  "history_of A address since_height =
     {row_at (h, t, dir) val | h t dir val. av_activity A (address, h, t, dir) = Some val \<and>
       (case since_height of Some least \<Rightarrow> least \<le> h | None \<Rightarrow> True)}"

lemma history_ofI:
  "av_activity A (address, h, t, dir) = Some val \<Longrightarrow> (case since of Some least \<Rightarrow> least \<le> h | None \<Rightarrow> True) \<Longrightarrow>
     row_at (h, t, dir) val \<in> history_of A address since"
  unfolding history_of_def by blast

lemma history_ofE:
  assumes "r \<in> history_of A address since"
  obtains h t dir val where "r = row_at (h, t, dir) val" "av_activity A (address, h, t, dir) = Some val"
  using assms unfolding history_of_def by blast

text \<open>No transaction has two rows for the address.\<close>

definition one_row_per_tx :: "StoreView \<Rightarrow> 32 bytes \<Rightarrow> bool" where
  "one_row_per_tx A address \<longleftrightarrow>
     (\<forall>h t dir dir'. av_activity A (address, h, t, dir) \<noteq> None \<longrightarrow> av_activity A (address, h, t, dir') \<noteq> None \<longrightarrow> dir = dir')"

lemma activity_key_parts [simp]:
  "Bytes (subslice 40 72 (tx_by_address_key a h t dir)) = t"
  "tx_by_address_key a h t dir ! 72 = dir"
  "take 32 (tx_by_address_key a h t dir) = byte_list a"
  by (simp_all add: key_defs subslice_def nth_append)

lemma db_ok_activity: "db_ok B d \<Longrightarrow> stored (cd_activity B) activity_row_key (TX_BY_ADDRESS d)"
  by (simp add: view_simps)

lemma row_at_order [simp]: "history_order (row_at (h, t, dir) v) = (h, t)"
  by (simp add: history_order_def row_at_def)

text \<open>The rows of the address's key range, decoded.\<close>

lemma history_range:
  assumes "db_ok B d"
    and "(k, b) \<in> set (t_range (TX_BY_ADDRESS d) (prefix_lo 73 (byte_list address)) (prefix_hi 73 (byte_list address)))"
  obtains h t dir v where "k = tx_by_address_key address h t dir" "de (cd_activity B) b = Some v"
    "av_activity (view B d) (address, h, t, dir) = Some v"
proof -
  have st: "stored (cd_activity B) activity_row_key (TX_BY_ADDRESS d)" by (rule db_ok_activity [OF assms(1)])
  then have keyed: "keyed activity_row_key (TX_BY_ADDRESS d)" by (simp add: stored_def)
  have get: "t_get (TX_BY_ADDRESS d) k = Some b" using assms(2) by (simp add: redb.range_iff)
  then have "(k, b) \<in> set (t_iter (TX_BY_ADDRESS d))" by (simp add: redb.iter_iff)
  from stored_iterE [OF st this] obtain x v where
    x: "k = activity_row_key x" "rows (cd_activity B) activity_row_key (TX_BY_ADDRESS d) x = Some v"
    "de (cd_activity B) b = Some v" by blast
  obtain a h t dir where x': "x = (a, h, t, dir)" by (cases x)
  have "a = address"
    using activity_key.prefix_range_iff [OF keyed, of "(a, h, t, dir)" b address] assms(2) by (simp add: x(1) x')
  with x x' that [of h t dir v] show ?thesis by (simp add: view_def)
qed

lemma history_rows_set:
  assumes "db_ok B d"
  obtains rs where "history_rows B d address since = Inr rs" "set rs = history_of (view B d) address since"
    "one_row_per_tx (view B d) address \<Longrightarrow> distinct (map history_order rs)"
proof -
  let ?R = "t_range (TX_BY_ADDRESS d) (prefix_lo 73 (byte_list address)) (prefix_hi 73 (byte_list address))"
  let ?late = "\<lambda>h. case since of Some least \<Rightarrow> least \<le> h | None \<Rightarrow> True"
  let ?m = "av_activity (view B d)"
  define pick where "pick = (\<lambda>(k :: u8 list, b). if ?late (from_be64 (subslice 32 40 k))
      then map_option (row_at (from_be64 (subslice 32 40 k), Bytes (subslice 40 72 k), k ! 72)) (de (cd_activity B) b) else None)"
  let ?rs = "List.map_filter pick ?R"
  have keyed: "keyed activity_row_key (TX_BY_ADDRESS d)"
    using db_ok_activity [OF assms] by (simp add: stored_def)
  have at_key: "pick (tx_by_address_key address h t dir, b) = (if ?late h then Some (row_at (h, t, dir) v) else None)"
    if "de (cd_activity B) b = Some v" for h t dir b v
    using that by (cases since) (simp_all add: pick_def key_simps)
  have "history_rows B d address since = Inr ?rs"
    unfolding history_rows_def
  proof (rule collect_res_total)
    fix kb assume kb: "kb \<in> set ?R"
    obtain k b where kb': "kb = (k, b)" by force
    obtain h t dir v where r: "k = tx_by_address_key address h t dir" "de (cd_activity B) b = Some v"
      by (rule history_range [OF assms kb [unfolded kb']])
    show "(case kb of (k, v) \<Rightarrow> if length k \<noteq> 73 then Inr None
         else bind_res (bind_res (slice_range 32 40 k) u64_from_be_slice) (\<lambda>height.
           if (case since of Some least \<Rightarrow> height < least | None \<Rightarrow> False) then Inr None
           else
             bind_res (bind_res (slice_range 40 72 k) copy_from_slice) (\<lambda>tx_id.
             bind_res (byte_at 72 k) (\<lambda>dir_byte.
             bind_res (ok_or (de (cd_activity B) v) (Storage ''decode activity'')) (\<lambda>val.
               Inr (Some \<lparr>h_block_height = height, h_tx_id = tx_id, h_amount = v_amount val,
                          h_is_input = (dir_byte = DIR_INPUT_FROM), h_is_coinbase = v_is_coinbase val,
                          h_counterparties = v_counterparties val\<rparr>)))))) = Inr (pick kb)"
      unfolding kb' prod.case by (cases since) (simp_all add: r at_key key_simps row_at_def Let_def not_less)
  qed
  moreover have "set ?rs = history_of (view B d) address since"
  proof (intro set_eqI iffI)
    fix y assume "y \<in> set ?rs"
    then obtain k b where kb: "(k, b) \<in> set ?R" "pick (k, b) = Some y" by (auto simp: in_map_filter_iff)
    obtain h t dir v where r: "k = tx_by_address_key address h t dir" "de (cd_activity B) b = Some v" "?m (address, h, t, dir) = Some v"
      by (rule history_range [OF assms kb(1)])
    from kb(2) have "?late h" "y = row_at (h, t, dir) v" by (simp_all add: r(1) at_key [OF r(2)] split: if_splits)
    with r(3) show "y \<in> history_of (view B d) address since" unfolding history_of_def by blast
  next
    fix y assume "y \<in> history_of (view B d) address since"
    then obtain h t dir v where y: "y = row_at (h, t, dir) v" "?m (address, h, t, dir) = Some v" "?late h"
      unfolding history_of_def by blast
    from y(2) have "rows (cd_activity B) activity_row_key (TX_BY_ADDRESS d) (address, h, t, dir) = Some v"
      by (simp add: view_def)
    from stored_rowE [OF this] obtain b where
      b: "(tx_by_address_key address h t dir, b) \<in> set (t_iter (TX_BY_ADDRESS d))" "de (cd_activity B) b = Some v"
      by auto
    then have "(tx_by_address_key address h t dir, b) \<in> set ?R"
      using activity_key.prefix_range_iff [OF keyed, of "(address, h, t, dir)" b address] by (simp add: redb.iter_iff)
    moreover have "pick (tx_by_address_key address h t dir, b) = Some y"
      by (simp add: at_key [OF b(2)] y)
    ultimately show "y \<in> set ?rs" unfolding in_map_filter_iff by blast
  qed
  moreover have "distinct (map history_order ?rs)" if one: "one_row_per_tx (view B d) address"
  proof -
    define dir_of where "dir_of = (\<lambda>(h, t). THE dir. ?m (address, h, t, dir) \<noteq> None)"
    define whole where "whole = (\<lambda>(h, t). tx_by_address_key address h t (dir_of (h, t)))"
    have "distinct (map fst ?R)"
      using redb.range_sorted [of "TX_BY_ADDRESS d"] by (simp add: strict_sorted_iff)
    then have "distinct (map (\<lambda>y. whole (history_order y)) ?rs)"
    proof (rule distinct_map_filter, intro ballI allI impI)
      fix kb y assume kb: "kb \<in> set ?R" "pick kb = Some y"
      obtain k b where kb': "kb = (k, b)" by force
      obtain h t dir v where r: "k = tx_by_address_key address h t dir" "de (cd_activity B) b = Some v" "?m (address, h, t, dir) = Some v"
        by (rule history_range [OF assms kb(1) [unfolded kb']])
      have "dir_of (h, t) = dir"
        unfolding dir_of_def prod.case using one r(3) unfolding one_row_per_tx_def by (intro the_equality) auto
      moreover have "history_order y = (h, t)"
        using kb(2) by (auto simp: kb' r(1) at_key [OF r(2)] split: if_splits)
      ultimately show "whole (history_order y) = fst kb" by (simp add: whole_def kb' r(1))
    qed
    then have "distinct (map whole (map history_order ?rs))" by (simp add: comp_def)
    then show ?thesis using distinct_map by blast
  qed
  ultimately show ?thesis using that by blast
qed

subsection \<open>Paging through the history\<close>

lemma walk_list_address_history:
  assumes "history_rows B d address since = Inr rs"
  shows "walk_pages (\<lambda>c. list_address_history B d address since limit c reverse) n c =
    walk_pages (\<lambda>c. (if reverse then page_desc else page_asc) history_order limit c rs) n
      (map_option settlement_cursor_order c)"
proof (induction n arbitrary: c)
  case (Suc n)
  then show ?case
    by (cases reverse) (auto simp: list_address_history_def assms bind_res_def split: sum.splits option.splits)
qed simp

text \<open>C35: the history is complete when no transaction has two rows for the address: for any positive page
  size, following the cursors gives every stored activity row of the address that is not
  older than asked for, each once, in ascending order of (height, transaction id), or in
  descending order when \<open>reverse\<close> is set.\<close>

theorem address_history_pages_complete:
  assumes "db_ok B d" "0 < limit" "one_row_per_tx (view B d) address"
    and "card (history_of (view B d) address since) < n"
  shows "\<exists>all. walk_pages (\<lambda>c. list_address_history B d address since limit c reverse) n None = Inr all \<and>
    sorted_wrt (if reverse then (>) else (<)) (map history_order all) \<and>
    set all = history_of (view B d) address since"
proof -
  obtain rs where rs: "history_rows B d address since = Inr rs" "set rs = history_of (view B d) address since"
    "distinct (map history_order rs)"
    by (rule history_rows_set [OF assms(1), where address = address and since = since]) (use assms(3) in blast)
  have "length rs < n"
    using assms(4) distinct_card [of rs] rs(3) by (simp add: distinct_map rs(2))
  then show ?thesis
    using walk_page_asc [OF rs(3) assms(2)] walk_page_desc [OF rs(3) assms(2)]
      strict_sort_key [OF rs(3)] strict_sort_desc [OF rs(3)]
    by (cases reverse) (simp_all add: walk_list_address_history [OF rs(1)] rs(2) sort_desc_props(1))
qed

text \<open>A block in which address 6 spends an output and keeps the change: two rows of one transaction.\<close>

definition change_block :: BlockApplyEvents where
  "change_block = lock_block\<lparr>ev_activity := [sample_activity, sample_activity\<lparr>a_is_input := True, a_amount := 90\<rparr>]\<rparr>"

lemma change_db:
  obtains d where "apply_block_events sample_bincode change_block open_all_tables = Inr d" "db_ok sample_bincode d"
    "av_activity (view sample_bincode d) =
      [(filled 6, 5, filled 4, 1) \<mapsto> \<lparr>v_amount = 70, v_is_coinbase = False, v_counterparties = [filled 1]\<rparr>,
       (filled 6, 5, filled 4, 2) \<mapsto> \<lparr>v_amount = 90, v_is_coinbase = False, v_counterparties = [filled 1]\<rparr>]"
proof -
  have ok: "datums_consistent (ev_output_datums change_block) (view sample_bincode open_all_tables)"
    using sample_chain_consistent(2) by (simp add: change_block_def)
  obtain d where d: "apply_block_events sample_bincode change_block open_all_tables = Inr d" "db_ok sample_bincode d"
    "view sample_bincode d = spec_apply change_block (view sample_bincode open_all_tables)"
    by (rule simE [OF apply_refines [OF sample_bincode_ok, of change_block] db_ok_open_all_tables ok])
  show ?thesis
    by (rule that [OF d(1,2)], unfold d(3) spec_apply_fields)
       (simp add: change_block_def written_def activity_key_of_def activity_value_of_def sample_defs
         DIR_OUTPUT_TO_def DIR_INPUT_FROM_def fun_eq_iff)
qed

text \<open>C36: the history cursor names a transaction, not a row: the cursor that comes back with a page is the
  position of the page's last row, and no later page holds another row of that transaction.
  So where a page ends between the two rows of a transaction (what it spent from the address
  and the change it paid back), the second row is never returned.\<close>

theorem history_boundary_loss:
  assumes "list_address_history B d address since limit cursor reverse = Inr (page, Some c)"
    and "walk_pages (\<lambda>c. list_address_history B d address since limit c reverse) n (Some c) = Inr rest"
  shows "settlement_cursor_order c = history_order (last page) \<and>
    list_all (\<lambda>r. history_order r \<noteq> history_order (last page)) rest"
proof -
  let ?q = "\<lambda>c rs. (if reverse then page_desc else page_asc) history_order limit c rs"
  obtain rs where rs: "history_rows B d address since = Inr rs"
    using assms(1) by (auto simp: list_address_history_def bind_res_def split: sum.splits)
  then obtain k where k: "?q (map_option settlement_cursor_order cursor) rs = Inr (page, Some k)" "c = settlement_cursor_of k"
    using assms(1) by (auto simp: list_address_history_def bind_res_def split: sum.splits)
  have last: "k = history_order (last page)"
    using k(1) page_next [of history_order limit _ rs page k] by (cases reverse) auto
  have "walk_pages (\<lambda>c. ?q c rs) n (Some k) = Inr rest"
    using assms(2) by (simp add: walk_list_address_history [OF rs] k(2))
  then have walk: "walk_pages (\<lambda>c. ?q c rs) n (Some k) = Inr rest" .
  have "list_all (\<lambda>r. history_order r \<noteq> k) rest"
  proof (cases reverse)
    case True
    have "list_all (\<lambda>r. history_order r < k) rest"
      by (rule walk_beyond [where beyond = "(>)", OF less_trans page_desc_beyond])
         (use walk True in \<open>simp_all only: if_True\<close>)
    then show ?thesis by (auto simp: list_all_iff)
  next
    case False
    have "list_all (\<lambda>r. k < history_order r) rest"
      by (rule walk_beyond [where beyond = "(<)", OF less_trans page_asc_beyond])
         (use walk False in \<open>simp_all only: if_False\<close>)
    then show ?thesis by (auto simp: list_all_iff)
  qed
  with last k(2) show ?thesis by simp
qed

text \<open>Two rows of one transaction, pages of one row: one row comes back, and the walk ends.\<close>

theorem history_boundary_loss_witness:
  "\<exists>d page c. apply_block_events sample_bincode change_block open_all_tables = Inr d \<and>
     card (history_of (view sample_bincode d) (filled 6) None) = 2 \<and>
     list_address_history sample_bincode d (filled 6) None 1 None False = Inr ([page], Some c) \<and>
     walk_pages (\<lambda>c. list_address_history sample_bincode d (filled 6) None 1 c False) 1 (Some c) = Inr [] \<and>
     settlement_cursor_order c = history_order page"
proof -
  obtain d where d: "apply_block_events sample_bincode change_block open_all_tables = Inr d" "db_ok sample_bincode d"
    "av_activity (view sample_bincode d) =
      [(filled 6, 5, filled 4, 1) \<mapsto> \<lparr>v_amount = 70, v_is_coinbase = False, v_counterparties = [filled 1]\<rparr>,
       (filled 6, 5, filled 4, 2) \<mapsto> \<lparr>v_amount = 90, v_is_coinbase = False, v_counterparties = [filled 1]\<rparr>]"
    by (rule change_db)
  let ?r = "\<lambda>dir a. row_at (5, filled 4, dir) \<lparr>v_amount = a, v_is_coinbase = False, v_counterparties = [filled 1]\<rparr>"
  have H: "history_of (view sample_bincode d) (filled 6) None = {?r 1 70, ?r 2 90}"
  proof (intro subset_antisym subsetI)
    fix r assume "r \<in> history_of (view sample_bincode d) (filled 6) None"
    then obtain h t dir v where r: "r = row_at (h, t, dir) v" "av_activity (view sample_bincode d) (filled 6, h, t, dir) = Some v"
      by (rule history_ofE)
    then show "r \<in> {?r 1 70, ?r 2 90}" by (auto simp: d(3) split: if_splits)
  next
    have "?r 1 70 \<in> history_of (view sample_bincode d) (filled 6) None" "?r 2 90 \<in> history_of (view sample_bincode d) (filled 6) None"
      by (rule history_ofI; simp add: d(3))+
    then show "r \<in> history_of (view sample_bincode d) (filled 6) None" if "r \<in> {?r 1 70, ?r 2 90}" for r
      using that by (elim insertE emptyE) (simp_all only:)
  qed
  have diff: "?r 1 70 \<noteq> ?r 2 90" by (simp add: row_at_def)
  obtain rs where rs: "history_rows sample_bincode d (filled 6) None = Inr rs" "set rs = {?r 1 70, ?r 2 90}"
    by (rule history_rows_set [OF d(2), where address = "filled 6" and since = None]) (use H in auto)
  let ?s = "sort_key history_order rs"
  have same: "history_order r = (5, filled 4)" if "r \<in> set ?s" for r
    using that rs(2) by auto
  have "card (set rs) = 2" using diff by (simp add: rs(2))
  then have long: "length ?s > 1" using card_length [of rs] by simp
  then have hd: "hd ?s \<in> set ?s" "take 1 ?s = [hd ?s]" "?s ! 0 = hd ?s"
    by (cases ?s; simp)+
  let ?c = "settlement_cursor_of (history_order (hd ?s))"
  have page: "list_address_history sample_bincode d (filled 6) None 1 None False = Inr ([hd ?s], Some ?c)"
    using long hd(2,3) by (simp add: list_address_history_def rs(1) page_asc_def cut_page_def Let_def)
  have "filter (\<lambda>r. history_order r > history_order (hd ?s)) ?s = []"
    using same hd(1) by (auto simp: filter_empty_conv)
  then have rest: "walk_pages (\<lambda>c. list_address_history sample_bincode d (filled 6) None 1 c False) 1 (Some ?c) = Inr []"
    by (simp add: list_address_history_def rs(1) page_asc_def cut_page_def Let_def)
  have two: "card (history_of (view sample_bincode d) (filled 6) None) = 2"
    using diff by (simp add: H)
  have "settlement_cursor_order ?c = history_order (hd ?s)"
    using conjunct1 [OF history_boundary_loss [OF page rest]] by simp
  with d(1) two page rest show ?thesis by (intro exI conjI)
qed

theorem address_history_pages_complete_witness:
  "\<exists>d all. apply_block_events sample_bincode lock_block open_all_tables = Inr d \<and>
     walk_pages (\<lambda>c. list_address_history sample_bincode d (filled 6) None 1 c True) 2 None = Inr all \<and>
     map h_tx_id all = [filled 4]"
proof -
  obtain d where d: "apply_block_events sample_bincode lock_block open_all_tables = Inr d" "db_ok sample_bincode d"
    "view sample_bincode d = spec_apply lock_block (view sample_bincode open_all_tables)"
    by (rule sample_db)
  let ?v = "\<lparr>v_amount = 70, v_is_coinbase = False, v_counterparties = [filled 1]\<rparr>"
  have act: "av_activity (view sample_bincode d) = [(filled 6, 5, filled 4, 1) \<mapsto> ?v]"
    unfolding d(3) spec_apply_fields
    by (simp add: written_def activity_key_of_def activity_value_of_def sample_defs DIR_OUTPUT_TO_def fun_eq_iff)
  have H: "history_of (view sample_bincode d) (filled 6) None = {row_at (5, filled 4, 1) ?v}"
    unfolding history_of_def act by (auto split: if_splits)
  have one: "one_row_per_tx (view sample_bincode d) (filled 6)"
    unfolding one_row_per_tx_def act by (auto split: if_splits)
  have small: "card (history_of (view sample_bincode d) (filled 6) None) < 2" by (simp add: H)
  from address_history_pages_complete [OF d(2) zero_less_one one small, of True] obtain all where
    all: "walk_pages (\<lambda>c. list_address_history sample_bincode d (filled 6) None 1 c True) 2 None = Inr all"
    "sorted_wrt (>) (map history_order all)" "set all = {row_at (5, filled 4, 1) ?v}"
    unfolding H by auto
  have "all = [row_at (5, filled 4, 1) ?v]"
  proof (cases all)
    case (Cons x xs)
    then have "x = row_at (5, filled 4, 1) ?v" "set xs \<subseteq> {x}" using all(3) by auto
    moreover have "y \<noteq> x" if "y \<in> set xs" for y using all(2) that by (auto simp: Cons)
    ultimately show ?thesis using Cons by (cases xs) auto
  qed (use all(3) in simp)
  then have "map h_tx_id all = [filled 4]" by (simp add: row_at_def)
  with d(1) all(1) show ?thesis by (intro exI conjI)
qed

end
