(* ===== verification/Api.thy ===== *)
theory Api
  imports Templates HtlcQueries SwapGroups DatumQueries HistoryQueries Migration
begin

section \<open>The JSON-RPC methods (\<^verbatim>\<open>src/api/mod.rs\<close>)\<close>

text \<open>
  One handler per method: its parameters are decoded, the store or the node is asked, the
  answer is shaped. JSON values are the type \<open>'j\<close>; the derived decoders of the
  parameter structs and the serialiser of the response structs are third-party and are the
  parameter \<open>S\<close>. A handler whose task on the blocking pool panics gives an internal
  error: a panic of the store never leaves a handler.
\<close>

subsection \<open>Requests and parameters\<close>

record 'j RpcRequest =
  rq_jsonrpc :: string
  rq_method :: string
  rq_params :: 'j
  rq_id :: "'j option"

record HtlcStatusParams =
  hs_lock_tx_id :: string
  hs_output_index :: u32

datatype HtlcStateFilter = One HtlcState | Many "HtlcState list"

record HtlcListParams =
  hl_role :: "HtlcRole option"
  hl_state :: "HtlcStateFilter option"
  hl_address :: "string option"
  hl_since_height :: "u64 option"
  hl_limit :: "u32 option"
  hl_cursor :: "string option"

record HtlcLookupParams =
  lu_hash_lock :: string

record ListSettlementsParams =
  ls_address :: string
  ls_contract_hash :: "string option"
  ls_since_height :: "u64 option"
  ls_limit :: "u32 option"
  ls_cursor :: "string option"

record ContractStatsParams =
  cp_address :: string
  cp_contract_hash :: "string option"

record AddressHistoryParams =
  ah_address :: string
  ah_since_height :: "u64 option"
  ah_limit :: "u32 option"
  ah_cursor :: "string option"
  ah_reverse :: bool

record GetOutputSpentByParams =
  gs_tx_id :: string
  gs_output_index :: u32

record GetOutputDatumParams =
  gd_tx_id :: string
  gd_output_index :: u32

record FindSettlementsParams =
  fq_quote_id :: string

record AttestationEdgesParams =
  ap_address :: string
  ap_contract_hash :: "string option"

record DetectSwapsParams =
  ds_hash_lock :: "string option"
  ds_limit :: "u32 option"

record GetContractTemplateParams =
  gt_contract_hash :: "string option"


subsection \<open>Responses\<close>

text \<open>\<open>lag\<close> is an i64, stored as its bits.\<close>

record IndexerStatus =
  is_last_indexed_height :: u64
  is_last_indexed_block_id :: string
  is_tip_height :: u64
  is_lag :: u64
  is_indexed_htlc_count :: u64
  is_full_scan_complete :: bool
  is_started_at :: u64

record HtlcListResponse =
  hr_htlcs :: "HtlcRecord list"
  hr_next_cursor :: "string option"

record ListSettlementsResponse =
  lr_settlements :: "SettlementRecord list"
  lr_next_cursor :: "string option"

record ContractStatsRow =
  sr_contract_hash :: string
  sr_total :: u64
  sr_succeeded :: u64
  sr_refunded :: u64
  sr_avg_settle_blocks :: u64
  sr_last_settled_at_height :: "u64 option"

record AddressHistoryRowJson =
  hj_block_height :: u64
  hj_tx_id :: string
  hj_amount :: u64
  hj_direction :: string
  hj_is_coinbase :: bool
  hj_counterparties :: "string list"

record AddressHistoryResponse =
  hy_history :: "AddressHistoryRowJson list"
  hy_next_cursor :: "string option"

record SettlementOutpointJson =
  so_tx_id :: string
  so_output_index :: u32

record AttestationEdgeJson =
  ej_counterparty :: string
  ej_contract_hash :: string
  ej_contract_name :: "string option"
  ej_total :: u64
  ej_succeeded :: u64
  ej_refunded :: u64
  ej_last_seen_height :: "u64 option"

record SwapGroupJson =
  sg_hash_lock :: string
  sg_htlcs :: "HtlcRecord list"

text \<open>
  The answers: those built as structs, whose conversion to JSON can fail, and those written
  with the \<^verbatim>\<open>json!\<close> macro, whose conversion cannot.
\<close>

datatype response =
    StatusResponse IndexerStatus
  | HtlcResponse HtlcRecord
  | HtlcListed HtlcListResponse
  | HtlcLookupResponse "HtlcRecord list"
  | SettlementsListed ListSettlementsResponse
  | ContractStatsResponse "ContractStatsRow list"
  | HistoryListed AddressHistoryResponse
  | FindSettlementsResponse "SettlementOutpointJson list"
  | AttestationEdgesResponse "AttestationEdgeJson list"
  | DetectSwapsResponse "SwapGroupJson list"

datatype json_literal =
    JPong
  | JSpentBy string u32 u64 string
  | JUnspent string
  | JDatum "string option" bool
  | JTemplates "ContractTemplate list"
  | JTemplate "ContractTemplate option"

record 'j serde =
  from_slice :: "u8 list \<Rightarrow> 'j option"
  as_array :: "'j \<Rightarrow> 'j list option"
  is_null :: "'j \<Rightarrow> bool"
  p_request :: "'j \<Rightarrow> 'j RpcRequest option"
  p_htlc_status :: "'j \<Rightarrow> HtlcStatusParams option"
  p_htlc_list :: "'j \<Rightarrow> HtlcListParams option"
  p_htlc_lookup :: "'j \<Rightarrow> HtlcLookupParams option"
  p_list_settlements :: "'j \<Rightarrow> ListSettlementsParams option"
  p_contract_stats :: "'j \<Rightarrow> ContractStatsParams option"
  p_address_history :: "'j \<Rightarrow> AddressHistoryParams option"
  p_spent_by :: "'j \<Rightarrow> GetOutputSpentByParams option"
  p_output_datum :: "'j \<Rightarrow> GetOutputDatumParams option"
  p_find_settlements :: "'j \<Rightarrow> FindSettlementsParams option"
  p_attestation_edges :: "'j \<Rightarrow> AttestationEdgesParams option"
  p_detect_swaps :: "'j \<Rightarrow> DetectSwapsParams option"
  p_contract_template :: "'j \<Rightarrow> GetContractTemplateParams option"
  response_value :: "response \<Rightarrow> 'j option"
  json_literal :: "json_literal \<Rightarrow> 'j"

definition from_value :: "('j \<Rightarrow> 'a option) \<Rightarrow> string \<Rightarrow> 'j \<Rightarrow> 'a res" where
  "from_value parse label v = ok_or (parse v) (BadParams label)"

definition to_value :: "'j serde \<Rightarrow> response \<Rightarrow> 'j res" where
  "to_value S r = ok_or (response_value S r) (Internal ''to_value'')"

text \<open>\<^verbatim>\<open>tokio::task::spawn_blocking(..).await.map_err(..)??\<close>.\<close>

definition blocking :: "'a res \<Rightarrow> 'a res" where
  "blocking r = (case r of Inl Panic \<Rightarrow> Inl (Fail (Internal ''blocking task panicked'')) | _ \<Rightarrow> r)"

record 'b ApiState =
  api_db :: "'b db"
  api_node :: node
  api_tip :: u64


subsection \<open>Helpers\<close>

definition api_decode_hex32 :: "hex \<Rightarrow> string \<Rightarrow> 32 bytes res" where
  "api_decode_hex32 H s =
     bind_res (ok_or (hex_decode H s) (BadHex ''hex'')) (\<lambda>b.
       if length b \<noteq> 32 then Inl (Fail (BadAddressLen (length b))) else copy_from_slice b)"

definition decode_hex16 :: "hex \<Rightarrow> string \<Rightarrow> 16 bytes res" where
  "decode_hex16 H s =
     bind_res (ok_or (hex_decode H s) (BadHex ''hex'')) (\<lambda>b.
       if length b \<noteq> 16 then Inl (Fail (BadParams
         (''quote_id: expected 16 bytes (32 hex chars), got '' @ decimal (length b) @ '' bytes''))) else copy_from_slice b)"

text \<open>An optional string argument, decoded when it is there.\<close>

definition decode_opt :: "(string \<Rightarrow> 'a res) \<Rightarrow> string option \<Rightarrow> 'a option res" where
  "decode_opt dec s = (case s of Some s \<Rightarrow> bind_res (dec s) (\<lambda>x. Inr (Some x)) | None \<Rightarrow> Inr None)"

definition HTLC_LIST_DEFAULT_LIMIT :: u32 where
  "HTLC_LIST_DEFAULT_LIMIT = 100"

definition HTLC_LIST_MAX_LIMIT :: u32 where
  "HTLC_LIST_MAX_LIMIT = 1000"

definition page_limit :: "u32 option \<Rightarrow> nat" where
  "page_limit l = unat (min (case l of Some x \<Rightarrow> x | None \<Rightarrow> HTLC_LIST_DEFAULT_LIMIT) HTLC_LIST_MAX_LIMIT)"


subsection \<open>The handlers\<close>

text \<open>
  The status takes two read transactions, one for the checkpoint and one for the count; a block
  may be committed between them, so they see two databases.
\<close>

definition status_reads :: "'j serde \<Rightarrow> 'b bincode \<Rightarrow> hex \<Rightarrow> node \<Rightarrow> 'b db \<Rightarrow> 'b db \<Rightarrow> 'j res" where
  "status_reads S B H N d d' =
     bind_res (lift (n_get_block_height N)) (\<lambda>tip.
     bind_res (blocking (bind_res (load_meta B d) (\<lambda>meta.
         Inr (meta, htlc_count d')))) (\<lambda>(meta, count).
       to_value S (StatusResponse
         \<lparr>is_last_indexed_height = m_last_indexed_height meta,
          is_last_indexed_block_id = hex_encode H (byte_list (m_last_indexed_block_id meta)),
          is_tip_height = tip_height tip,
          is_lag = tip_height tip - m_last_indexed_height meta,
          is_indexed_htlc_count = count,
          is_full_scan_complete = m_full_scan_complete meta,
          is_started_at = m_started_at meta\<rparr>)))"

definition get_indexer_status :: "'j serde \<Rightarrow> 'b bincode \<Rightarrow> hex \<Rightarrow> 'b ApiState \<Rightarrow> 'j res" where
  "get_indexer_status S B H st = status_reads S B H (api_node st) (api_db st) (api_db st)"

definition htlc_status :: "'j serde \<Rightarrow> 'b bincode \<Rightarrow> hex \<Rightarrow> 'b ApiState \<Rightarrow> 'j \<Rightarrow> 'j res" where
  "htlc_status S B H st args =
     bind_res (from_value (p_htlc_status S) ''htlc_status'' args) (\<lambda>p.
     bind_res (api_decode_hex32 H (hs_lock_tx_id p)) (\<lambda>tx_id.
     bind_res (blocking (get_htlc B (api_db st) tx_id (hs_output_index p))) (\<lambda>rec.
       case rec of
         Some r \<Rightarrow> to_value S (HtlcResponse r)
       | None \<Rightarrow> Inl (Fail (BadParams
           (''no indexed HTLC at ('' @ hs_lock_tx_id p @ '', '' @ decimal (unat (hs_output_index p)) @ '')''))))))"

definition null_list_params :: HtlcListParams where
  "null_list_params = \<lparr>hl_role = None, hl_state = None, hl_address = None, hl_since_height = None, hl_limit = None,
                       hl_cursor = None\<rparr>"

definition states_of :: "HtlcStateFilter option \<Rightarrow> HtlcState list" where
  "states_of f = (case f of Some (One s) \<Rightarrow> [s] | Some (Many v) \<Rightarrow> v | None \<Rightarrow> [])"

text \<open>The list for decoded parameters, and the handler around it.\<close>

definition htlc_list_for ::
  "'b bincode \<Rightarrow> hex \<Rightarrow> base64 \<Rightarrow> 'b db \<Rightarrow> HtlcListParams \<Rightarrow> HtlcListResponse res" where
  "htlc_list_for B H b64 d p =
     bind_res (decode_opt (api_decode_hex32 H) (hl_address p)) (\<lambda>address.
     bind_res (decode_opt (cursor_decode b64) (hl_cursor p)) (\<lambda>cursor.
       let filter = \<lparr>f_role = hl_role p, f_states = states_of (hl_state p), f_address = address,
                     f_since_height = hl_since_height p\<rparr>
       in bind_res (blocking (list_htlcs B d filter (page_limit (hl_limit p)) cursor)) (\<lambda>(rows, nxt).
            Inr \<lparr>hr_htlcs = rows, hr_next_cursor = map_option (cursor_encode b64) nxt\<rparr>)))"

definition htlc_list :: "'j serde \<Rightarrow> 'b bincode \<Rightarrow> hex \<Rightarrow> base64 \<Rightarrow> 'b ApiState \<Rightarrow> 'j \<Rightarrow> 'j res" where
  "htlc_list S B H b64 st args =
     bind_res (if is_null S args then Inr null_list_params else from_value (p_htlc_list S) ''htlc_list'' args) (\<lambda>p.
     bind_res (htlc_list_for B H b64 (api_db st) p) (\<lambda>resp.
       to_value S (HtlcListed resp)))"

definition htlc_lookup_by_hashlock :: "'j serde \<Rightarrow> 'b bincode \<Rightarrow> hex \<Rightarrow> 'b ApiState \<Rightarrow> 'j \<Rightarrow> 'j res" where
  "htlc_lookup_by_hashlock S B H st args =
     bind_res (from_value (p_htlc_lookup S) ''htlc_lookup_by_hashlock'' args) (\<lambda>p.
     bind_res (api_decode_hex32 H (lu_hash_lock p)) (\<lambda>h.
     bind_res (blocking (lookup_by_hashlock B (api_db st) h)) (\<lambda>rows.
       to_value S (HtlcLookupResponse rows))))"

definition settlements_for_params ::
  "'b bincode \<Rightarrow> hex \<Rightarrow> base64 \<Rightarrow> 'b db \<Rightarrow> ListSettlementsParams \<Rightarrow> ListSettlementsResponse res" where
  "settlements_for_params B H b64 d p =
     bind_res (api_decode_hex32 H (ls_address p)) (\<lambda>address.
     bind_res (decode_opt (api_decode_hex32 H) (ls_contract_hash p)) (\<lambda>contract_hash.
     bind_res (decode_opt (settlement_cursor_decode b64) (ls_cursor p)) (\<lambda>cursor.
     bind_res (blocking (SettlementQueries.list_settlements B d address contract_hash (ls_since_height p)
         (page_limit (ls_limit p)) cursor)) (\<lambda>(rows, nxt).
       Inr \<lparr>lr_settlements = rows, lr_next_cursor = map_option (settlement_cursor_encode b64) nxt\<rparr>))))"

definition api_list_settlements :: "'j serde \<Rightarrow> 'b bincode \<Rightarrow> hex \<Rightarrow> base64 \<Rightarrow> 'b ApiState \<Rightarrow> 'j \<Rightarrow> 'j res" where
  "api_list_settlements S B H b64 st args =
     bind_res (from_value (p_list_settlements S) ''list_settlements'' args) (\<lambda>p.
     bind_res (settlements_for_params B H b64 (api_db st) p) (\<lambda>resp.
       to_value S (SettlementsListed resp)))"

text \<open>\<^verbatim>\<open>checked_div(..).unwrap_or(0)\<close>: the sum of the settlement heights by their number.\<close>

definition stats_row :: "hex \<Rightarrow> ContractStats \<Rightarrow> ContractStatsRow" where
  "stats_row H s =
     \<lparr>sr_contract_hash = hex_encode H (byte_list (cs_contract_hash s)), sr_total = cs_total s,
      sr_succeeded = cs_succeeded s, sr_refunded = cs_refunded s,
      sr_avg_settle_blocks = (if cs_total s = 0 then 0 else cs_sum_settle_blocks s div cs_total s),
      sr_last_settled_at_height = cs_last_settled_at_height s\<rparr>"

definition api_contract_stats :: "'j serde \<Rightarrow> 'b bincode \<Rightarrow> hex \<Rightarrow> 'b ApiState \<Rightarrow> 'j \<Rightarrow> 'j res" where
  "api_contract_stats S B H st args =
     bind_res (from_value (p_contract_stats S) ''contract_stats'' args) (\<lambda>p.
     bind_res (api_decode_hex32 H (cp_address p)) (\<lambda>address.
     bind_res (decode_opt (api_decode_hex32 H) (cp_contract_hash p)) (\<lambda>contract_hash.
     bind_res (blocking (SettlementQueries.contract_stats B (api_db st) address contract_hash)) (\<lambda>rows.
       to_value S (ContractStatsResponse (map (stats_row H) rows))))))"

definition history_row :: "hex \<Rightarrow> AddressHistoryRow \<Rightarrow> AddressHistoryRowJson" where
  "history_row H r =
     \<lparr>hj_block_height = h_block_height r, hj_tx_id = hex_encode H (byte_list (h_tx_id r)), hj_amount = h_amount r,
      hj_direction = (if h_is_input r then ''input'' else ''output''), hj_is_coinbase = h_is_coinbase r,
      hj_counterparties = map (\<lambda>a. hex_encode H (byte_list a)) (h_counterparties r)\<rparr>"

definition history_for ::
  "'b bincode \<Rightarrow> hex \<Rightarrow> base64 \<Rightarrow> 'b db \<Rightarrow> AddressHistoryParams \<Rightarrow> AddressHistoryResponse res" where
  "history_for B H b64 d p =
     bind_res (api_decode_hex32 H (ah_address p)) (\<lambda>address.
     bind_res (decode_opt (settlement_cursor_decode b64) (ah_cursor p)) (\<lambda>cursor.
     bind_res (blocking (list_address_history B d address (ah_since_height p) (page_limit (ah_limit p)) cursor
         (ah_reverse p))) (\<lambda>(rows, nxt).
       Inr \<lparr>hy_history = map (history_row H) rows, hy_next_cursor = map_option (settlement_cursor_encode b64) nxt\<rparr>)))"

definition get_address_history :: "'j serde \<Rightarrow> 'b bincode \<Rightarrow> hex \<Rightarrow> base64 \<Rightarrow> 'b ApiState \<Rightarrow> 'j \<Rightarrow> 'j res" where
  "get_address_history S B H b64 st args =
     bind_res (from_value (p_address_history S) ''get_address_history'' args) (\<lambda>p.
     bind_res (history_for B H b64 (api_db st) p) (\<lambda>resp.
       to_value S (HistoryListed resp)))"

text \<open>The node's answer when the cache has none: an unknown method means unspent.\<close>

definition node_spent_by :: "node \<Rightarrow> string \<Rightarrow> u32 \<Rightarrow> json_literal res" where
  "node_spent_by N tx_id out_index =
     (case n_get_output_spent_by N tx_id out_index of
        Inr (Spent _ spending_tx_id input_index block_height) \<Rightarrow>
          Inr (JSpentBy spending_tx_id input_index block_height ''node'')
      | Inr (Unspent _) \<Rightarrow> Inr (JUnspent ''node'')
      | Inl e \<Rightarrow>
          (case e of
             UpstreamRpc code _ \<Rightarrow>
               if code = word_of_int (- 32601) then Inr (JUnspent ''fallback-unknown-method'') else Inl (Fail e)
           | _ \<Rightarrow> Inl (Fail e)))"

definition spent_by_for :: "'b bincode \<Rightarrow> hex \<Rightarrow> 'b ApiState \<Rightarrow> GetOutputSpentByParams \<Rightarrow> json_literal res" where
  "spent_by_for B H st p =
     bind_res (api_decode_hex32 H (gs_tx_id p)) (\<lambda>prev_tx_id.
     bind_res (blocking (cached_spent_by B (api_db st) prev_tx_id (gs_output_index p))) (\<lambda>cached.
       case cached of
         Some sb \<Rightarrow> Inr (JSpentBy (hex_encode H (byte_list (sb_spending_tx_id sb))) (sb_input_index sb)
                           (sb_block_height sb) ''indexer-cache'')
       | None \<Rightarrow> node_spent_by (api_node st) (gs_tx_id p) (gs_output_index p)))"

definition api_get_output_spent_by :: "'j serde \<Rightarrow> 'b bincode \<Rightarrow> hex \<Rightarrow> 'b ApiState \<Rightarrow> 'j \<Rightarrow> 'j res" where
  "api_get_output_spent_by S B H st args =
     bind_res (from_value (p_spent_by S) ''get_output_spent_by'' args) (\<lambda>p.
     bind_res (spent_by_for B H st p) (\<lambda>v. Inr (json_literal S v)))"

definition api_get_output_datum :: "'j serde \<Rightarrow> 'b bincode \<Rightarrow> hex \<Rightarrow> 'b ApiState \<Rightarrow> 'j \<Rightarrow> 'j res" where
  "api_get_output_datum S B H st args =
     bind_res (from_value (p_output_datum S) ''get_output_datum'' args) (\<lambda>p.
     bind_res (api_decode_hex32 H (gd_tx_id p)) (\<lambda>tx_id.
     bind_res (blocking (DatumQueries.get_output_datum B (api_db st) tx_id (gd_output_index p))) (\<lambda>rec.
       Inr (json_literal S (case rec of
           Some r \<Rightarrow> JDatum (map_option (\<lambda>q. hex_encode H (byte_list q)) (dr_quote_id r)) (dr_unhonorable r)
         | None \<Rightarrow> JDatum None False)))))"

definition api_find_settlements_by_quote_id :: "'j serde \<Rightarrow> hex \<Rightarrow> 'b ApiState \<Rightarrow> 'j \<Rightarrow> 'j res" where
  "api_find_settlements_by_quote_id S H st args =
     bind_res (from_value (p_find_settlements S) ''find_settlements_by_quote_id'' args) (\<lambda>p.
     bind_res (decode_hex16 H (fq_quote_id p)) (\<lambda>quote_id.
     bind_res (blocking (DatumQueries.find_settlements_by_quote_id (api_db st) quote_id)) (\<lambda>rows.
       to_value S (FindSettlementsResponse
         (map (\<lambda>o'. \<lparr>so_tx_id = hex_encode H (byte_list (do_tx_id o')), so_output_index = do_output_index o'\<rparr>) rows)))))"

definition edge_json :: "'p exfer \<Rightarrow> hex \<Rightarrow> AttestationEdge \<Rightarrow> AttestationEdgeJson" where
  "edge_json E H e =
     \<lparr>ej_counterparty = hex_encode H (byte_list (ae_counterparty e)),
      ej_contract_hash = hex_encode H (byte_list (ae_contract_hash e)),
      ej_contract_name = map_option ct_name (lookup E H (ae_contract_hash e)),
      ej_total = ae_total e, ej_succeeded = ae_succeeded e, ej_refunded = ae_refunded e,
      ej_last_seen_height = ae_last_seen_height e\<rparr>"

definition get_attestation_edges :: "'j serde \<Rightarrow> 'b bincode \<Rightarrow> 'p exfer \<Rightarrow> hex \<Rightarrow> 'b ApiState \<Rightarrow> 'j \<Rightarrow> 'j res" where
  "get_attestation_edges S B E H st args =
     bind_res (from_value (p_attestation_edges S) ''get_attestation_edges'' args) (\<lambda>p.
     bind_res (api_decode_hex32 H (ap_address p)) (\<lambda>address.
     bind_res (decode_opt (api_decode_hex32 H) (ap_contract_hash p)) (\<lambda>contract_hash.
     bind_res (blocking (attestation_edges B (api_db st) address contract_hash)) (\<lambda>rows.
       to_value S (AttestationEdgesResponse (map (edge_json E H) rows))))))"

definition swaps_for :: "'b bincode \<Rightarrow> hex \<Rightarrow> 'b db \<Rightarrow> DetectSwapsParams \<Rightarrow> SwapGroupJson list res" where
  "swaps_for B H d p =
     bind_res (decode_opt (api_decode_hex32 H) (ds_hash_lock p)) (\<lambda>only.
     bind_res (blocking (find_shared_hashlock_groups B d only (page_limit (ds_limit p)))) (\<lambda>groups.
       Inr (map (\<lambda>g. \<lparr>sg_hash_lock = hex_encode H (byte_list (g_hash_lock g)), sg_htlcs = g_htlcs g\<rparr>) groups)))"

definition detect_in_chain_swaps :: "'j serde \<Rightarrow> 'b bincode \<Rightarrow> hex \<Rightarrow> 'b ApiState \<Rightarrow> 'j \<Rightarrow> 'j res" where
  "detect_in_chain_swaps S B H st args =
     bind_res (from_value (p_detect_swaps S) ''detect_in_chain_swaps'' args) (\<lambda>p.
     bind_res (swaps_for B H (api_db st) p) (\<lambda>swaps.
       to_value S (DetectSwapsResponse swaps)))"

definition get_contract_template :: "'j serde \<Rightarrow> 'p exfer \<Rightarrow> hex \<Rightarrow> 'j \<Rightarrow> 'j res" where
  "get_contract_template S E H args =
     bind_res (from_value (p_contract_template S) ''get_contract_template'' args) (\<lambda>p.
       case gt_contract_hash p of
         None \<Rightarrow> Inr (json_literal S (JTemplates (list_all_templates E H)))
       | Some hash_str \<Rightarrow>
           bind_res (api_decode_hex32 H hash_str) (\<lambda>h.
             Inr (json_literal S (JTemplate (lookup E H h)))))"


subsection \<open>Dispatch\<close>

definition dispatch ::
  "'j serde \<Rightarrow> 'b bincode \<Rightarrow> 'p exfer \<Rightarrow> hex \<Rightarrow> base64 \<Rightarrow> 'b ApiState \<Rightarrow> 'j RpcRequest \<Rightarrow> 'j res" where
  "dispatch S B E H b64 st req =
     (let m = rq_method req; args = rq_params req
      in if m = ''ping'' then Inr (json_literal S JPong)
         else if m = ''get_indexer_status'' then get_indexer_status S B H st
         else if m = ''htlc_status'' then htlc_status S B H st args
         else if m = ''htlc_list'' then htlc_list S B H b64 st args
         else if m = ''htlc_lookup_by_hashlock'' then htlc_lookup_by_hashlock S B H st args
         else if m = ''list_settlements'' then api_list_settlements S B H b64 st args
         else if m = ''contract_stats'' then api_contract_stats S B H st args
         else if m = ''get_address_history'' then get_address_history S B H b64 st args
         else if m = ''get_output_spent_by'' then api_get_output_spent_by S B H st args
         else if m = ''get_output_datum'' then api_get_output_datum S B H st args
         else if m = ''find_settlements_by_quote_id'' then api_find_settlements_by_quote_id S H st args
         else if m = ''get_attestation_edges'' then get_attestation_edges S B E H st args
         else if m = ''detect_in_chain_swaps'' then detect_in_chain_swaps S B H st args
         else if m = ''get_contract_template'' then get_contract_template S E H args
         else Inl (Fail (UnknownMethod m)))"

end
