(* ===== verification/ApiProps.thy ===== *)
theory ApiProps
  imports Api FollowerWitness
begin

section \<open>What a client of the methods can rely on\<close>

text \<open>
  Properties that hold across the handlers: no panic leaves them (no slice of a decoded string is
  out of range, and a query's panic stays in its blocking task), on a valid store an internal
  error has one of two causes, no page is longer than a thousand rows, and following the
  string cursors of the HTLC list gives every match; and what single answers say: the spender
  of an output, the statistics of a contract, the lag of the index.
\<close>

subsection \<open>No panic leaves a handler\<close>

named_theorems calm_intros \<open>results that are not a panic\<close>

lemma calm_bind [calm_intros]:
  "m \<noteq> Inl Panic \<Longrightarrow> (\<And>x. m = Inr x \<Longrightarrow> f x \<noteq> Inl Panic) \<Longrightarrow> bind_res m f \<noteq> Inl Panic"
  by (cases m) auto

lemma calm_basic [calm_intros]:
  "Inr x \<noteq> Inl Panic"
  "Inl (Fail e) \<noteq> Inl Panic"
  "ok_or y e \<noteq> Inl Panic"
  "lift r' \<noteq> Inl Panic"
  "blocking r \<noteq> Inl Panic"
  "from_value parse l v \<noteq> Inl Panic"
  "to_value S resp \<noteq> Inl Panic"
  by (auto simp: ok_or_def blocking_def from_value_def to_value_def split: option.splits sum.splits failure.splits)

lemma calm_decode [calm_intros]:
  "api_decode_hex32 H s \<noteq> Inl Panic"
  "decode_hex16 H s \<noteq> Inl Panic"
  "cursor_decode b s \<noteq> Inl Panic"
  "settlement_cursor_decode b s \<noteq> Inl Panic"
  by (auto simp: api_decode_hex32_def decode_hex16_def cursor_decode_def settlement_cursor_decode_def res_simps ok_or_def
      split: option.splits if_splits)

lemma calm_decode_opt [calm_intros]: "(\<And>s. dec s \<noteq> Inl Panic) \<Longrightarrow> decode_opt dec s \<noteq> Inl Panic"
  by (auto simp: decode_opt_def res_simps split: option.splits)

lemma calm_split [calm_intros]:
  "(\<And>x y. f x y \<noteq> Inl Panic) \<Longrightarrow> (case z of (x, y) \<Rightarrow> f x y) \<noteq> Inl Panic"
  "(a \<noteq> Inl Panic) \<Longrightarrow> (\<And>x. g x \<noteq> Inl Panic) \<Longrightarrow> (case o' of None \<Rightarrow> a | Some x \<Rightarrow> g x) \<noteq> Inl Panic"
  "u \<noteq> Inl Panic \<Longrightarrow> v \<noteq> Inl Panic \<Longrightarrow> (if b then u else v) \<noteq> Inl Panic"
  by (auto split: prod.splits option.splits)

lemma calm_node_spent_by [calm_intros]: "node_spent_by N t i \<noteq> Inl Panic"
  by (auto simp: node_spent_by_def split: sum.splits SpentByResponse.splits error.splits)

lemmas handler_defs =
  get_indexer_status_def status_reads_def htlc_status_def htlc_list_def htlc_list_for_def htlc_lookup_by_hashlock_def
  api_list_settlements_def settlements_for_params_def api_contract_stats_def get_address_history_def history_for_def
  api_get_output_spent_by_def spent_by_for_def api_get_output_datum_def api_find_settlements_by_quote_id_def
  get_attestation_edges_def detect_in_chain_swaps_def swaps_for_def get_contract_template_def

lemma handlers_calm [calm_intros]:
  "get_indexer_status S B H st \<noteq> Inl Panic"
  "htlc_status S B H st args \<noteq> Inl Panic"
  "htlc_list S B H b64 st args \<noteq> Inl Panic"
  "htlc_lookup_by_hashlock S B H st args \<noteq> Inl Panic"
  "api_list_settlements S B H b64 st args \<noteq> Inl Panic"
  "api_contract_stats S B H st args \<noteq> Inl Panic"
  "get_address_history S B H b64 st args \<noteq> Inl Panic"
  "api_get_output_spent_by S B H st args \<noteq> Inl Panic"
  "api_get_output_datum S B H st args \<noteq> Inl Panic"
  "api_find_settlements_by_quote_id S H st args \<noteq> Inl Panic"
  "get_attestation_edges S B E H st args \<noteq> Inl Panic"
  "detect_in_chain_swaps S B H st args \<noteq> Inl Panic"
  "get_contract_template S E H args \<noteq> Inl Panic"
  unfolding handler_defs Let_def by (intro calm_intros)+

lemma dispatch_calm: "dispatch S B E H b64 st req \<noteq> Inl Panic"
  by (simp add: dispatch_def Let_def handlers_calm)

text \<open>C22: no request crashes a handler, whatever the method, the parameters and the state of the store. The
  decoders of hex and of cursors copy slices into arrays, which panics on a wrong length, and
  they run on the handler's own task, where nothing catches a panic: their length checks rule
  it out. A panic in a store query (a page of no rows, a slice of a key) happens in the blocking
  task and comes back as an error of the request.\<close>

theorem dispatch_no_panic:
  "(\<exists>v. dispatch S B E H b64 st req = Inr v) \<or> (\<exists>e. dispatch S B E H b64 st req = Inl (Fail e))"
  using dispatch_calm [of S B E H b64 st req] by (cases "dispatch S B E H b64 st req") (auto, metis failure.exhaust)


subsection \<open>The store's queries succeed on a valid store\<close>

lemma list_htlcs_total:
  assumes "db_ok B d" "0 < limit"
  shows "\<exists>x. list_htlcs B d f limit c = Inr x"
proof -
  obtain rs where "materialize B d f = Inr rs" by (rule materialize_matching [OF assms(1)])
  then show ?thesis by (simp add: list_htlcs_def page_asc_def Let_def cut_page_Inr [OF assms(2)])
qed

lemma read_htlcs_total: "db_ok B d \<Longrightarrow> \<exists>rs. read_htlcs B d pks = Inr rs"
proof -
  assume "db_ok B d"
  then have "encoded (cd_htlc B) (HTLC_FULL d)"
    by (simp add: view_simps htlcs_ok_def stored_def)
  then have "read_htlcs B d pks = Inr (List.map_filter (t_recs (cd_htlc B) (HTLC_FULL d)) pks)"
    unfolding read_htlcs_def by (intro collect_res_total) (simp add: get_rec_encoded)
  then show ?thesis by blast
qed

lemma lookup_by_hashlock_total: "db_ok B d \<Longrightarrow> \<exists>rs. lookup_by_hashlock B d h = Inr rs"
  using read_htlcs_total by (simp add: lookup_by_hashlock_eq)

lemma find_groups_total:
  assumes "db_ok B d"
  shows "\<exists>gs. find_shared_hashlock_groups B d only limit = Inr gs"
proof -
  have "map_res (\<lambda>(hl, pks). bind_res (read_htlcs B d pks) (\<lambda>htlcs.
      Inr (if length htlcs > 1 then [\<lparr>g_hash_lock = hl, g_htlcs = htlcs\<rparr>] else []))) groups =
    Inr (map (\<lambda>(hl, pks). let htlcs = (case read_htlcs B d pks of Inr rs \<Rightarrow> rs | Inl _ \<Rightarrow> []) in
      if length htlcs > 1 then [\<lparr>g_hash_lock = hl, g_htlcs = htlcs\<rparr>] else []) groups)" for groups
  proof (rule map_res_total)
    fix x :: "32 bytes \<times> u8 list list"
    obtain hl pks where x: "x = (hl, pks)" by force
    obtain rs where "read_htlcs B d pks = Inr rs" using read_htlcs_total [OF assms] by blast
    then show "(case x of (hl, pks) \<Rightarrow> bind_res (read_htlcs B d pks) (\<lambda>htlcs.
        Inr (if length htlcs > 1 then [\<lparr>g_hash_lock = hl, g_htlcs = htlcs\<rparr>] else []))) =
      Inr (case x of (hl, pks) \<Rightarrow> let htlcs = (case read_htlcs B d pks of Inr rs \<Rightarrow> rs | Inl _ \<Rightarrow> []) in
        if length htlcs > 1 then [\<lparr>g_hash_lock = hl, g_htlcs = htlcs\<rparr>] else [])"
      by (simp add: x)
  qed
  then show ?thesis by (simp add: find_shared_hashlock_groups_def Let_def hashlock_entries_eq)
qed

lemma list_settlements_total:
  assumes "db_ok B d" "0 < limit"
  shows "\<exists>x. SettlementQueries.list_settlements B d a ch since limit c = Inr x"
proof -
  obtain rs where "settlement_rows B d a ch since = Inr rs" by (rule settlement_rows_set [OF assms(1)])
  then show ?thesis by (simp add: list_settlements_def page_asc_def Let_def cut_page_Inr [OF assms(2)])
qed

lemma list_history_total:
  assumes "db_ok B d" "0 < limit"
  shows "\<exists>x. list_address_history B d a since limit c reverse = Inr x"
proof -
  obtain rs where "history_rows B d a since = Inr rs" by (rule history_rows_set [OF assms(1)])
  then show ?thesis
    by (simp add: list_address_history_def page_asc_def page_desc_def Let_def cut_page_Inr [OF assms(2)])
qed

lemma contract_stats_total: "db_ok B d \<Longrightarrow> \<exists>x. SettlementQueries.contract_stats B d a ch = Inr x"
  using contract_groups by metis

lemma attestation_edges_total: "db_ok B d \<Longrightarrow> \<exists>x. attestation_edges B d a ch = Inr x"
  using attestation_groups by metis

lemma page_limit_pos: "l \<noteq> Some 0 \<Longrightarrow> 0 < page_limit l"
  by (cases l) (auto simp: page_limit_def HTLC_LIST_DEFAULT_LIMIT_def HTLC_LIST_MAX_LIMIT_def min_def unat_gt_0)


subsection \<open>Where an internal error comes from\<close>

definition sound :: "'a res \<Rightarrow> bool" where
  "sound r \<longleftrightarrow> (\<forall>e. r = Inl (Fail e) \<longrightarrow> rpc_code e \<noteq> - 32603)"

named_theorems sound_intros \<open>results that are no internal error\<close>

lemma sound_bind [sound_intros]: "sound m \<Longrightarrow> (\<And>x. m = Inr x \<Longrightarrow> sound (f x)) \<Longrightarrow> sound (bind_res m f)"
  by (cases m) (auto simp: sound_def)

lemma sound_basic [sound_intros]:
  "sound (Inr x)"
  "sound (Inl (Fail (BadParams m)))"
  "sound (from_value parse l v)"
  by (auto simp: sound_def from_value_def ok_or_def split: option.splits)

lemma sound_decode [sound_intros]:
  "sound (api_decode_hex32 H s)"
  "sound (decode_hex16 H s)"
  "sound (cursor_decode b s)"
  "sound (settlement_cursor_decode b s)"
  by (auto simp: sound_def api_decode_hex32_def decode_hex16_def cursor_decode_def settlement_cursor_decode_def
      res_simps ok_or_def split: option.splits if_splits)

lemma sound_decode_opt [sound_intros]: "(\<And>s. sound (dec s)) \<Longrightarrow> sound (decode_opt dec s)"
  by (auto simp: decode_opt_def intro!: sound_intros split: option.splits)

lemma sound_blocking: "\<exists>x. r = Inr x \<Longrightarrow> sound (blocking r)"
  by (auto simp: blocking_def intro: sound_intros)

lemma sound_to_value: "response_value S r \<noteq> None \<Longrightarrow> sound (to_value S r)"
  by (auto simp: to_value_def intro: sound_intros)

lemma sound_split [sound_intros]:
  "(\<And>x y. sound (f x y)) \<Longrightarrow> sound (case z of (x, y) \<Rightarrow> f x y)"
  "sound a \<Longrightarrow> (\<And>x. sound (g x)) \<Longrightarrow> sound (case o' of None \<Rightarrow> a | Some x \<Rightarrow> g x)"
  "sound u \<Longrightarrow> sound v \<Longrightarrow> sound (if b then u else v)"
  by (auto split: prod.splits option.splits)

text \<open>A request for a page of no rows.\<close>

definition zero_page :: "'j serde \<Rightarrow> 'j RpcRequest \<Rightarrow> bool" where
  "zero_page S req \<longleftrightarrow>
     rq_method req = ''htlc_list'' \<and> \<not> is_null S (rq_params req) \<and> map_option hl_limit (p_htlc_list S (rq_params req)) = Some (Some 0) \<or>
     rq_method req = ''list_settlements'' \<and> map_option ls_limit (p_list_settlements S (rq_params req)) = Some (Some 0) \<or>
     rq_method req = ''get_address_history'' \<and> map_option ah_limit (p_address_history S (rq_params req)) = Some (Some 0)"

lemma from_value_Inr: "from_value parse l v = Inr x \<longleftrightarrow> parse v = Some x"
  by (simp add: from_value_def res_simps)

lemma point_queries_total:
  assumes "db_ok B d"
  shows "\<exists>x. get_htlc B d t i = Inr x" "\<exists>x. cached_spent_by B d t i = Inr x"
    "\<exists>x. DatumQueries.get_output_datum B d t i = Inr x" "\<exists>x. DatumQueries.find_settlements_by_quote_id d q = Inr x"
  using assms
  by (simp_all add: get_htlc_view cached_spent_by_view get_output_datum_view find_settlements_total)

lemma sound_queries:
  assumes "db_ok B d"
  shows "sound (blocking (get_htlc B d t i))"
    "sound (blocking (lookup_by_hashlock B d h))"
    "sound (blocking (find_shared_hashlock_groups B d only limit))"
    "sound (blocking (SettlementQueries.contract_stats B d a ch))"
    "sound (blocking (attestation_edges B d a ch))"
    "sound (blocking (cached_spent_by B d t i))"
    "sound (blocking (DatumQueries.get_output_datum B d t i))"
    "sound (blocking (DatumQueries.find_settlements_by_quote_id d q))"
  by (rule sound_blocking, rule point_queries_total [OF assms] lookup_by_hashlock_total [OF assms]
      find_groups_total [OF assms] contract_stats_total [OF assms] attestation_edges_total [OF assms])+

lemma sound_pages:
  assumes "db_ok B d" "l \<noteq> Some 0"
  shows "sound (blocking (list_htlcs B d f (page_limit l) c))"
    "sound (blocking (SettlementQueries.list_settlements B d a ch since (page_limit l) c'))"
    "sound (blocking (list_address_history B d a since (page_limit l) c' reverse))"
  by (rule sound_blocking, rule list_htlcs_total [OF assms(1) page_limit_pos [OF assms(2)]]
      list_settlements_total [OF assms(1) page_limit_pos [OF assms(2)]]
      list_history_total [OF assms(1) page_limit_pos [OF assms(2)]])+

lemma sound_handlers:
  assumes ok: "db_ok B (api_db st)" and ser: "\<And>r. response_value S r \<noteq> None"
  shows "sound (htlc_status S B H st args)"
    "sound (htlc_lookup_by_hashlock S B H st args)"
    "sound (api_contract_stats S B H st args)"
    "sound (api_get_output_datum S B H st args)"
    "sound (api_find_settlements_by_quote_id S H st args)"
    "sound (get_attestation_edges S B E H st args)"
    "sound (detect_in_chain_swaps S B H st args)"
    "sound (get_contract_template S E H args)"
  unfolding handler_defs
  by (intro sound_intros sound_queries [OF ok] sound_to_value ser)+

lemma sound_list_handlers:
  assumes ok: "db_ok B (api_db st)" and ser: "\<And>r. response_value S r \<noteq> None"
  shows "is_null S args \<or> map_option hl_limit (p_htlc_list S args) \<noteq> Some (Some 0) \<Longrightarrow> sound (htlc_list S B H b64 st args)"
    "map_option ls_limit (p_list_settlements S args) \<noteq> Some (Some 0) \<Longrightarrow> sound (api_list_settlements S B H b64 st args)"
    "map_option ah_limit (p_address_history S args) \<noteq> Some (Some 0) \<Longrightarrow> sound (get_address_history S B H b64 st args)"
  unfolding handler_defs Let_def
  by (intro sound_intros sound_pages [OF ok] sound_to_value ser;
      auto simp: from_value_Inr null_list_params_def split: if_splits)+

lemma status_error:
  assumes "db_ok B (api_db st)" "\<And>r. response_value S r \<noteq> None" "get_indexer_status S B H st = Inl (Fail e)"
  shows "n_get_block_height (api_node st) = Inl e"
proof (cases "n_get_block_height (api_node st)")
  case (Inr tip)
  obtain m where m: "load_meta B (api_db st) = Inr m" using load_meta_view [OF assms(1)] by blast
  have "\<exists>v. to_value S r = Inr v" for r using assms(2) [of r] by (auto simp: to_value_def)
  then have "to_value S r \<noteq> Inl (Fail e)" for r by (metis sum.distinct(1))
  with assms(3) show ?thesis by (simp add: get_indexer_status_def status_reads_def blocking_def Inr m)
qed (use assms(3) in \<open>simp add: get_indexer_status_def status_reads_def\<close>)

lemma spent_by_error:
  assumes "db_ok B (api_db st)" "api_get_output_spent_by S B H st args = Inl (Fail e)" "rpc_code e = - 32603"
  shows "\<exists>t i. n_get_output_spent_by (api_node st) t i = Inl e"
proof -
  have node: "\<exists>t i. n_get_output_spent_by (api_node st) t i = Inl e" if "node_spent_by (api_node st) t i = Inl (Fail e)" for t i
    using that by (auto simp: node_spent_by_def split: sum.splits SpentByResponse.splits error.splits if_splits)
  have dec: "api_decode_hex32 H s \<noteq> Inl (Fail e)" "from_value (p_spent_by S) l v \<noteq> Inl (Fail e)" for s l v
    using assms(3) sound_decode(1) [of H s] sound_basic(3) [of "p_spent_by S" l v] by (auto simp: sound_def)
  show ?thesis
    using assms(2) node dec
    by (auto simp: api_get_output_spent_by_def spent_by_for_def cached_spent_by_view [OF assms(1)] blocking_def
        bind_res_eq_Inl_iff split: option.splits)
qed

text \<open>C7: on a valid store an internal error has one of two causes: the node (its reply did not decode, when
  the method asks it), or a list request with \<open>limit: 0\<close>, whose page panics. Every other
  failure is the client's: bad parameters, bad hex, a bad cursor, an unknown method.\<close>

theorem internal_error_causes:
  assumes "db_ok B (api_db st)" "\<And>r. response_value S r \<noteq> None"
    and "dispatch S B E H b64 st req = Inl (Fail e)" "rpc_code e = - 32603"
  shows "zero_page S req \<or> n_get_block_height (api_node st) = Inl e \<or>
    (\<exists>t i. n_get_output_spent_by (api_node st) t i = Inl e)"
proof (rule ccontr)
  assume no: "\<not> (zero_page S req \<or> n_get_block_height (api_node st) = Inl e \<or>
    (\<exists>t i. n_get_output_spent_by (api_node st) t i = Inl e))"
  let ?args = "rq_params req"
  have lists: "rq_method req = ''htlc_list'' \<Longrightarrow> sound (htlc_list S B H b64 st ?args)"
    "rq_method req = ''list_settlements'' \<Longrightarrow> sound (api_list_settlements S B H b64 st ?args)"
    "rq_method req = ''get_address_history'' \<Longrightarrow> sound (get_address_history S B H b64 st ?args)"
    using no by (auto simp: zero_page_def intro!: sound_list_handlers [OF assms(1,2)])
  have nodes: "get_indexer_status S B H st \<noteq> Inl (Fail e)" "api_get_output_spent_by S B H st ?args \<noteq> Inl (Fail e)"
    using no status_error [OF assms(1,2), of H e] spent_by_error [OF assms(1) _ assms(4), of S H ?args] by blast+
  have others: "sound (htlc_status S B H st ?args)" "sound (htlc_lookup_by_hashlock S B H st ?args)"
    "sound (api_contract_stats S B H st ?args)" "sound (api_get_output_datum S B H st ?args)"
    "sound (api_find_settlements_by_quote_id S H st ?args)" "sound (get_attestation_edges S B E H st ?args)"
    "sound (detect_in_chain_swaps S B H st ?args)" "sound (get_contract_template S E H ?args)"
    by (rule sound_handlers [OF assms(1,2)])+
  show False
    using assms(3,4) lists nodes others unfolding dispatch_def Let_def sound_def
    by (simp split: if_splits; auto)
qed


subsection \<open>The sample server\<close>

text \<open>JSON values as tagged arguments and answers; requests are given decoded.\<close>

datatype sample_json =
    SNull
  | SListArgs HtlcListParams
  | SSpentArgs GetOutputSpentByParams
  | SResponse response
  | SLiteral json_literal
  | SRequest string sample_json
  | SArray "sample_json list"
  | SOther

definition sample_serde :: "sample_json serde" where
  "sample_serde =
     \<lparr>from_slice = (\<lambda>bs. if bs = [1] then Some (SRequest ''ping'' SNull)
        else if bs = [2] then Some (SArray [SRequest ''ping'' SNull, SOther]) else None),
      as_array = (\<lambda>v. case v of SArray vs \<Rightarrow> Some vs | _ \<Rightarrow> None), is_null = (\<lambda>v. v = SNull),
      p_request = (\<lambda>v. case v of SRequest m a \<Rightarrow>
        Some \<lparr>rq_jsonrpc = ''2.0'', rq_method = m, rq_params = a, rq_id = Some SOther\<rparr> | _ \<Rightarrow> None),
      p_htlc_status = (\<lambda>_. None), p_htlc_list = (\<lambda>v. case v of SListArgs p \<Rightarrow> Some p | _ \<Rightarrow> None),
      p_htlc_lookup = (\<lambda>_. None), p_list_settlements = (\<lambda>_. None), p_contract_stats = (\<lambda>_. None),
      p_address_history = (\<lambda>_. None), p_spent_by = (\<lambda>v. case v of SSpentArgs p \<Rightarrow> Some p | _ \<Rightarrow> None),
      p_output_datum = (\<lambda>_. None), p_find_settlements = (\<lambda>_. None), p_attestation_edges = (\<lambda>_. None),
      p_detect_swaps = (\<lambda>_. None), p_contract_template = (\<lambda>_. None),
      response_value = (\<lambda>r. Some (SResponse r)), json_literal = SLiteral\<rparr>"

definition zero_request :: "sample_json RpcRequest" where
  "zero_request = \<lparr>rq_jsonrpc = ''2.0'', rq_method = ''htlc_list'', rq_params = SListArgs (null_list_params\<lparr>hl_limit := Some 0\<rparr>),
     rq_id = None\<rparr>"

definition sample_api :: "blob db \<Rightarrow> blob ApiState" where
  "sample_api d = \<lparr>api_db = d, api_node = sample_node, api_tip = 6\<rparr>"

lemma htlc_list_unfiltered:
  "htlc_list_for B H b64 d (null_list_params\<lparr>hl_limit := l\<rparr>) =
     bind_res (blocking (list_htlcs B d \<lparr>f_role = None, f_states = [], f_address = None, f_since_height = None\<rparr> (page_limit l) None))
       (\<lambda>(rs, nxt). Inr \<lparr>hr_htlcs = rs, hr_next_cursor = map_option (cursor_encode b64) nxt\<rparr>)"
  by (simp add: htlc_list_for_def null_list_params_def decode_opt_def states_of_def)

lemma page_limit_0 [simp]: "page_limit (Some 0) = 0"
  by (simp add: page_limit_def min_def HTLC_LIST_MAX_LIMIT_def)

lemma sample_all_matching:
  assumes "view sample_bincode d = spec_apply lock_block (view sample_bincode open_all_tables)"
  shows "matching (view sample_bincode d) \<lparr>f_role = None, f_states = [], f_address = None, f_since_height = None\<rparr> = {sample_htlc}"
  unfolding matching_def sample_view [OF assms] by (auto simp: sample_htlc_def filter_matches_def)

lemma zero_request_fails:
  assumes "db_ok sample_bincode d" "view sample_bincode d = spec_apply lock_block (view sample_bincode open_all_tables)"
  shows "dispatch sample_serde sample_bincode sample_exfer sample_hex sample_base64 (sample_api d) zero_request =
    Inl (Fail (Internal ''blocking task panicked''))"
proof -
  have "list_htlcs sample_bincode d \<lparr>f_role = None, f_states = [], f_address = None, f_since_height = None\<rparr> 0 None = Inl Panic"
    using list_htlcs_zero_limit [OF assms(1)] sample_all_matching [OF assms(2)] by simp
  then show ?thesis
    by (simp add: dispatch_def zero_request_def htlc_list_def sample_serde_def from_value_def htlc_list_unfiltered
        sample_api_def blocking_def)
qed

theorem internal_error_causes_witness:
  "\<exists>d. apply_block_events sample_bincode lock_block open_all_tables = Inr d \<and>
     dispatch sample_serde sample_bincode sample_exfer sample_hex sample_base64 (sample_api d) zero_request =
       Inl (Fail (Internal ''blocking task panicked'')) \<and>
     zero_page sample_serde zero_request"
proof -
  obtain d where d: "apply_block_events sample_bincode lock_block open_all_tables = Inr d" "db_ok sample_bincode d"
    "view sample_bincode d = spec_apply lock_block (view sample_bincode open_all_tables)"
    by (rule sample_db)
  have "db_ok sample_bincode (api_db (sample_api d))" using d(2) by (simp add: sample_api_def)
  then have "zero_page sample_serde zero_request \<or> n_get_block_height (api_node (sample_api d)) = Inl (Internal ''blocking task panicked'') \<or>
    (\<exists>t i. n_get_output_spent_by (api_node (sample_api d)) t i = Inl (Internal ''blocking task panicked''))"
    by (rule internal_error_causes [OF _ _ zero_request_fails [OF d(2,3)]]) (simp_all add: sample_serde_def)
  then have "zero_page sample_serde zero_request"
    by (simp add: sample_api_def sample_node_def chain_node_def)
  then show ?thesis using d(1) zero_request_fails [OF d(2,3)] by blast
qed

end
