(* ===== verification/ChainAnswers.thy ===== *)
theory ChainAnswers
  imports ChainIndex ApiProps
begin

section \<open>Replicas answer alike\<close>

text \<open>
  Two indexers of one chain that have reached the same height hold the same rows and indexes,
  so they give the same answer, byte for byte and errors included, to every method but the
  status (which reports the checkpoint itself and when the scan started).
\<close>

subsection \<open>Only the status reads the checkpoint\<close>

lemma queries_ignore_checkpoint [simp]:
  "get_htlc B (d\<lparr>CHAIN_TIP := x\<rparr>) = get_htlc B d"
  "lookup_by_hashlock B (d\<lparr>CHAIN_TIP := x\<rparr>) = lookup_by_hashlock B d"
  "list_htlcs B (d\<lparr>CHAIN_TIP := x\<rparr>) = list_htlcs B d"
  "SettlementQueries.list_settlements B (d\<lparr>CHAIN_TIP := x\<rparr>) = SettlementQueries.list_settlements B d"
  "SettlementQueries.contract_stats B (d\<lparr>CHAIN_TIP := x\<rparr>) = SettlementQueries.contract_stats B d"
  "attestation_edges B (d\<lparr>CHAIN_TIP := x\<rparr>) = attestation_edges B d"
  "find_shared_hashlock_groups B (d\<lparr>CHAIN_TIP := x\<rparr>) = find_shared_hashlock_groups B d"
  "list_address_history B (d\<lparr>CHAIN_TIP := x\<rparr>) = list_address_history B d"
  "cached_spent_by B (d\<lparr>CHAIN_TIP := x\<rparr>) = cached_spent_by B d"
  "DatumQueries.get_output_datum B (d\<lparr>CHAIN_TIP := x\<rparr>) = DatumQueries.get_output_datum B d"
  "DatumQueries.find_settlements_by_quote_id (d\<lparr>CHAIN_TIP := x\<rparr>) = DatumQueries.find_settlements_by_quote_id d"
proof -
  have rec: "read_htlcs B (d\<lparr>CHAIN_TIP := x\<rparr>) = read_htlcs B d" "get_htlc B (d\<lparr>CHAIN_TIP := x\<rparr>) = get_htlc B d"
    by (simp_all add: fun_eq_iff read_htlcs_def get_htlc_def)
  then have "materialize B (d\<lparr>CHAIN_TIP := x\<rparr>) = materialize B d"
    by (simp add: fun_eq_iff materialize_def scan_party_eq split: option.split)
  moreover have "settlement_rows B (d\<lparr>CHAIN_TIP := x\<rparr>) = settlement_rows B d"
    by (simp add: fun_eq_iff settlement_rows_def)
  moreover have "scan_observer B (d\<lparr>CHAIN_TIP := x\<rparr>) = scan_observer B d"
    by (simp add: fun_eq_iff scan_observer_def Let_def cong: if_cong prod.case_cong)
  moreover have "history_rows B (d\<lparr>CHAIN_TIP := x\<rparr>) = history_rows B d"
    by (simp add: fun_eq_iff history_rows_def)
  moreover note rec
  ultimately show "get_htlc B (d\<lparr>CHAIN_TIP := x\<rparr>) = get_htlc B d"
    "lookup_by_hashlock B (d\<lparr>CHAIN_TIP := x\<rparr>) = lookup_by_hashlock B d"
    "list_htlcs B (d\<lparr>CHAIN_TIP := x\<rparr>) = list_htlcs B d"
    "SettlementQueries.list_settlements B (d\<lparr>CHAIN_TIP := x\<rparr>) = SettlementQueries.list_settlements B d"
    "SettlementQueries.contract_stats B (d\<lparr>CHAIN_TIP := x\<rparr>) = SettlementQueries.contract_stats B d"
    "attestation_edges B (d\<lparr>CHAIN_TIP := x\<rparr>) = attestation_edges B d"
    "find_shared_hashlock_groups B (d\<lparr>CHAIN_TIP := x\<rparr>) = find_shared_hashlock_groups B d"
    "list_address_history B (d\<lparr>CHAIN_TIP := x\<rparr>) = list_address_history B d"
    "cached_spent_by B (d\<lparr>CHAIN_TIP := x\<rparr>) = cached_spent_by B d"
    "DatumQueries.get_output_datum B (d\<lparr>CHAIN_TIP := x\<rparr>) = DatumQueries.get_output_datum B d"
    "DatumQueries.find_settlements_by_quote_id (d\<lparr>CHAIN_TIP := x\<rparr>) = DatumQueries.find_settlements_by_quote_id d"
    by (simp_all add: fun_eq_iff lookup_by_hashlock_eq list_htlcs_def SettlementQueries.list_settlements_def
        SettlementQueries.contract_stats_def attestation_edges_def find_shared_hashlock_groups_def
        list_address_history_def cached_spent_by_def DatumQueries.get_output_datum_def
        DatumQueries.find_settlements_by_quote_id_def)
qed

text \<open>So no other method does.\<close>

lemma dispatch_ignores_checkpoint:
  assumes "rq_method req \<noteq> ''get_indexer_status''"
  shows "dispatch S B E H b64 \<lparr>api_db = d\<lparr>CHAIN_TIP := x\<rparr>, api_node = K, api_tip = t\<rparr> req =
    dispatch S B E H b64 \<lparr>api_db = d, api_node = K, api_tip = t'\<rparr> req"
  by (simp add: dispatch_def Let_def assms htlc_status_def htlc_list_def htlc_list_for_def htlc_lookup_by_hashlock_def
      api_list_settlements_def settlements_for_params_def api_contract_stats_def get_address_history_def
      history_for_def api_get_output_spent_by_def spent_by_for_def api_get_output_datum_def
      api_find_settlements_by_quote_id_def get_attestation_edges_def detect_in_chain_swaps_def swaps_for_def
      Let_def)


subsection \<open>Equal heights, equal rows\<close>

text \<open>Stores that satisfy the invariant and hold the same rows are equal but for the checkpoint.\<close>

lemma same_rows_same_tables:
  assumes "db_ok B d" "db_ok B d'" "rows_of (view B d) = rows_of (view B d')"
  shows "d' = d\<lparr>CHAIN_TIP := CHAIN_TIP d'\<rparr>"
proof -
  have "db_ok B (d\<lparr>CHAIN_TIP := CHAIN_TIP d'\<rparr>)" using assms(1,2) by (simp add: view_simps)
  moreover have "view B d' = view B (d\<lparr>CHAIN_TIP := CHAIN_TIP d'\<rparr>)"
    using assms(3) by (simp add: view_def rows_of_def)
  ultimately show ?thesis using assms(2) by (intro db_eqI)
qed

text \<open>C12: replicas agree: let two indexers start from empty databases and poll, each in its own way (its own
  sequence of polls, outages of its node, refused writes and interruptions, but no
  failing read of a spent HTLC), nodes that never contradict one chain. Once their checkpoints have reached the same height, every method
  other than get_indexer_status gives the same answer on both, errors included, whatever the
  request; the tips the two followers announced do not matter.\<close>

theorem replicas_agree:
  assumes "bincode_ok B" "exfer_ok E" "block_id_at H N 0 \<noteq> Inr (filled 0)"
    and "list_all (\<lambda>(A, ft, _). serves_chain N A \<and> peeks_succeed ft) polls1" "list_all (\<lambda>(A, ft, _). serves_chain N A \<and> peeks_succeed ft) polls2"
    and "d1 = fs_db (run_polls B E H polls1 \<lparr>fs_db = open_all_tables, fs_tip = 0\<rparr>)"
    and "d2 = fs_db (run_polls B E H polls2 \<lparr>fs_db = open_all_tables, fs_tip = 0\<rparr>)"
    and "load_meta B d1 = Inr m1" "load_meta B d2 = Inr m2" "start_height m1 = start_height m2"
    and "rq_method req \<noteq> ''get_indexer_status''"
  shows "dispatch S B E H b64 \<lparr>api_db = d1, api_node = K, api_tip = t1\<rparr> req =
    dispatch S B E H b64 \<lparr>api_db = d2, api_node = K, api_tip = t2\<rparr> req"
proof -
  have h: "\<And>d polls m. list_all (\<lambda>(A, ft, _). serves_chain N A \<and> peeks_succeed ft) polls \<Longrightarrow>
      d = fs_db (run_polls B E H polls \<lparr>fs_db = open_all_tables, fs_tip = 0\<rparr>) \<Longrightarrow> load_meta B d = Inr m \<Longrightarrow>
      db_ok B d \<and> rows_of (view B d) = chain_rows E H N (unat (start_height m))"
    by (rule polls_hold_start [OF assms(1-3), of True]) (auto simp: holds_blocks_def store_ok_def)
  have "d2 = d1\<lparr>CHAIN_TIP := CHAIN_TIP d2\<rparr>"
    using h [OF assms(4,6,8)] h [OF assms(5,7,9)] assms(10) by (intro same_rows_same_tables [where B = B]) simp_all
  then show ?thesis using dispatch_ignores_checkpoint [OF assms(11)] by metis
qed

text \<open>The second indexer starts while its node is down, and scans the chain at another time.\<close>

theorem replicas_agree_witness:
  "dispatch sample_serde sample_bincode sample_exfer sample_hex sample_base64
     \<lparr>api_db = fs_db (run_polls sample_bincode sample_exfer sample_hex [(steady sample_node, no_faults, 7)]
       \<lparr>fs_db = open_all_tables, fs_tip = 0\<rparr>), api_node = sample_node, api_tip = 6\<rparr> zero_request =
   dispatch sample_serde sample_bincode sample_exfer sample_hex sample_base64
     \<lparr>api_db = fs_db (run_polls sample_bincode sample_exfer sample_hex
         [(steady down_node, no_faults, 3), (steady sample_node, no_faults, 9)]
       \<lparr>fs_db = open_all_tables, fs_tip = 0\<rparr>), api_node = sample_node, api_tip = 0\<rparr> zero_request"
proof -
  let ?s = "\<lparr>fs_db = open_all_tables, fs_tip = 0\<rparr> :: blob FollowerState"
  have down: "tick sample_bincode sample_exfer sample_hex (steady down_node) no_faults 3 ?s =
      (Inl (Fail (UpstreamUnreachable ''down'')), ?s)"
    by (simp add: tick_def bind_step_apply fresh_checkpoint down_node_def)
  obtain s1 m1 where s1: "tick sample_bincode sample_exfer sample_hex (steady sample_node) no_faults 7 ?s = (Inr (), s1)"
    "load_meta sample_bincode (fs_db s1) = Inr m1" "start_height m1 = 7" by (rule sample_run)
  obtain s2 m2 where s2: "tick sample_bincode sample_exfer sample_hex (steady sample_node) no_faults 9 ?s = (Inr (), s2)"
    "load_meta sample_bincode (fs_db s2) = Inr m2" "start_height m2 = 7" by (rule sample_run)
  show ?thesis
    by (rule replicas_agree [OF sample_bincode_ok sample_exfer_ok sample_genesis _ _ refl refl, where ?m1.0 = m1 and ?m2.0 = m2])
      (use sample_tip s1 s2 in \<open>simp_all add: serves_chain_def consistent_sample down zero_request_def\<close>)
qed

end
