(* ===== verification/ApiAnswers.thy ===== *)
theory ApiAnswers
  imports ApiProps
begin

section \<open>What single answers say\<close>

text \<open>
  The answers of the methods against the rows of the store: paging through the string cursors
  of the HTLC list, the size of a page, the page of no rows, the spender of an output, the
  average of the contract statistics, and the status with its signed lag.
\<close>

subsection \<open>The HTLC list through its string cursors\<close>

definition filter_for :: "HtlcListParams \<Rightarrow> 32 bytes option \<Rightarrow> HtlcFilter" where
  "filter_for p address =
     \<lparr>f_role = hl_role p, f_states = states_of (hl_state p), f_address = address, f_since_height = hl_since_height p\<rparr>"

text \<open>One request of a client that hands the cursor string back.\<close>

definition client_page ::
  "'b bincode \<Rightarrow> hex \<Rightarrow> base64 \<Rightarrow> 'b db \<Rightarrow> HtlcListParams \<Rightarrow> string option \<Rightarrow> (HtlcRecord list \<times> string option) res" where
  "client_page B H b64 d p cursor =
     bind_res (htlc_list_for B H b64 d (p\<lparr>hl_cursor := cursor\<rparr>)) (\<lambda>r. Inr (hr_htlcs r, hr_next_cursor r))"

lemma decode_opt_cursor:
  assumes "base64_ok b64"
  shows "decode_opt (cursor_decode b64) (map_option (cursor_encode b64) c) = Inr c"
  using cursor_decode_encode [OF assms] by (cases c) (simp_all add: decode_opt_def)

lemma client_page_eq:
  assumes "base64_ok b64" "decode_opt (api_decode_hex32 H) (hl_address p) = Inr address"
  shows "client_page B H b64 d p (map_option (cursor_encode b64) c) =
    bind_res (blocking (list_htlcs B d (filter_for p address) (page_limit (hl_limit p)) c))
      (\<lambda>(rs, nxt). Inr (rs, map_option (cursor_encode b64) nxt))"
proof -
  have "htlc_list_for B H b64 d (p\<lparr>hl_cursor := map_option (cursor_encode b64) c\<rparr>) =
      bind_res (blocking (list_htlcs B d (filter_for p address) (page_limit (hl_limit p)) c))
        (\<lambda>(rs, nxt). Inr \<lparr>hr_htlcs = rs, hr_next_cursor = map_option (cursor_encode b64) nxt\<rparr>)"
    by (simp add: htlc_list_for_def assms(2) decode_opt_cursor [OF assms(1)] filter_for_def Let_def)
  then show ?thesis
    by (simp add: client_page_def bind_res_def split: sum.splits prod.splits)
qed

text \<open>A client that follows the cursor strings of \<open>htlc_list\<close> gets every HTLC that matches its
  filter exactly once, in ascending order, whatever page size it asks for but 0, after at
  most one request more than there are matches.\<close>

theorem htlc_list_client_complete:
  assumes "db_ok B d" "base64_ok b64" "hl_limit p \<noteq> Some 0"
    and "decode_opt (api_decode_hex32 H) (hl_address p) = Inr address"
    and "card (matching (view B d) (filter_for p address)) < n"
  shows "\<exists>all. walk_pages (client_page B H b64 d p) n None = Inr all \<and>
    sorted_wrt (<) (map htlc_order all) \<and> set all = matching (view B d) (filter_for p address)"
proof -
  let ?f = "filter_for p address" and ?l = "page_limit (hl_limit p)"
  note pos = page_limit_pos [OF assms(3)]
  have "walk_pages (client_page B H b64 d p) k (map_option (cursor_encode b64) c) = walk_pages (list_htlcs B d ?f ?l) k c" for k c
  proof (induction k arbitrary: c)
    case (Suc k)
    obtain rs nxt where q: "list_htlcs B d ?f ?l c = Inr (rs, nxt)"
      using list_htlcs_total [OF assms(1) pos] by (metis surj_pair)
    then have "client_page B H b64 d p (map_option (cursor_encode b64) c) = Inr (rs, map_option (cursor_encode b64) nxt)"
      unfolding client_page_eq [OF assms(2,4)] by (simp add: blocking_def)
    with q Suc.IH [of nxt] show ?case by (cases nxt) simp_all
  qed simp
  from this [of n None] show ?thesis
    using list_htlcs_pages_complete [OF assms(1) pos assms(5)] by simp
qed

theorem htlc_list_client_complete_witness:
  "\<exists>d all. apply_block_events sample_bincode swap_block open_all_tables = Inr d \<and>
     walk_pages (client_page sample_bincode sample_hex sample_base64 d (null_list_params\<lparr>hl_limit := Some 1\<rparr>)) 3 None = Inr all \<and>
     set all = {sample_htlc, other_leg}"
proof -
  have "datums_consistent (ev_output_datums swap_block) (view sample_bincode open_all_tables)"
    by (simp add: swap_block_def lock_block_def datums_consistent_def datum_agrees_def)
  then obtain d where d: "apply_block_events sample_bincode swap_block open_all_tables = Inr d" "db_ok sample_bincode d"
    "view sample_bincode d = spec_apply swap_block (view sample_bincode open_all_tables)"
    by (rule simE [OF apply_refines [OF sample_bincode_ok] db_ok_open_all_tables])
  let ?p = "null_list_params\<lparr>hl_limit := Some 1\<rparr>"
  have rows: "av_htlcs (view sample_bincode d) = [(filled 4, 0) \<mapsto> sample_htlc, (filled 20, 0) \<mapsto> other_leg]"
    unfolding d(3) spec_apply_fields
    by (auto simp: fun_eq_iff swap_block_def lock_block_def locked_def written_def other_leg_def sample_htlc_def after_spends_def)
  have "matching (view sample_bincode d) (filter_for ?p None) = {sample_htlc, other_leg}"
    unfolding matching_def rows
    by (auto simp: filter_matches_def filter_for_def null_list_params_def states_of_def sample_htlc_def other_leg_def split: if_splits)
  moreover have "\<exists>all. walk_pages (client_page sample_bincode sample_hex sample_base64 d ?p) 3 None = Inr all \<and>
      sorted_wrt (<) (map htlc_order all) \<and> set all = matching (view sample_bincode d) (filter_for ?p None)"
  proof (rule htlc_list_client_complete [OF d(2) sample_base64_ok])
    show "card (matching (view sample_bincode d) (filter_for ?p None)) < 3"
      unfolding calculation by (simp add: card_insert_if)
  qed (simp_all add: null_list_params_def decode_opt_def)
  ultimately show ?thesis using d(1) by auto
qed

text \<open>C37: \<open>limit: 0\<close> is not an empty page: on a valid store the method then fails with an internal
  error exactly when some HTLC matches the filter, and otherwise answers with no rows.\<close>

theorem htlc_list_zero_limit:
  assumes "db_ok B d" "hl_limit p = Some 0" "hl_cursor p = None"
    and "decode_opt (api_decode_hex32 H) (hl_address p) = Inr address"
  shows "htlc_list_for B H b64 d p =
    (if matching (view B d) (filter_for p address) = {} then Inr \<lparr>hr_htlcs = [], hr_next_cursor = None\<rparr>
     else Inl (Fail (Internal ''blocking task panicked'')))"
proof -
  let ?f = "filter_for p address"
  have eq: "htlc_list_for B H b64 d p =
      bind_res (blocking (list_htlcs B d ?f 0 None))
        (\<lambda>(rs, nxt). Inr \<lparr>hr_htlcs = rs, hr_next_cursor = map_option (cursor_encode b64) nxt\<rparr>)"
    using assms(2-4) by (simp add: htlc_list_for_def decode_opt_def filter_for_def Let_def)
  show ?thesis
  proof (cases "matching (view B d) ?f = {}")
    case True
    obtain rs where "materialize B d ?f = Inr rs" "set (filter (\<lambda>r. filter_matches r ?f) rs) = matching (view B d) ?f"
      using materialize_matching [OF assms(1)] by metis
    then have "list_htlcs B d ?f 0 None = Inr ([], None)"
      using True by (simp add: list_htlcs_def page_asc_def cut_page_def filter_empty_conv)
    then show ?thesis using True eq by (simp add: blocking_def)
  next
    case False
    then have "list_htlcs B d ?f 0 None = Inl Panic" using list_htlcs_zero_limit [OF assms(1)] by blast
    then show ?thesis using False eq by (simp add: blocking_def)
  qed
qed

theorem htlc_list_zero_limit_witness:
  "\<exists>d. apply_block_events sample_bincode lock_block open_all_tables = Inr d \<and>
     htlc_list_for sample_bincode sample_hex sample_base64 d (null_list_params\<lparr>hl_limit := Some 0\<rparr>) =
       Inl (Fail (Internal ''blocking task panicked''))"
proof -
  obtain d where d: "apply_block_events sample_bincode lock_block open_all_tables = Inr d" "db_ok sample_bincode d"
    "view sample_bincode d = spec_apply lock_block (view sample_bincode open_all_tables)"
    by (rule sample_db)
  let ?p = "null_list_params\<lparr>hl_limit := Some 0\<rparr>"
  have "filter_for ?p None = \<lparr>f_role = None, f_states = [], f_address = None, f_since_height = None\<rparr>"
    by (simp add: filter_for_def null_list_params_def states_of_def)
  then have "matching (view sample_bincode d) (filter_for ?p None) \<noteq> {}"
    using sample_all_matching [OF d(3)] by simp
  moreover have "htlc_list_for sample_bincode sample_hex sample_base64 d ?p =
    (if matching (view sample_bincode d) (filter_for ?p None) = {} then Inr \<lparr>hr_htlcs = [], hr_next_cursor = None\<rparr>
     else Inl (Fail (Internal ''blocking task panicked'')))"
    by (rule htlc_list_zero_limit [OF d(2)]) (simp_all add: null_list_params_def decode_opt_def)
  ultimately show ?thesis using d(1) by auto
qed


subsection \<open>The size of a page\<close>

lemma page_limit_le: "page_limit l \<le> 1000"
proof -
  have "min x HTLC_LIST_MAX_LIMIT \<le> HTLC_LIST_MAX_LIMIT" for x by simp
  then have "unat (min x HTLC_LIST_MAX_LIMIT) \<le> unat HTLC_LIST_MAX_LIMIT" for x by (simp add: word_le_nat_alt)
  then show ?thesis by (simp add: page_limit_def HTLC_LIST_MAX_LIMIT_def)
qed

lemma cut_page_length: "cut_page key limit rs = Inr x \<Longrightarrow> length (fst x) \<le> limit"
  by (auto simp: cut_page_def split: if_splits)

lemma page_length: "page_asc key limit c rs = Inr x \<Longrightarrow> length (fst x) \<le> limit" "page_desc key limit c rs = Inr x \<Longrightarrow> length (fst x) \<le> limit"
  unfolding page_asc_def page_desc_def Let_def by (rule cut_page_length, assumption)+

lemma list_lengths:
  "list_htlcs B d f l c = Inr x \<Longrightarrow> length (fst x) \<le> l"
  "SettlementQueries.list_settlements B d a ch since l c' = Inr y \<Longrightarrow> length (fst y) \<le> l"
  "list_address_history B d a since l c' reverse = Inr z \<Longrightarrow> length (fst z) \<le> l"
  by (auto simp: list_htlcs_def list_settlements_def list_address_history_def bind_res_eq_Inr_iff
      dest!: page_length split: if_splits)

lemma blocking_eq_Inr_iff [res_simps]: "blocking r = Inr x \<longleftrightarrow> r = Inr x"
  by (auto simp: blocking_def split: sum.splits failure.splits)

text \<open>No list answer holds more than a thousand rows, whatever the client asks for and whatever the store
  holds, a corrupt one included.\<close>

theorem pages_bounded:
  "(case htlc_list_for B H b64 d p of Inr r \<Rightarrow> length (hr_htlcs r) \<le> 1000 | Inl _ \<Rightarrow> True) \<and>
   (case settlements_for_params B H b64 d p' of Inr r \<Rightarrow> length (lr_settlements r) \<le> 1000 | Inl _ \<Rightarrow> True) \<and>
   (case history_for B H b64 d p'' of Inr r \<Rightarrow> length (hy_history r) \<le> 1000 | Inl _ \<Rightarrow> True)"
proof (intro conjI)
  note le = list_lengths [THEN le_trans, OF _ page_limit_le]
  show "case htlc_list_for B H b64 d p of Inr r \<Rightarrow> length (hr_htlcs r) \<le> 1000 | Inl _ \<Rightarrow> True"
    by (auto simp: htlc_list_for_def bind_res_eq_Inr_iff blocking_eq_Inr_iff Let_def dest!: le(1) split: sum.split)
  show "case settlements_for_params B H b64 d p' of Inr r \<Rightarrow> length (lr_settlements r) \<le> 1000 | Inl _ \<Rightarrow> True"
    by (auto simp: settlements_for_params_def bind_res_eq_Inr_iff blocking_eq_Inr_iff dest!: le(2) split: sum.split)
  show "case history_for B H b64 d p'' of Inr r \<Rightarrow> length (hy_history r) \<le> 1000 | Inl _ \<Rightarrow> True"
    by (auto simp: history_for_def bind_res_eq_Inr_iff blocking_eq_Inr_iff dest!: le(3) split: sum.split)
qed


subsection \<open>The spender of an output\<close>

lemma written_distinct:
  assumes "distinct (map key es)" "e \<in> set es"
  shows "written key (\<lambda>e. e) es (key e) = Some e"
proof -
  have "written key (\<lambda>e. e) es (key e) \<noteq> None" using assms(2) by (simp add: written_eq_None_iff)
  then obtain v where v: "written key (\<lambda>e. e) es (key e) = Some v" by blast
  from written_eq_Some [OF this] have "v \<in> set es" "key v = key e" by auto
  then have "v = e" using assms by (auto simp: distinct_map dest: inj_onD)
  with v show ?thesis by simp
qed

lemma spent_by_for_view:
  assumes "db_ok B (api_db st)" "hex_decode H (gs_tx_id p) = Some (byte_list t)"
  shows "spent_by_for B H st p =
    (case av_spent (view B (api_db st)) (t, gs_output_index p) of
       Some sb \<Rightarrow> Inr (JSpentBy (hex_encode H (byte_list (sb_spending_tx_id sb))) (sb_input_index sb) (sb_block_height sb)
                       ''indexer-cache'')
     | None \<Rightarrow> node_spent_by (api_node st) (gs_tx_id p) (gs_output_index p))"
  using assms(2) by (simp add: spent_by_for_def api_decode_hex32_def cached_spent_by_view [OF assms(1)] blocking_def)

text \<open>C24: an indexed spend is answered from the index: once a block is applied, each output one of its inputs
  spends is reported spent by that transaction, at its input index and the block's height,
  whatever the node says, a stale answer or an error included.\<close>

theorem indexed_spend_answered:
  assumes "bincode_ok B" "hex_ok H" "db_ok B d" "datums_consistent (ev_output_datums ev) (view B d)"
    and "apply_block_events B ev d = Inr d'" "sb \<in> set (ev_spent_by ev)"
    and "distinct (map (\<lambda>sb. (sb_prev_tx_id sb, sb_output_index sb)) (ev_spent_by ev))"
  shows "spent_by_for B H \<lparr>api_db = d', api_node = N, api_tip = tip\<rparr>
      \<lparr>gs_tx_id = hex_encode H (byte_list (sb_prev_tx_id sb)), gs_output_index = sb_output_index sb\<rparr> =
    Inr (JSpentBy (hex_encode H (byte_list (sb_spending_tx_id sb))) (sb_input_index sb) (sb_block_height sb) ''indexer-cache'')"
proof -
  obtain d1 where d1: "apply_block_events B ev d = Inr d1" "db_ok B d1" "view B d1 = spec_apply ev (view B d)"
    by (rule simE [OF apply_refines [OF assms(1)] assms(3,4)])
  with assms(5) have d': "db_ok B d'" "view B d' = spec_apply ev (view B d)" by simp_all
  let ?key = "\<lambda>sb. (sb_prev_tx_id sb, sb_output_index sb)"
  have "written ?key (\<lambda>sb. sb) (ev_spent_by ev) (?key sb) = Some sb"
    by (rule written_distinct [OF assms(7,6)])
  then have "av_spent (view B d') (?key sb) = Some sb"
    unfolding d'(2) spec_apply_eq StoreView.simps by (rule map_add_find_right)
  moreover have "hex_decode H (hex_encode H (byte_list (sb_prev_tx_id sb))) = Some (byte_list (sb_prev_tx_id sb))"
    using assms(2) by (simp add: hex_ok_def)
  ultimately show ?thesis
    using spent_by_for_view [of B "\<lparr>api_db = d', api_node = N, api_tip = tip\<rparr>" H _ "sb_prev_tx_id sb"] d'(1) by simp
qed

definition spending_block :: BlockApplyEvents where
  "spending_block = lock_block\<lparr>ev_spent_by :=
     [\<lparr>sb_prev_tx_id = filled 3, sb_output_index = 0, sb_spending_tx_id = filled 4, sb_input_index = 0, sb_block_height = 5\<rparr>]\<rparr>"

theorem indexed_spend_answered_witness:
  "\<exists>d. apply_block_events sample_bincode spending_block open_all_tables = Inr d \<and>
     spent_by_for sample_bincode sample_hex (sample_api d) \<lparr>gs_tx_id = tx_hex 3, gs_output_index = 0\<rparr> =
       Inr (JSpentBy (tx_hex 4) 0 5 ''indexer-cache'')"
proof -
  have con: "datums_consistent (ev_output_datums spending_block) (view sample_bincode open_all_tables)"
    by (simp add: spending_block_def lock_block_def datums_consistent_def datum_agrees_def)
  then obtain d where d: "apply_block_events sample_bincode spending_block open_all_tables = Inr d"
    by (rule simE [OF apply_refines [OF sample_bincode_ok] db_ok_open_all_tables])
  let ?sb = "\<lparr>sb_prev_tx_id = filled 3, sb_output_index = 0, sb_spending_tx_id = filled 4, sb_input_index = 0, sb_block_height = 5\<rparr>"
  have "spent_by_for sample_bincode sample_hex (sample_api d)
      \<lparr>gs_tx_id = hex_encode sample_hex (byte_list (sb_prev_tx_id ?sb)), gs_output_index = sb_output_index ?sb\<rparr> =
    Inr (JSpentBy (hex_encode sample_hex (byte_list (sb_spending_tx_id ?sb))) (sb_input_index ?sb) (sb_block_height ?sb) ''indexer-cache'')"
    unfolding sample_api_def
    by (rule indexed_spend_answered [OF sample_bincode_ok sample_hex_ok db_ok_open_all_tables con d])
      (simp_all add: spending_block_def)
  then show ?thesis using d by (simp add: tx_hex_def)
qed

text \<open>An output the index does not know is answered by the node, and only an unknown method (code -32601)
  turns into unspent; every other error of the node is the answer's error.\<close>

theorem unindexed_spend_asks_node:
  assumes "db_ok B (api_db st)" "hex_decode H (gs_tx_id p) = Some (byte_list t)"
    and "av_spent (view B (api_db st)) (t, gs_output_index p) = None"
  shows "spent_by_for B H st p =
    (case n_get_output_spent_by (api_node st) (gs_tx_id p) (gs_output_index p) of
       Inr (Spent _ tx vin h) \<Rightarrow> Inr (JSpentBy tx vin h ''node'')
     | Inr (Unspent _) \<Rightarrow> Inr (JUnspent ''node'')
     | Inl e \<Rightarrow> if \<exists>m. e = UpstreamRpc (word_of_int (- 32601)) m then Inr (JUnspent ''fallback-unknown-method'')
               else Inl (Fail e))"
  unfolding spent_by_for_view [OF assms(1,2)] assms(3) node_spent_by_def
  by (auto split: sum.splits SpentByResponse.splits error.splits)

theorem unindexed_spend_asks_node_witness:
  "spent_by_for sample_bincode sample_hex (sample_api open_all_tables) \<lparr>gs_tx_id = tx_hex 3, gs_output_index = 0\<rparr> =
     Inr (JUnspent ''node'')"
proof -
  have "spent_by_for sample_bincode sample_hex (sample_api open_all_tables) \<lparr>gs_tx_id = tx_hex 3, gs_output_index = 0\<rparr> =
    (case n_get_output_spent_by (api_node (sample_api open_all_tables)) (tx_hex 3) 0 of
       Inr (Spent _ tx vin h) \<Rightarrow> Inr (JSpentBy tx vin h ''node'')
     | Inr (Unspent _) \<Rightarrow> Inr (JUnspent ''node'')
     | Inl e \<Rightarrow> if \<exists>m. e = UpstreamRpc (word_of_int (- 32601)) m then Inr (JUnspent ''fallback-unknown-method'')
               else Inl (Fail e))"
    by (rule unindexed_spend_asks_node [of sample_bincode "sample_api open_all_tables" sample_hex
        "\<lparr>gs_tx_id = tx_hex 3, gs_output_index = 0\<rparr>" "filled 3", simplified])
      (simp_all add: sample_api_def tx_hex_def)
  then show ?thesis by (simp add: sample_api_def sample_node_def chain_node_def)
qed


subsection \<open>The average of the contract statistics\<close>

lemma unat_sum_u64:
  fixes f :: "'a \<Rightarrow> u64"
  assumes "finite S" "(\<Sum>s\<in>S. unat (f s)) < 2 ^ 64"
  shows "unat (\<Sum>s\<in>S. f s) = (\<Sum>s\<in>S. unat (f s))"
  using assms
proof (induction S)
  case (insert x S)
  then have "unat (\<Sum>s\<in>S. f s) = (\<Sum>s\<in>S. unat (f s))" by simp
  with insert show ?case by (simp add: unat_word_ariths)
qed simp

lemma mean_bounds:
  fixes f :: "'a \<Rightarrow> nat"
  assumes "finite S" "S \<noteq> {}"
  shows "Min (f ` S) \<le> (\<Sum>s\<in>S. f s) div card S" "(\<Sum>s\<in>S. f s) div card S \<le> Max (f ` S)"
proof -
  have "0 < card S" using assms by (simp add: card_gt_0_iff)
  have "card S * Min (f ` S) \<le> (\<Sum>s\<in>S. f s)"
    using assms by (intro sum_bounded_below [of S "Min (f ` S)" f, simplified]) simp
  then show "Min (f ` S) \<le> (\<Sum>s\<in>S. f s) div card S"
    using \<open>0 < card S\<close> by (simp add: less_eq_div_iff_mult_less_eq mult.commute)
  have "(\<Sum>s\<in>S. f s) \<le> card S * Max (f ` S)"
    using assms by (intro sum_bounded_above [of S f "Max (f ` S)", simplified]) simp
  then have "(\<Sum>s\<in>S. f s) div card S \<le> card S * Max (f ` S) div card S" by (rule div_le_mono)
  then show "(\<Sum>s\<in>S. f s) div card S \<le> Max (f ` S)" using \<open>0 < card S\<close> by simp
qed

text \<open>C34: the average the statistics report lies between the lowest and the highest block height at which a
  settlement of the group was recorded (without overflow of the sum): \<open>avg_settle_blocks\<close> is a
  mean of absolute block heights, not of the blocks a settlement took.\<close>

theorem average_is_a_height:
  assumes "db_ok B d" "SettlementQueries.contract_stats B d address ch = Inr sts" "st \<in> set sts"
    and "S = settlements_of (view B d) address (Some (cs_contract_hash st))"
    and "(\<Sum>s\<in>S. unat (s_block_height s)) < 2 ^ 64" "card S < 2 ^ 64"
  shows "Min (unat ` s_block_height ` S) \<le> unat (sr_avg_settle_blocks (stats_row H st)) \<and>
    unat (sr_avg_settle_blocks (stats_row H st)) \<le> Max (unat ` s_block_height ` S)"
proof -
  have groups: "set (map cs_contract_hash sts) = s_contract_hash ` settlements_of (view B d) address ch"
    "list_all (\<lambda>st. stats_of (settlements_of (view B d) address (Some (cs_contract_hash st))) st) sts"
    using contract_groups [OF assms(1), of address ch] assms(2) by auto
  have fin: "finite S" unfolding assms(4) by (rule finite_settlements_of [OF assms(1)])
  have "cs_contract_hash st \<in> s_contract_hash ` settlements_of (view B d) address ch"
    using assms(3) groups(1) by (metis imageI list.set_map)
  then obtain s where "s \<in> settlements_of (view B d) address ch" "s_contract_hash s = cs_contract_hash st" by auto
  then have "s \<in> S" by (auto simp: assms(4) settlements_of_def)
  then have ne: "S \<noteq> {}" by blast
  have st: "cs_total st = word_of_nat (card S)" "cs_sum_settle_blocks st = (\<Sum>s\<in>S. s_block_height s)"
    using groups(2) assms(3) by (simp_all add: list_all_iff stats_of_def assms(4))
  have total: "unat (cs_total st) = card S" using st(1) assms(6) by (simp add: unat_of_nat)
  then have "cs_total st \<noteq> 0" using fin ne by auto
  then have "unat (sr_avg_settle_blocks (stats_row H st)) = (\<Sum>s\<in>S. unat (s_block_height s)) div card S"
    using unat_sum_u64 [OF fin assms(5)] total st(2) by (simp add: stats_row_def unat_div)
  then show ?thesis
    using mean_bounds [OF fin ne, of "\<lambda>s. unat (s_block_height s)"] by (simp add: image_image)
qed

theorem average_is_a_height_witness:
  "\<exists>d st. apply_blocks sample_bincode [lock_block, claim_block] open_all_tables = Inr d \<and>
     SettlementQueries.contract_stats sample_bincode d (filled 10) None = Inr [st] \<and>
     unat (sr_avg_settle_blocks (stats_row sample_hex st)) = 6"
proof -
  obtain d where d: "apply_blocks sample_bincode [lock_block, claim_block] open_all_tables = Inr d" "db_ok sample_bincode d"
    "av_settlements (view sample_bincode d) = [(filled 8, filled 10, 6, filled 4) \<mapsto> sample_settlement]"
    by (rule sample_settled_db)
  from contract_groups [OF d(2), of "filled 10" None] obtain sts where
    sts: "SettlementQueries.contract_stats sample_bincode d (filled 10) None = Inr sts" "sorted_wrt (<) (map cs_contract_hash sts)"
    "set (map cs_contract_hash sts) = {filled 8}"
    unfolding sample_settlements_of(2) [OF d(3)] by (auto simp: sample_settlement_def)
  have "map cs_contract_hash sts = [filled 8]"
    using sts(2,3) strict_sorted_equal [of "map cs_contract_hash sts" "[filled 8]"] by simp
  then obtain st where st: "sts = [st]" "cs_contract_hash st = filled 8" by auto
  have S: "settlements_of (view sample_bincode d) (filled 10) (Some (cs_contract_hash st)) = {sample_settlement}"
    using sample_settlements_of(1) [OF d(3)] by (simp add: st(2))
  have "Min (unat ` s_block_height ` {sample_settlement}) \<le> unat (sr_avg_settle_blocks (stats_row sample_hex st)) \<and>
    unat (sr_avg_settle_blocks (stats_row sample_hex st)) \<le> Max (unat ` s_block_height ` {sample_settlement})"
    by (rule average_is_a_height [OF d(2) sts(1) _ S [symmetric]]) (simp_all add: st(1) sample_settlement_def)
  then show ?thesis using d(1) sts(1) st(1) by (simp add: sample_settlement_def)
qed


subsection \<open>The status\<close>

lemma stored_len:
  assumes "stored c enc t" "\<And>x y. enc x = enc y \<Longrightarrow> x = y"
  shows "t_len t = card (dom (rows c enc t))"
proof -
  have dom: "k \<in> fset (fmdom t) \<longleftrightarrow> (\<exists>b. t_get t k = Some b)" for k
    by (simp add: t_get_def fmlookup_dom_iff)
  have enc: "encoded c t" and keys: "\<And>k b. t_get t k = Some b \<Longrightarrow> k \<in> range enc"
    using assms(1) by (simp_all add: stored_def keyed_def)
  have at: "(\<exists>b. t_get t k = Some b) \<longleftrightarrow> t_recs c t k \<noteq> None" for k
    using encoded_get_None [OF enc, of k] by (cases "t_get t k") simp_all
  have "fset (fmdom t) = enc ` dom (rows c enc t)"
  proof (intro set_eqI iffI)
    fix k assume "k \<in> fset (fmdom t)"
    then obtain b where b: "t_get t k = Some b" using dom by blast
    from keys [OF this] obtain x where k: "k = enc x" by blast
    have "t_recs c t k \<noteq> None" using b at by blast
    then show "k \<in> enc ` dom (rows c enc t)" by (auto simp: rows_def k)
  next
    fix k assume "k \<in> enc ` dom (rows c enc t)"
    then obtain x where "k = enc x" "t_recs c t (enc x) \<noteq> None" by (auto simp: rows_def)
    then show "k \<in> fset (fmdom t)" using dom at by blast
  qed
  then have "card (fset (fmdom t)) = card (dom (rows c enc t))"
    using assms(2) by (simp add: card_image inj_on_def)
  then show ?thesis by (simp add: t_len_def fcard.rep_eq)
qed

text \<open>C40: the status answer states the checkpoint and the number of stored HTLCs, and its lag, read as a signed
  number, is the difference between the node's tip and the checkpoint, negative when the index
  is ahead of the node it asks (for heights below 2^63). The checkpoint and the count come from
  two reads: when a block is committed between them, the count is that of the later database.\<close>

theorem status_exact:
  assumes "db_ok B d'" "n_get_block_height N = Inr tip" "load_meta B d = Inr m"
    and "unat (tip_height tip) < 2 ^ 63" "unat (m_last_indexed_height m) < 2 ^ 63"
  shows "\<exists>r. status_reads S B H N d d' = to_value S (StatusResponse r) \<and>
    is_last_indexed_height r = m_last_indexed_height m \<and> is_tip_height r = tip_height tip \<and>
    is_full_scan_complete r = m_full_scan_complete m \<and>
    is_indexed_htlc_count r = word_of_nat (card (dom (av_htlcs (view B d')))) \<and>
    sint (is_lag r) = int (unat (tip_height tip)) - int (unat (m_last_indexed_height m))"
proof -
  have "stored (cd_htlc B) outpoint_key (HTLC_FULL d')" "av_htlcs (view B d') = rows (cd_htlc B) outpoint_key (HTLC_FULL d')"
    using assms(1) by (simp_all add: view_simps htlcs_ok_def)
  then have count: "htlc_count d' = word_of_nat (card (dom (av_htlcs (view B d'))))"
    using stored_len [of "cd_htlc B" outpoint_key] by (auto simp: htlc_count_def)
  have "sint (tip_height tip - m_last_indexed_height m) = int (unat (tip_height tip)) - int (unat (m_last_indexed_height m))"
  proof -
    let ?k = "int (unat (tip_height tip)) - int (unat (m_last_indexed_height m))"
    have "sint (word_of_int ?k :: u64) = signed_take_bit 63 ?k" unfolding sint_sbintrunc' by simp
    also have "\<dots> = ?k"
    proof (rule signed_take_bit_int_eq_self)
      have "- (2 ^ 63) \<le> int a - int b \<and> int a - int b < 2 ^ 63" if "a < 2 ^ 63" "b < 2 ^ 63" for a b :: nat
        using that by simp
      from this [OF assms(4,5)] show "- (2 ^ 63) \<le> ?k" "?k < 2 ^ 63" by blast+
    qed
    finally show ?thesis by simp
  qed
  then show ?thesis
    by (intro exI [of _ "\<lparr>is_last_indexed_height = m_last_indexed_height m,
        is_last_indexed_block_id = hex_encode H (byte_list (m_last_indexed_block_id m)), is_tip_height = tip_height tip,
        is_lag = tip_height tip - m_last_indexed_height m, is_indexed_htlc_count = htlc_count d',
        is_full_scan_complete = m_full_scan_complete m, is_started_at = m_started_at m\<rparr>"])
      (simp add: status_reads_def assms(2,3) blocking_def count)
qed

text \<open>Block 5 is committed after the checkpoint was read: the answer counts its HTLC, with no block indexed.\<close>

theorem status_exact_witness:
  "\<exists>d r. apply_block_events sample_bincode lock_block open_all_tables = Inr d \<and>
     status_reads sample_serde sample_bincode sample_hex sample_node open_all_tables d = to_value sample_serde (StatusResponse r) \<and>
     is_last_indexed_height r = 0 \<and> is_indexed_htlc_count r = 1 \<and> sint (is_lag r) = 6"
proof -
  obtain d where d: "apply_block_events sample_bincode lock_block open_all_tables = Inr d" "db_ok sample_bincode d"
    "view sample_bincode d = spec_apply lock_block (view sample_bincode open_all_tables)"
    by (rule sample_db)
  have m: "load_meta sample_bincode open_all_tables = Inr FollowerMeta_default"
    using load_meta_view [of sample_bincode open_all_tables] by simp
  let ?tip = "\<lparr>tip_height = 6, tip_block_id = b_block_id (sample_block 100
    (\<lambda>h. if h = 4 then [tx_hex 3] else if h = 5 then [tx_hex 4] else if h = 6 then [tx_hex 7] else []) 6)\<rparr>"
  have tip: "n_get_block_height sample_node = Inr ?tip" by (simp add: sample_node_def)
  have h: "m_last_indexed_height FollowerMeta_default = 0" by (simp add: FollowerMeta_default_def)
  have view: "av_htlcs (view sample_bincode d) = [(filled 4, 0) \<mapsto> sample_htlc]"
    using sample_view [OF d(3)] by simp
  obtain r where "status_reads sample_serde sample_bincode sample_hex sample_node open_all_tables d =
      to_value sample_serde (StatusResponse r)"
    "is_last_indexed_height r = m_last_indexed_height FollowerMeta_default"
    "is_indexed_htlc_count r = word_of_nat (card (dom (av_htlcs (view sample_bincode d))))"
    "sint (is_lag r) = int (unat (tip_height ?tip)) - int (unat (m_last_indexed_height FollowerMeta_default))"
    using status_exact [OF d(2) tip m, of sample_serde sample_hex] h by auto
  with d(1) show ?thesis unfolding view by (intro exI [of _ d] exI [of _ r]) (simp add: h)
qed


subsection \<open>The registry on the sample crate\<close>

theorem settlements_are_named_witness:
  "\<exists>s t. s \<in> set (settlements_for_settled_htlc sample_exfer (sample_htlc\<lparr>state := Claimed\<rparr>) 6) \<and>
     lookup sample_exfer sample_hex (s_contract_hash s) = Some t \<and> ct_name t = ''Standard HTLC v1''"
proof -
  have "structural sample_exfer" by (simp add: structural_def sample_exfer_def)
  moreover obtain s where s: "s \<in> set (settlements_for_settled_htlc sample_exfer (sample_htlc\<lparr>state := Claimed\<rparr>) 6)"
    by (auto simp: settlements_for_settled_htlc_def Let_def)
  ultimately obtain t where "lookup sample_exfer sample_hex (s_contract_hash s) = Some t"
    "list_all_templates sample_exfer sample_hex = [t]"
    using settlements_are_named [OF _ sample_hex_ok s] by blast
  with s show ?thesis by (intro exI [of _ s] exI [of _ t]) (simp add: list_all_templates_def flip: ContractTemplate.surjective, auto)
qed

end
