(* ===== verification/LivePaging.thy ===== *)
theory LivePaging
  imports ApiAnswers
begin

section \<open>Paging while the follower commits\<close>

text \<open>
  Each request of a paging client reads its own snapshot, and the follower may have committed
  any number of blocks, wipes or checkpoints in between. The locale \<open>live_pages\<close> states
  what one page is, over whatever snapshot it is cut from, and proves what a walk over a
  sequence of snapshots still guarantees. It is interpreted on the HTLC list and on the
  settlement list.
\<close>

subsection \<open>One page of a snapshot\<close>

definition past :: "'k::linorder option \<Rightarrow> 'k \<Rightarrow> bool" where
  "past c k \<longleftrightarrow> (case c of None \<Rightarrow> True | Some c \<Rightarrow> c < k)"

text \<open>The rows of a page lie past the cursor in ascending order; a next cursor is the last row's key,
  and every visible row past the cursor up to it is on the page; without one, all are.\<close>

definition page_of :: "('r \<Rightarrow> 'k::linorder) \<Rightarrow> 'r set \<Rightarrow> 'k option \<Rightarrow> 'r list \<Rightarrow> 'k option \<Rightarrow> bool" where
  "page_of key V c page nxt \<longleftrightarrow>
     sorted_wrt (<) (map key page) \<and> set page \<subseteq> {r \<in> V. past c (key r)} \<and>
     (case nxt of
        None \<Rightarrow> set page = {r \<in> V. past c (key r)}
      | Some k \<Rightarrow> page \<noteq> [] \<and> k = key (last page) \<and> {r \<in> V. past c (key r) \<and> key r \<le> k} \<subseteq> set page)"

lemma page_asc_page_of:
  fixes key :: "'r \<Rightarrow> 'k::linorder"
  assumes "distinct (map key rs)"
  shows "\<exists>page nxt. page_asc key (Suc l) c rs = Inr (page, nxt) \<and> page_of key (set rs) c page nxt"
proof -
  define L where "L = filter (\<lambda>r. past c (key r)) (sort_key key rs)"
  have setL: "set L = {r \<in> set rs. past c (key r)}" by (auto simp: L_def)
  have sorted: "sorted_wrt (<) (map key L)"
    using strict_sort_key [OF assms] by (simp add: L_def sorted_wrt_map sorted_wrt_filter)
  have eq: "page_asc key (Suc l) c rs = Inr (take (Suc l) L,
      if length L > Suc l then Some (key (last (take (Suc l) L))) else None)"
    by (cases c) (simp_all add: page_asc_def L_def past_def cut_page_Inr Let_def)
  have split: "L = take (Suc l) L @ drop (Suc l) L" by simp
  have head: "sorted_wrt (<) (map key (take (Suc l) L))"
    using sorted by (subst (asm) split) (simp only: map_append sorted_wrt_append)
  have before: "key r < key r'" if "r \<in> set (take (Suc l) L)" "r' \<in> set (drop (Suc l) L)" for r r'
    using sorted that by (subst (asm) split) (simp only: map_append sorted_wrt_append, simp)
  have "set L - set (take (Suc l) L) \<subseteq> set (drop (Suc l) L)"
    by (subst split) (auto simp del: append_take_drop_id)
  moreover have "set (take (Suc l) L) \<subseteq> set L" by (rule set_take_subset)
  ultimately have up_to: "{r \<in> set L. key r \<le> key (last (take (Suc l) L))} \<subseteq> set (take (Suc l) L)"
    if "length L > Suc l"
  proof -
    have "last (take (Suc l) L) \<in> set (take (Suc l) L)" using that by (intro last_in_set) auto
    then show ?thesis using before \<open>set L - set (take (Suc l) L) \<subseteq> set (drop (Suc l) L)\<close>
      by (auto simp: not_less [symmetric])
  qed
  have "page_of key (set rs) c (take (Suc l) L) (if length L > Suc l then Some (key (last (take (Suc l) L))) else None)"
  proof (cases "length L > Suc l")
    case True
    then have "take (Suc l) L \<noteq> []" by auto
    with True up_to head setL set_take_subset [of "Suc l" L] show ?thesis by (auto simp: page_of_def)
  next
    case False
    with head setL show ?thesis by (simp add: page_of_def)
  qed
  with eq show ?thesis by blast
qed


subsection \<open>A walk over snapshots\<close>

text \<open>Like \<open>walk_pages\<close>; request \<open>i\<close> is answered from snapshot \<open>i\<close>.\<close>

fun walk_live :: "(nat \<Rightarrow> 'c option \<Rightarrow> ('r list \<times> 'c option) res) \<Rightarrow> nat \<Rightarrow> nat \<Rightarrow> 'c option \<Rightarrow> 'r list res" where
  "walk_live q i 0 c = Inl (Fail (Internal ''out of fuel''))"
| "walk_live q i (Suc n) c =
     bind_res (q i c) (\<lambda>(page, nxt). case nxt of
         None \<Rightarrow> Inr page
       | Some c' \<Rightarrow> bind_res (walk_live q (Suc i) n (Some c')) (\<lambda>rest. Inr (page @ rest)))"

locale live_pages =
  fixes key :: "'r \<Rightarrow> 'k::linorder"
    and valid :: "'d \<Rightarrow> bool"
    and visible :: "'d \<Rightarrow> 'r set"
    and query :: "'d \<Rightarrow> 'k option \<Rightarrow> ('r list \<times> 'k option) res"
  assumes page_law: "valid d \<Longrightarrow> \<exists>page nxt. query d c = Inr (page, nxt) \<and> page_of key (visible d) c page nxt"
begin

text \<open>When the keys that are ever visible are finitely many, the walk ends; it returns no key twice,
  only rows it saw, and every key that is visible in all snapshots.\<close>

lemma live_walk:
  assumes "\<And>j. valid (ds j)" "finite K" "\<And>j. key ` visible (ds j) \<subseteq> K"
    and "card {k \<in> K. past c k} < n"
  shows "\<exists>all. walk_live (\<lambda>j. query (ds j)) i n c = Inr all \<and> sorted_wrt (<) (map key all) \<and>
    (\<forall>r\<in>set all. past c (key r) \<and> (\<exists>j. r \<in> visible (ds j))) \<and>
    (\<forall>k. past c k \<longrightarrow> (\<forall>j. k \<in> key ` visible (ds j)) \<longrightarrow> k \<in> key ` set all)"
  using assms(4)
proof (induction n arbitrary: i c)
  case (Suc n)
  obtain page nxt where q: "query (ds i) c = Inr (page, nxt)" and law: "page_of key (visible (ds i)) c page nxt"
    using page_law [OF assms(1)] by blast
  have page: "sorted_wrt (<) (map key page)" "\<And>r. r \<in> set page \<Longrightarrow> past c (key r) \<and> r \<in> visible (ds i)"
    using law by (auto simp: page_of_def)
  show ?case
  proof (cases nxt)
    case None
    then have "set page = {r \<in> visible (ds i). past c (key r)}" using law by (simp add: page_of_def)
    then have "\<forall>k. past c k \<longrightarrow> (\<forall>j. k \<in> key ` visible (ds j)) \<longrightarrow> k \<in> key ` set page" by force
    with page q None show ?thesis by auto
  next
    case (Some k)
    then have k: "page \<noteq> []" "k = key (last page)" "{r \<in> visible (ds i). past c (key r) \<and> key r \<le> k} \<subseteq> set page"
      using law unfolding page_of_def Some option.case by blast+
    have "last page \<in> set page" using k(1) by simp
    then have kK: "k \<in> K" "past c k" using page(2) assms(3) k(2) by blast+
    have le: "key r \<le> k" if "r \<in> set page" for r
      using that page(1) k(1,2) by (cases page rule: rev_cases) (auto simp: sorted_wrt_append less_imp_le)
    have "{x \<in> K. past (Some k) x} \<subset> {x \<in> K. past c x}"
      using kK by (auto simp: past_def split: option.splits)
    then have "card {x \<in> K. past (Some k) x} < card {x \<in> K. past c x}"
      using assms(2) by (intro psubset_card_mono) simp_all
    then have "card {x \<in> K. past (Some k) x} < n" using Suc.prems by simp
    from Suc.IH [OF this, of "Suc i"] obtain rest where
      rest: "walk_live (\<lambda>j. query (ds j)) (Suc i) n (Some k) = Inr rest" "sorted_wrt (<) (map key rest)"
        "\<And>r. r \<in> set rest \<Longrightarrow> k < key r \<and> (\<exists>j. r \<in> visible (ds j))"
        "\<And>x. k < x \<Longrightarrow> (\<forall>j. x \<in> key ` visible (ds j)) \<Longrightarrow> x \<in> key ` set rest"
      by (auto simp: past_def)
    have "sorted_wrt (<) (map key (page @ rest))"
      using page(1) rest(2,3) le by (auto simp: sorted_wrt_append intro: le_less_trans)
    moreover have "\<forall>r\<in>set (page @ rest). past c (key r) \<and> (\<exists>j. r \<in> visible (ds j))"
      using page(2) rest(3) kK(2) by (auto simp: past_def split: option.splits intro: less_trans)
    moreover have "x \<in> key ` set (page @ rest)" if x: "past c x" "\<forall>j. x \<in> key ` visible (ds j)" for x
    proof (cases "k < x")
      case True
      then show ?thesis using rest(4) x(2) by auto
    next
      case False
      from x(2) obtain r where "r \<in> visible (ds i)" "key r = x" by blast
      then have "r \<in> set page" using k(3) x(1) False by auto
      with \<open>key r = x\<close> show ?thesis by auto
    qed
    ultimately show ?thesis using q Some rest(1) by auto
  qed
qed simp

lemma live_walk_all:
  assumes "\<And>j. valid (ds j)" "finite K" "\<And>j. key ` visible (ds j) \<subseteq> K" "card K < n"
  shows "\<exists>all. walk_live (\<lambda>j. query (ds j)) 0 n None = Inr all \<and> sorted_wrt (<) (map key all) \<and>
    set all \<subseteq> (\<Union>j. visible (ds j)) \<and> (\<Inter>j. key ` visible (ds j)) \<subseteq> key ` set all"
proof -
  have "card {k \<in> K. past None k} < n" using assms(4) by (simp add: past_def)
  from live_walk [where ds = ds, OF assms(1-3) this, of 0] obtain all where
    w: "walk_live (\<lambda>j. query (ds j)) 0 n None = Inr all" "sorted_wrt (<) (map key all)"
    "\<forall>r\<in>set all. past None (key r) \<and> (\<exists>j. r \<in> visible (ds j))"
    "\<forall>k. past None k \<longrightarrow> (\<forall>j. k \<in> key ` visible (ds j)) \<longrightarrow> k \<in> key ` set all"
    by (elim exE conjE)
  from w(3) have "set all \<subseteq> (\<Union>j. visible (ds j))" by blast
  moreover have "(\<Inter>j. key ` visible (ds j)) \<subseteq> key ` set all"
  proof
    fix k assume "k \<in> (\<Inter>j. key ` visible (ds j))"
    then have "\<forall>j. k \<in> key ` visible (ds j)" by (simp only: INT_iff UNIV_I) simp
    then show "k \<in> key ` set all" using w(4) by (simp only: past_def option.case simp_thms)
  qed
  ultimately show ?thesis using w(1,2) by (intro exI conjI)
qed

end


subsection \<open>The HTLC list\<close>

text \<open>The HTLC query with its cursors read as the order they stand for.\<close>

definition htlc_query :: "'b bincode \<Rightarrow> HtlcFilter \<Rightarrow> nat \<Rightarrow> 'b db \<Rightarrow> (u64 \<times> 32 bytes \<times> u32) option \<Rightarrow>
    (HtlcRecord list \<times> (u64 \<times> 32 bytes \<times> u32) option) res" where
  "htlc_query B f limit d c =
     bind_res (list_htlcs B d f limit (map_option cursor_of c)) (\<lambda>(rs, nxt). Inr (rs, map_option cursor_order nxt))"

lemma map_option_cursor [simp]:
  "map_option cursor_order (map_option cursor_of c) = c" "map_option cursor_of (map_option cursor_order cu) = cu"
  by (cases c; simp) (cases cu; simp)

lemma htlc_query_page:
  assumes "db_ok B d"
  shows "\<exists>page nxt. htlc_query B f (Suc l) d c = Inr (page, nxt) \<and> page_of htlc_order (matching (view B d) f) c page nxt"
proof -
  obtain rs where rs: "materialize B d f = Inr rs" "distinct (map htlc_order (filter (\<lambda>r. filter_matches r f) rs))"
    "set (filter (\<lambda>r. filter_matches r f) rs) = matching (view B d) f"
    by (rule materialize_matching [OF assms])
  obtain page nxt where "page_asc htlc_order (Suc l) c (filter (\<lambda>r. filter_matches r f) rs) = Inr (page, nxt)"
    "page_of htlc_order (matching (view B d) f) c page nxt"
    using page_asc_page_of [OF rs(2), of l c] unfolding rs(3) by blast
  then show ?thesis by (simp add: htlc_query_def list_htlcs_def rs(1))
qed

interpretation live_htlcs: live_pages htlc_order "db_ok B" "\<lambda>d. matching (view B d) f" "htlc_query B f (Suc l)" for B f l
  by unfold_locales (rule htlc_query_page)

text \<open>Through the cursor strings the walk is the same.\<close>

lemma walk_live_client:
  assumes "\<And>j. db_ok B (ds j)" "base64_ok b64" "hl_limit p \<noteq> Some 0"
    and "decode_opt (api_decode_hex32 H) (hl_address p) = Inr address" "page_limit (hl_limit p) = Suc l"
  shows "walk_live (\<lambda>j. client_page B H b64 (ds j) p) i n (map_option (cursor_encode b64) (map_option cursor_of c)) =
    walk_live (\<lambda>j. htlc_query B (filter_for p address) (Suc l) (ds j)) i n c"
proof (induction n arbitrary: i c)
  case (Suc n)
  obtain rs nxt where q: "list_htlcs B (ds i) (filter_for p address) (Suc l) (map_option cursor_of c) = Inr (rs, nxt)"
    using list_htlcs_total [OF assms(1), of "Suc l"] by (metis surj_pair zero_less_Suc)
  then have "client_page B H b64 (ds i) p (map_option (cursor_encode b64) (map_option cursor_of c)) =
      Inr (rs, map_option (cursor_encode b64) nxt)"
    unfolding client_page_eq [OF assms(2,4)] by (simp add: blocking_def assms(5))
  moreover have "htlc_query B (filter_for p address) (Suc l) (ds i) c = Inr (rs, map_option cursor_order nxt)"
    using q by (simp add: htlc_query_def)
  ultimately show ?case
    using Suc.IH [of "Suc i" "map_option cursor_order nxt"] by (cases nxt) simp_all
qed simp

text \<open>C11: paging through \<open>htlc_list\<close> while the index changes: let every request find another valid database
  (blocks applied, HTLCs settled, blocks rolled back in between). As long as the positions of
  the HTLCs that ever match are finitely many, the client's walk ends, and it returns no
  position twice, only records some database held, and every HTLC that matched throughout.
  With one database this is exactly the list of its matches.\<close>

theorem htlc_list_live_complete:
  assumes "\<And>j. db_ok B (ds j)" "base64_ok b64" "hl_limit p \<noteq> Some 0"
    and "decode_opt (api_decode_hex32 H) (hl_address p) = Inr address"
    and "finite K" "\<And>j. htlc_order ` matching (view B (ds j)) (filter_for p address) \<subseteq> K" "card K < n"
  shows "\<exists>all. walk_live (\<lambda>j. client_page B H b64 (ds j) p) 0 n None = Inr all \<and>
    sorted_wrt (<) (map htlc_order all) \<and>
    set all \<subseteq> (\<Union>j. matching (view B (ds j)) (filter_for p address)) \<and>
    (\<Inter>j. htlc_order ` matching (view B (ds j)) (filter_for p address)) \<subseteq> htlc_order ` set all"
proof -
  obtain l where l: "page_limit (hl_limit p) = Suc l"
    using page_limit_pos [OF assms(3)] gr0_conv_Suc by blast
  have "walk_live (\<lambda>j. client_page B H b64 (ds j) p) 0 n None =
      walk_live (\<lambda>j. htlc_query B (filter_for p address) (Suc l) (ds j)) 0 n None"
    using walk_live_client [OF assms(1-4) l, where c = None] by simp
  with live_htlcs.live_walk_all [where ds = ds, OF assms(1,5-7)] show ?thesis by simp
qed

text \<open>The two HTLCs of a swap, one of them claimed between the first and the second request.\<close>

lemma swap_databases:
  obtains d d' where "db_ok sample_bincode d" "db_ok sample_bincode d'"
    "apply_block_events sample_bincode swap_block open_all_tables = Inr d" "apply_block_events sample_bincode claim_block d = Inr d'"
    "av_htlcs (view sample_bincode d) = [(filled 4, 0) \<mapsto> sample_htlc, (filled 20, 0) \<mapsto> other_leg]"
    "av_htlcs (view sample_bincode d') =
      [(filled 4, 0) \<mapsto> settle_record (sp_arm sample_spend) 6 sample_htlc, (filled 20, 0) \<mapsto> other_leg]"
proof -
  have "datums_consistent (ev_output_datums swap_block) (view sample_bincode open_all_tables)"
    by (simp add: swap_block_def lock_block_def datums_consistent_def datum_agrees_def)
  then obtain d where d: "apply_block_events sample_bincode swap_block open_all_tables = Inr d" "db_ok sample_bincode d"
    "view sample_bincode d = spec_apply swap_block (view sample_bincode open_all_tables)"
    by (rule simE [OF apply_refines [OF sample_bincode_ok] db_ok_open_all_tables])
  have rows: "av_htlcs (view sample_bincode d) = [(filled 4, 0) \<mapsto> sample_htlc, (filled 20, 0) \<mapsto> other_leg]"
    unfolding d(3) spec_apply_fields
    by (auto simp: fun_eq_iff swap_block_def lock_block_def locked_def written_def other_leg_def sample_htlc_def after_spends_def)
  have "datums_consistent (ev_output_datums claim_block) (view sample_bincode d)"
    by (simp add: claim_block_def datums_consistent_def)
  then obtain d' where d': "apply_block_events sample_bincode claim_block d = Inr d'" "db_ok sample_bincode d'"
    "view sample_bincode d' = spec_apply claim_block (view sample_bincode d)"
    by (rule simE [OF apply_refines [OF sample_bincode_ok] d(2)])
  have "av_htlcs (view sample_bincode d') =
      [(filled 4, 0) \<mapsto> settle_record (sp_arm sample_spend) 6 sample_htlc, (filled 20, 0) \<mapsto> other_leg]"
    unfolding d'(3) spec_apply_fields rows
    by (auto simp: fun_eq_iff claim_block_def locked_def written_def other_leg_def sample_htlc_def after_spends_def
        spend_hits_def sample_spend_def settled_def)
  with d d' rows that show ?thesis by blast
qed

theorem htlc_list_live_complete_witness:
  "\<exists>d d' all. apply_block_events sample_bincode swap_block open_all_tables = Inr d \<and>
     apply_block_events sample_bincode claim_block d = Inr d' \<and>
     walk_live (\<lambda>j. client_page sample_bincode sample_hex sample_base64 (if j = 0 then d else d')
       (null_list_params\<lparr>hl_limit := Some 1\<rparr>)) 0 3 None = Inr all \<and>
     htlc_order ` set all = {(5, filled 4, 0), (5, filled 20, 0)}"
proof -
  let ?p = "null_list_params\<lparr>hl_limit := Some 1\<rparr>" and ?K = "{(5, filled 4, 0), (5, filled 20, 0)} :: (u64 \<times> 32 bytes \<times> u32) set"
  obtain d d' where d: "db_ok sample_bincode d" "db_ok sample_bincode d'"
    "apply_block_events sample_bincode swap_block open_all_tables = Inr d" "apply_block_events sample_bincode claim_block d = Inr d'"
    "av_htlcs (view sample_bincode d) = [(filled 4, 0) \<mapsto> sample_htlc, (filled 20, 0) \<mapsto> other_leg]"
    "av_htlcs (view sample_bincode d') =
      [(filled 4, 0) \<mapsto> settle_record (sp_arm sample_spend) 6 sample_htlc, (filled 20, 0) \<mapsto> other_leg]"
    by (rule swap_databases)
  have all: "filter_matches r (filter_for ?p None)" for r
    by (simp add: filter_matches_def filter_for_def null_list_params_def states_of_def)
  have order: "htlc_order sample_htlc = (5, filled 4, 0)" "htlc_order other_leg = (5, filled 20, 0)"
    "htlc_order (settle_record (sp_arm sample_spend) 6 sample_htlc) = (5, filled 4, 0)"
    "lock_tx_id other_leg = filled 20" "output_index other_leg = 0" "lock_tx_id sample_htlc = filled 4" "output_index sample_htlc = 0"
    by (simp_all add: htlc_order_def lock_height_or_max_def sample_htlc_def other_leg_def sample_spend_def settle_record_def)
  have orders: "lock_tx_id (settle_record arm h r) = lock_tx_id r" "output_index (settle_record arm h r) = output_index r" for arm h r
    by (simp_all add: settle_record_def split: HtlcSpendArm.split)
  have m: "matching (view sample_bincode d) (filter_for ?p None) = {sample_htlc, other_leg}"
    "matching (view sample_bincode d') (filter_for ?p None) = {settle_record (sp_arm sample_spend) 6 sample_htlc, other_leg}"
    unfolding matching_def d(5,6) by (auto simp: all order orders split: if_splits)
  have keys: "htlc_order ` matching (view sample_bincode (if j = 0 then d else d')) (filter_for ?p None) = ?K" for j :: nat
    by (simp add: m order)
  have ok: "db_ok sample_bincode (if j = 0 then d else d')" for j :: nat
    using d(1,2) by simp
  have "\<exists>all. walk_live (\<lambda>j. client_page sample_bincode sample_hex sample_base64 (if j = 0 then d else d') ?p) 0 3 None = Inr all \<and>
    sorted_wrt (<) (map htlc_order all) \<and>
    set all \<subseteq> (\<Union>j. matching (view sample_bincode (if j = (0 :: nat) then d else d')) (filter_for ?p None)) \<and>
    (\<Inter>j. htlc_order ` matching (view sample_bincode (if j = (0 :: nat) then d else d')) (filter_for ?p None)) \<subseteq> htlc_order ` set all"
  proof (rule htlc_list_live_complete [OF ok sample_base64_ok, where K = ?K])
    show "card ?K < 3" by (simp add: card_insert_if)
    show "htlc_order ` matching (view sample_bincode (if j = 0 then d else d')) (filter_for ?p None) \<subseteq> ?K" for j :: nat
      by (simp only: keys order_refl)
  qed (simp_all add: null_list_params_def decode_opt_def)
  then obtain all where w: "walk_live (\<lambda>j. client_page sample_bincode sample_hex sample_base64 (if j = 0 then d else d') ?p) 0 3 None = Inr all"
    "set all \<subseteq> (\<Union>j. matching (view sample_bincode (if j = (0 :: nat) then d else d')) (filter_for ?p None))"
    "?K \<subseteq> htlc_order ` set all"
    unfolding keys by blast
  have "htlc_order ` set all \<subseteq> (\<Union>j. htlc_order ` matching (view sample_bincode (if j = (0 :: nat) then d else d')) (filter_for ?p None))"
    using image_mono [OF w(2), of htlc_order] unfolding image_UN .
  then have "htlc_order ` set all = ?K" using w(3) unfolding keys by blast
  with w(1) d(3,4) show ?thesis by blast
qed


subsection \<open>The settlement list\<close>

definition settlement_query :: "'b bincode \<Rightarrow> 32 bytes \<Rightarrow> 32 bytes \<Rightarrow> u64 option \<Rightarrow> nat \<Rightarrow> 'b db \<Rightarrow> (u64 \<times> 32 bytes) option \<Rightarrow>
    (SettlementRecord list \<times> (u64 \<times> 32 bytes) option) res" where
  "settlement_query B address ch since limit d c =
     bind_res (list_settlements B d address (Some ch) since limit (map_option settlement_cursor_of c))
       (\<lambda>(ss, nxt). Inr (ss, map_option settlement_cursor_order nxt))"

definition settlements_since :: "StoreView \<Rightarrow> 32 bytes \<Rightarrow> 32 bytes \<Rightarrow> u64 option \<Rightarrow> SettlementRecord set" where
  "settlements_since A address ch since =
     {s. s \<in> settlements_of A address (Some ch) \<and> (case since of None \<Rightarrow> True | Some h \<Rightarrow> h \<le> s_block_height s)}"

lemma settlement_query_page:
  assumes "db_ok B d"
  shows "\<exists>page nxt. settlement_query B address ch since (Suc l) d c = Inr (page, nxt) \<and>
    page_of settlement_order (settlements_since (view B d) address ch since) c page nxt"
proof -
  obtain ss where ss: "settlement_rows B d address (Some ch) since = Inr ss" "distinct (map settlement_order ss)"
    "set ss = settlements_since (view B d) address ch since"
    unfolding settlements_since_def by (rule settlement_rows_distinct [OF assms])
  have cursors: "map_option settlement_cursor_order (map_option settlement_cursor_of k) = k" for k by (cases k) simp_all
  obtain page nxt where "page_asc settlement_order (Suc l) c ss = Inr (page, nxt)"
    "page_of settlement_order (settlements_since (view B d) address ch since) c page nxt"
    using page_asc_page_of [OF ss(2), of l c] unfolding ss(3) by blast
  then show ?thesis by (simp add: settlement_query_def list_settlements_def ss(1) cursors)
qed

interpretation live_settlements: live_pages settlement_order "db_ok B"
  "\<lambda>d. settlements_since (view B d) address ch since" "settlement_query B address ch since (Suc l)" for B address ch since l
  by unfold_locales (rule settlement_query_page)

text \<open>The settlements of one contract give the same guarantee to a client that pages while blocks arrive.\<close>

theorem list_settlements_live_complete:
  assumes "\<And>j. db_ok B (ds j)" "finite K" "\<And>j. settlement_order ` settlements_since (view B (ds j)) address ch since \<subseteq> K" "card K < n"
  shows "\<exists>all. walk_live (\<lambda>j. settlement_query B address ch since (Suc l) (ds j)) 0 n None = Inr all \<and>
    sorted_wrt (<) (map settlement_order all) \<and> set all \<subseteq> (\<Union>j. settlements_since (view B (ds j)) address ch since) \<and>
    (\<Inter>j. settlement_order ` settlements_since (view B (ds j)) address ch since) \<subseteq> settlement_order ` set all"
  using assms by (rule live_settlements.live_walk_all)

end
