(* ===== verification/Schema.thy ===== *)
theory Schema
  imports FollowerWitness
begin

section \<open>The stored bytes are typed (\<^verbatim>\<open>src/db/schema.rs\<close>)\<close>

text \<open>
  The tables hold raw bytes; that they are bytes of the right shape is a property of the
  writers. Here the schema's comments as a predicate: the width of the keys of each table, the
  record its values decode to, and the primary row that each key of an index names. It holds
  of every database the follower builds.
\<close>

definition key_width :: "nat \<Rightarrow> (u8 list, 'v) table \<Rightarrow> bool" where
  "key_width n t \<longleftrightarrow> (\<forall>k. t_get t k \<noteq> None \<longrightarrow> length k = n)"

definition decodable :: "('x, 'b) codec \<Rightarrow> ('k, 'b) table \<Rightarrow> bool" where
  "decodable c t \<longleftrightarrow> (\<forall>k b. t_get t k = Some b \<longrightarrow> de c b \<noteq> None)"

definition names_row :: "(u8 list \<Rightarrow> u8 list) \<Rightarrow> (u8 list, unit) table \<Rightarrow> (u8 list, 'b) table \<Rightarrow> bool" where
  "names_row pk t full \<longleftrightarrow> (\<forall>k. t_get t k \<noteq> None \<longrightarrow> t_get full (pk k) \<noteq> None)"

text \<open>The key of the settlement by contract that a key by address stands for: its two hashes swapped.\<close>

definition swap_hashes :: "u8 list \<Rightarrow> u8 list" where
  "swap_hashes k = subslice 32 64 k @ take 32 k @ drop 64 k"

definition schema_ok :: "'b bincode \<Rightarrow> 'b db \<Rightarrow> bool" where
  "schema_ok B d \<longleftrightarrow>
     key_width 8 (BLOCK_META d) \<and> key_width 73 (TX_BY_ADDRESS d) \<and> key_width 36 (HTLC_FULL d) \<and>
     key_width 76 (HTLC_BY_SENDER d) \<and> key_width 76 (HTLC_BY_RECEIVER d) \<and> key_width 68 (HTLC_BY_HASHLOCK d) \<and>
     key_width 45 (HTLC_BY_STATE d) \<and> key_width 104 (SETTLEMENT_BY_CONTRACT d) \<and>
     key_width 104 (SETTLEMENT_BY_ADDRESS d) \<and> key_width 36 (SPENT_BY d) \<and> key_width 36 (OUTPUT_DATUM d) \<and>
     key_width 52 (DATUM_BY_QUOTEID d) \<and>
     decodable (cd_meta B) (CHAIN_TIP d) \<and> decodable (cd_block B) (BLOCK_META d) \<and>
     decodable (cd_activity B) (TX_BY_ADDRESS d) \<and> decodable (cd_htlc B) (HTLC_FULL d) \<and>
     decodable (cd_settlement B) (SETTLEMENT_BY_CONTRACT d) \<and> decodable (cd_spent B) (SPENT_BY d) \<and>
     decodable (cd_datum B) (OUTPUT_DATUM d) \<and>
     names_row (drop 40) (HTLC_BY_SENDER d) (HTLC_FULL d) \<and> names_row (drop 40) (HTLC_BY_RECEIVER d) (HTLC_FULL d) \<and>
     names_row (drop 32) (HTLC_BY_HASHLOCK d) (HTLC_FULL d) \<and> names_row (drop 9) (HTLC_BY_STATE d) (HTLC_FULL d) \<and>
     names_row swap_hashes (SETTLEMENT_BY_ADDRESS d) (SETTLEMENT_BY_CONTRACT d) \<and>
     names_row (drop 16) (DATUM_BY_QUOTEID d) (OUTPUT_DATUM d)"

text \<open>A primary table that holds encoded rows, and an index over its rows.\<close>

lemma stored_decodable: "stored c enc t \<Longrightarrow> decodable c t"
  using encodedD [of c t] by (fastforce simp: stored_def decodable_def)

lemma stored_key_width: "stored c enc t \<Longrightarrow> (\<And>x. length (enc x) = n) \<Longrightarrow> key_width n t"
  by (fastforce simp: stored_def keyed_def key_width_def)

lemma indexed_typed:
  assumes "indexed idx t (rows c enc full)"
  shows "(\<And>x r k. idx x r = Some k \<Longrightarrow> length k = n) \<Longrightarrow> key_width n t"
    and "(\<And>x r k. rows c enc full x = Some r \<Longrightarrow> idx x r = Some k \<Longrightarrow> pk k = enc x) \<Longrightarrow> names_row pk t full"
proof -
  have entry: "\<exists>x r. rows c enc full x = Some r \<and> idx x r = Some k" if "t_get t k \<noteq> None" for k
    using that indexedD [OF assms, of k] by auto
  show "key_width n t" if "\<And>x r k. idx x r = Some k \<Longrightarrow> length k = n"
    using entry that unfolding key_width_def by blast
  assume pk: "\<And>x r k. rows c enc full x = Some r \<Longrightarrow> idx x r = Some k \<Longrightarrow> pk k = enc x"
  show "names_row pk t full"
    unfolding names_row_def
  proof (intro allI impI)
    fix k assume "t_get t k \<noteq> None"
    then obtain x r where x: "rows c enc full x = Some r" "idx x r = Some k" using entry by blast
    from x(1) have "t_get full (enc x) \<noteq> None" by (auto simp: rows_def t_recs_def bind_eq_Some_conv)
    with pk [OF x] show "t_get full (pk k) \<noteq> None" by simp
  qed
qed

text \<open>The primary key inside an index key.\<close>

lemma index_key_tails:
  "sender_idx x r = Some k \<Longrightarrow> drop 40 k = outpoint_key x \<and> length k = 76"
  "receiver_idx x r = Some k \<Longrightarrow> drop 40 k = outpoint_key x \<and> length k = 76"
  "hashlock_idx x r = Some k \<Longrightarrow> drop 32 k = outpoint_key x \<and> length k = 68"
  "state_idx x r = Some k \<Longrightarrow> drop 9 k = outpoint_key x \<and> length k = 45"
  "observer_idx y q = Some k \<Longrightarrow> swap_hashes k = settlement_row_key y \<and> length k = 104"
  "quote_idx x s = Some k \<Longrightarrow> drop 16 k = outpoint_key x \<and> length k = 52"
proof -
  obtain t i where x: "x = (t, i)" by (cases x)
  obtain c a h u where y: "y = (c, a, h, u)" by (cases y)
  show "sender_idx x r = Some k \<Longrightarrow> drop 40 k = outpoint_key x \<and> length k = 76"
    "receiver_idx x r = Some k \<Longrightarrow> drop 40 k = outpoint_key x \<and> length k = 76"
    "hashlock_idx x r = Some k \<Longrightarrow> drop 32 k = outpoint_key x \<and> length k = 68"
    "state_idx x r = Some k \<Longrightarrow> drop 9 k = outpoint_key x \<and> length k = 45"
    by (auto simp: x sender_key_def receiver_key_def composite_key_address_height_def hashlock_key_def state_key_def
        htlc_primary_key_def)
  show "observer_idx y q = Some k \<Longrightarrow> swap_hashes k = settlement_row_key y \<and> length k = 104"
    by (auto simp: y settlement_by_address_key_def settlement_by_contract_key_def swap_hashes_def subslice_def)
  show "quote_idx x s = Some k \<Longrightarrow> drop 16 k = outpoint_key x \<and> length k = 52"
    by (auto simp: x datum_by_quoteid_key_def htlc_primary_key_def)
qed

lemma db_ok_schema:
  assumes "db_ok B d"
  shows "schema_ok B d"
proof -
  note ok = assms [unfolded view_simps htlcs_ok_def settlements_ok_def datums_ok_def spent_ok_def]
  have lens: "\<And>h. length (be64 h) = 8" "\<And>a. length (activity_row_key a) = 73" "\<And>x. length (outpoint_key x) = 36"
    "\<And>y. length (settlement_row_key y) = 104"
    by (simp_all split: prod.split)
  have s: "stored (cd_meta B) (\<lambda>_ :: unit. CHAIN_TIP_KEY) (CHAIN_TIP d)" "stored (cd_block B) be64 (BLOCK_META d)"
    "stored (cd_activity B) activity_row_key (TX_BY_ADDRESS d)" "stored (cd_htlc B) outpoint_key (HTLC_FULL d)"
    "stored (cd_settlement B) settlement_row_key (SETTLEMENT_BY_CONTRACT d)" "stored (cd_spent B) outpoint_key (SPENT_BY d)"
    "stored (cd_datum B) outpoint_key (OUTPUT_DATUM d)"
    using ok by simp_all
  have i: "indexed sender_idx (HTLC_BY_SENDER d) (rows (cd_htlc B) outpoint_key (HTLC_FULL d))"
    "indexed receiver_idx (HTLC_BY_RECEIVER d) (rows (cd_htlc B) outpoint_key (HTLC_FULL d))"
    "indexed hashlock_idx (HTLC_BY_HASHLOCK d) (rows (cd_htlc B) outpoint_key (HTLC_FULL d))"
    "indexed state_idx (HTLC_BY_STATE d) (rows (cd_htlc B) outpoint_key (HTLC_FULL d))"
    "indexed observer_idx (SETTLEMENT_BY_ADDRESS d) (rows (cd_settlement B) settlement_row_key (SETTLEMENT_BY_CONTRACT d))"
    "indexed quote_idx (DATUM_BY_QUOTEID d) (rows (cd_datum B) outpoint_key (OUTPUT_DATUM d))"
    using ok by simp_all
  note tails = index_key_tails [THEN conjunct1] and widths = index_key_tails [THEN conjunct2]
  have full: "key_width 8 (BLOCK_META d)" "key_width 73 (TX_BY_ADDRESS d)" "key_width 36 (HTLC_FULL d)"
    "key_width 104 (SETTLEMENT_BY_CONTRACT d)" "key_width 36 (SPENT_BY d)" "key_width 36 (OUTPUT_DATUM d)"
    by (fact stored_key_width [OF s(2) lens(1)] stored_key_width [OF s(3) lens(2)] stored_key_width [OF s(4) lens(3)]
        stored_key_width [OF s(5) lens(4)] stored_key_width [OF s(6) lens(3)] stored_key_width [OF s(7) lens(3)])+
  have idx: "key_width 76 (HTLC_BY_SENDER d)" "key_width 76 (HTLC_BY_RECEIVER d)" "key_width 68 (HTLC_BY_HASHLOCK d)"
    "key_width 45 (HTLC_BY_STATE d)" "key_width 104 (SETTLEMENT_BY_ADDRESS d)" "key_width 52 (DATUM_BY_QUOTEID d)"
    by (rule indexed_typed(1), rule i, erule widths)+
  have names: "names_row (drop 40) (HTLC_BY_SENDER d) (HTLC_FULL d)" "names_row (drop 40) (HTLC_BY_RECEIVER d) (HTLC_FULL d)"
    "names_row (drop 32) (HTLC_BY_HASHLOCK d) (HTLC_FULL d)" "names_row (drop 9) (HTLC_BY_STATE d) (HTLC_FULL d)"
    "names_row swap_hashes (SETTLEMENT_BY_ADDRESS d) (SETTLEMENT_BY_CONTRACT d)"
    "names_row (drop 16) (DATUM_BY_QUOTEID d) (OUTPUT_DATUM d)"
    by (rule indexed_typed(2), rule i, erule tails)+
  show ?thesis
    by (simp add: schema_ok_def full idx names s [THEN stored_decodable])
qed

text \<open>C14: every byte string the follower stores has its declared type: whatever the node answers and redb
  refuses over any sequence of polls from an empty database, every key of every table has the
  width of its schema, every value decodes as the record of its table, and every key of an
  index contains the primary key of a stored row. So no scan of the code ever skips a key for
  its width, and no read of it fails to decode or to find the row.\<close>

theorem stored_bytes_typed:
  assumes "bincode_ok B" "exfer_ok E" "fs_db s = open_all_tables"
  shows "schema_ok B (fs_db (run_polls B E H polls s))"
proof -
  have "store_ok B E (fs_db s)" by (simp add: assms(3))
  from run_polls_store_ok [OF assms(1,2) this] show ?thesis by (simp add: store_ok_def db_ok_schema)
qed

theorem stored_bytes_typed_witness:
  "schema_ok sample_bincode (fs_db (run_polls sample_bincode sample_exfer sample_hex
     [(steady sample_node, no_faults, 7), (steady fork_node, no_faults, 8)] \<lparr>fs_db = open_all_tables, fs_tip = 0\<rparr>))"
  by (rule stored_bytes_typed [OF sample_bincode_ok sample_exfer_ok]) simp

end
