(* ===== verification/Server.thy ===== *)
theory Server
  imports ApiProps
begin

section \<open>Configuration and HTTP server (\<^verbatim>\<open>src/config.rs\<close>, \<^verbatim>\<open>src/server.rs\<close>)\<close>

text \<open>
  The start-up sequence with its bind check, the liveness probe, and the JSON-RPC entry point:
  bearer authentication, decoding of the body, single requests and batches. The HTTP
  framework is third-party: the header map with its string view and the constant-time
  comparison are the parameters \<open>M\<close> and \<open>ct\<close>; envelopes are typed replies,
  as their conversion to JSON cannot fail.
\<close>

subsection \<open>Configuration\<close>

datatype IpAddr = V4 u8 u8 u8 u8 | V6 "128 word"

record Config =
  cfg_bind_ip :: IpAddr
  cfg_bind_port :: "16 word"
  cfg_node_rpc :: string
  cfg_datadir :: string
  cfg_auth_token :: "string option"
  cfg_poll_secs :: u64
  cfg_upstream_timeout_secs :: u64
  cfg_no_follower :: bool
  cfg_allow_public_bind :: bool
  cfg_tls :: bool

text \<open>The configuration when neither a flag nor an environment variable is given.\<close>

definition default_config :: Config where
  "default_config =
     \<lparr>cfg_bind_ip = V4 127 0 0 1, cfg_bind_port = 9335, cfg_node_rpc = ''http://127.0.0.1:9334'', cfg_datadir = ''data'',
      cfg_auth_token = None, cfg_poll_secs = 2, cfg_upstream_timeout_secs = 30, cfg_no_follower = False,
      cfg_allow_public_bind = False, cfg_tls = False\<rparr>"

text \<open>The standard library's address tests.\<close>

fun is_loopback :: "IpAddr \<Rightarrow> bool" where
  "is_loopback (V4 a b c d) = (a = 127)"
| "is_loopback (V6 w) = (w = 1)"

definition v4_is_private :: "u8 \<Rightarrow> u8 \<Rightarrow> bool" where
  "v4_is_private a b \<longleftrightarrow> a = 10 \<or> (a = 172 \<and> 16 \<le> b \<and> b \<le> 31) \<or> (a = 192 \<and> b = 168)"

definition v4_is_link_local :: "u8 \<Rightarrow> u8 \<Rightarrow> bool" where
  "v4_is_link_local a b \<longleftrightarrow> a = 169 \<and> b = 254"

fun is_private :: "IpAddr \<Rightarrow> bool" where
  "is_private (V4 a b c d) = (v4_is_private a b \<or> v4_is_link_local a b)"
| "is_private (V6 w) = False"

definition check_bind_safe :: "Config \<Rightarrow> string + unit" where
  "check_bind_safe cfg =
     (if is_loopback (cfg_bind_ip cfg) then Inr ()
      else if is_private (cfg_bind_ip cfg) then Inr ()
      else if cfg_tls cfg then Inr ()
      else if \<not> cfg_allow_public_bind cfg then Inl ''refusing to bind publicly without --tls''
      else Inr ())"


subsection \<open>Start-up\<close>

record 'b AppState =
  app_api :: "'b ApiState"
  app_token :: "string option"

text \<open>
  Everything \<^verbatim>\<open>run\<close> decides before it listens: the bind check, the database (\<open>file\<close> is
  the one the data directory holds), the node client, and whether the follower runs. A tick
  of the follower sees the node as \<open>node_view\<close> of the client.
\<close>

definition run_setup ::
  "'b bincode \<Rightarrow> (NodeClient \<Rightarrow> node) \<Rightarrow> Config \<Rightarrow> 'b db option \<Rightarrow> string + 'b AppState \<times> 'b FollowerState option" where
  "run_setup B node_view cfg file =
     (case check_bind_safe cfg of
        Inl e \<Rightarrow> Inl e
      | Inr _ \<Rightarrow>
          (case db_open B file of
             Inl _ \<Rightarrow> Inl ''database''
           | Inr d \<Rightarrow>
               (case node_client_new (cfg_node_rpc cfg) of
                  Inl _ \<Rightarrow> Inl ''node client''
                | Inr client \<Rightarrow>
                    (let follower = follower_new B d
                     in Inr (\<lparr>app_api = \<lparr>api_db = d, api_node = node_view client, api_tip = fs_tip follower\<rparr>,
                              app_token = cfg_auth_token cfg\<rparr>,
                             if cfg_no_follower cfg then None else Some follower)))))"


subsection \<open>Replies\<close>

text \<open>The two envelopes, and the HTTP responses: a status with a reply, a batch or the probe's fields.\<close>

datatype 'j reply =
    ErrorReply "'j option" int string "(u64 \<times> u64) option"
  | ResultReply 'j "'j option"

datatype 'j http_response =
    SingleResponse nat "'j reply"
  | BatchResponse nat "'j reply list"
  | HealthResponse nat "(u64 \<times> bool) option"

definition rpc_error :: "'j option \<Rightarrow> error \<Rightarrow> 'j reply" where
  "rpc_error rid err = ErrorReply rid (rpc_code err) (display err) (rpc_data err)"

text \<open>The probe answers 503 when the checkpoint cannot be read.\<close>

definition handle_healthz :: "'b bincode \<Rightarrow> 'b AppState \<Rightarrow> 'j http_response" where
  "handle_healthz B app =
     (case load_meta B (api_db (app_api app)) of
        Inr m \<Rightarrow> HealthResponse 200 (Some (m_last_indexed_height m, m_full_scan_complete m))
      | Inl _ \<Rightarrow> HealthResponse 503 None)"


subsection \<open>Authentication\<close>

record ('m, 'v) header_ops =
  hm_get :: "'m \<Rightarrow> string \<Rightarrow> 'v option"
  hv_to_str :: "'v \<Rightarrow> string option"

definition strip_prefix :: "string \<Rightarrow> string \<Rightarrow> string option" where
  "strip_prefix p s = (if take (length p) s = p then Some (drop (length p) s) else None)"

definition extract_bearer :: "('m, 'v) header_ops \<Rightarrow> 'm \<Rightarrow> string" where
  "extract_bearer M headers =
     (case Option.bind (Option.bind (hm_get M headers ''authorization'') (hv_to_str M)) (strip_prefix ''Bearer '') of
        Some s \<Rightarrow> s
      | None \<Rightarrow> [])"


subsection \<open>The JSON-RPC entry point\<close>

definition handle_single ::
  "'j serde \<Rightarrow> 'b bincode \<Rightarrow> 'p exfer \<Rightarrow> hex \<Rightarrow> base64 \<Rightarrow> 'b AppState \<Rightarrow> 'j \<Rightarrow> 'j reply res" where
  "handle_single S B E H b64 app body =
     (case p_request S body of
        None \<Rightarrow> Inr (rpc_error None (InvalidRequest ''request''))
      | Some req \<Rightarrow>
          (if rq_jsonrpc req \<noteq> ''2.0''
           then Inr (rpc_error (rq_id req) (InvalidRequest (''jsonrpc must be '' @ [CHR 0x22] @ ''2.0'' @ [CHR 0x22])))
           else case dispatch S B E H b64 (app_api app) req of
               Inr v \<Rightarrow> Inr (ResultReply v (rq_id req))
             | Inl (Fail e) \<Rightarrow> Inr (rpc_error (rq_id req) e)
             | Inl Panic \<Rightarrow> Inl Panic))"

definition handle_rpc ::
  "'j serde \<Rightarrow> 'b bincode \<Rightarrow> 'p exfer \<Rightarrow> hex \<Rightarrow> base64 \<Rightarrow> ('m, 'v) header_ops \<Rightarrow> (string \<Rightarrow> string \<Rightarrow> bool) \<Rightarrow>
   'b AppState \<Rightarrow> 'm \<Rightarrow> u8 list \<Rightarrow> 'j http_response res" where
  "handle_rpc S B E H b64 M ct app headers body =
     (if (case app_token app of Some expected \<Rightarrow> \<not> ct (extract_bearer M headers) expected | None \<Rightarrow> False)
      then Inr (SingleResponse 401 (rpc_error None Unauthorized))
      else case from_slice S body of
          None \<Rightarrow> Inr (SingleResponse 400 (rpc_error None (ParseError ''body'')))
        | Some v \<Rightarrow>
            (case as_array S v of
               Some items \<Rightarrow>
                 (if items = [] then Inr (SingleResponse 400 (rpc_error None (InvalidRequest ''empty batch'')))
                  else bind_res (map_res (handle_single S B E H b64 app) items) (\<lambda>results.
                    Inr (BatchResponse 200 results)))
             | None \<Rightarrow> bind_res (handle_single S B E H b64 app v) (\<lambda>result. Inr (SingleResponse 200 result))))"


subsection \<open>The bind check\<close>



subsection \<open>Authentication\<close>

text \<open>What the server relies on: the constant-time comparison decides equality.\<close>

definition compares :: "(string \<Rightarrow> string \<Rightarrow> bool) \<Rightarrow> bool" where
  "compares ct \<longleftrightarrow> (\<forall>a b. ct a b \<longleftrightarrow> a = b)"

text \<open>The header of a request, as text, when it is there and is text.\<close>

definition authorization :: "('m, 'v) header_ops \<Rightarrow> 'm \<Rightarrow> string option" where
  "authorization M headers = Option.bind (hm_get M headers ''authorization'') (hv_to_str M)"

lemma strip_bearer: "strip_prefix ''Bearer '' s = (if take 7 s = ''Bearer '' then Some (drop 7 s) else None)"
proof -
  have "length ''Bearer '' = 7" by simp
  then show ?thesis by (simp only: strip_prefix_def)
qed

lemma extract_bearer_iff:
  "extract_bearer M headers = t \<longleftrightarrow>
     authorization M headers = Some (''Bearer '' @ t) \<or>
     t = [] \<and> (case authorization M headers of None \<Rightarrow> True | Some s \<Rightarrow> take 7 s \<noteq> ''Bearer '')"
proof (cases "authorization M headers")
  case (Some s)
  show ?thesis
  proof (cases "take 7 s = ''Bearer ''")
    case True
    then have "extract_bearer M headers = drop 7 s"
      using Some by (simp add: extract_bearer_def authorization_def strip_bearer)
    moreover have s: "s = ''Bearer '' @ drop 7 s" using True append_take_drop_id [of 7 s] by simp
    have "drop 7 s = t \<longleftrightarrow> s = ''Bearer '' @ t" by (subst (2) s) simp
    ultimately show ?thesis using Some True by simp
  next
    case False
    then have "extract_bearer M headers = []"
      using Some by (simp add: extract_bearer_def authorization_def strip_bearer)
    moreover have "s \<noteq> ''Bearer '' @ t" using False by auto
    ultimately show ?thesis using Some False by auto
  qed
next
  case None
  then show ?thesis by (auto simp: extract_bearer_def authorization_def)
qed

text \<open>C21: with a token set, a request gets past authentication exactly when its header is \<open>Bearer\<close> with
  that very token, and otherwise is answered 401 before its body is looked at. The one exception
  is an empty token, which also admits every request without a bearer header.\<close>

theorem authentication_exact:
  assumes "compares ct" "app_token app = Some token"
  shows "handle_rpc S B E H b64 M ct app headers body =
    (if authorization M headers = Some (''Bearer '' @ token) \<or>
        token = [] \<and> (case authorization M headers of None \<Rightarrow> True | Some s \<Rightarrow> take 7 s \<noteq> ''Bearer '')
     then handle_rpc S B E H b64 M ct (app\<lparr>app_token := None\<rparr>) headers body
     else Inr (SingleResponse 401 (rpc_error None Unauthorized)))"
proof -
  have ct: "ct (extract_bearer M headers) token \<longleftrightarrow> extract_bearer M headers = token"
    using assms(1) by (simp add: compares_def)
  have single: "handle_single S B E H b64 (app\<lparr>app_token := None\<rparr>) = handle_single S B E H b64 app"
    by (intro ext) (simp add: handle_single_def split: option.split sum.split failure.split)
  show ?thesis
    unfolding extract_bearer_iff [symmetric] ct [symmetric]
    by (simp add: handle_rpc_def assms(2) single split: option.split)
qed

definition sample_headers :: "(string list, string) header_ops" where
  "sample_headers = \<lparr>hm_get = (\<lambda>m _. case m of v # _ \<Rightarrow> Some v | [] \<Rightarrow> None), hv_to_str = Some\<rparr>"

definition sample_app :: "string \<Rightarrow> blob AppState" where
  "sample_app token = \<lparr>app_api = sample_api open_all_tables, app_token = Some token\<rparr>"

theorem authentication_exact_witness:
  "handle_rpc sample_serde sample_bincode sample_exfer sample_hex sample_base64 sample_headers (=) (sample_app ''secret'')
     [''Bearer wrong''] [1] = Inr (SingleResponse 401 (rpc_error None Unauthorized)) \<and>
   handle_rpc sample_serde sample_bincode sample_exfer sample_hex sample_base64 sample_headers (=) (sample_app []) [] [1] =
     Inr (SingleResponse 200 (ResultReply (SLiteral JPong) (Some SOther)))"
proof -
  have ct: "compares (=)" by (simp add: compares_def)
  have auth: "authorization sample_headers [v] = Some v" "authorization sample_headers [] = None" for v
    by (simp_all add: authorization_def sample_headers_def)
  have token: "app_token (sample_app t) = Some t" for t by (simp add: sample_app_def)
  show ?thesis
    unfolding authentication_exact [OF ct token]
    by (simp add: auth handle_rpc_def sample_serde_def handle_single_def dispatch_def)
qed


subsection \<open>Replies\<close>

lemma handle_single_total: "\<exists>r. handle_single S B E H b64 app v = Inr r"
proof (cases "p_request S v")
  case (Some req)
  have "dispatch S B E H b64 (app_api app) req \<noteq> Inl Panic" by (rule dispatch_calm)
  then show ?thesis using Some by (auto simp: handle_single_def split: sum.splits failure.splits)
qed (simp add: handle_single_def)

definition single_reply :: "'j reply res \<Rightarrow> 'j reply" where
  "single_reply r = (case r of Inr x \<Rightarrow> x | Inl _ \<Rightarrow> rpc_error None Unauthorized)"

lemma rpc_error_fields [simp]:
  "(case rpc_error rid e of
      ErrorReply r code msg data \<Rightarrow> r = x \<and> (\<exists>e. code = rpc_code e \<and> msg = display e \<and> data = rpc_data e)
    | ResultReply v r \<Rightarrow> P v r) \<longleftrightarrow> rid = x"
  by (auto simp: rpc_error_def)

text \<open>C23: an authenticated request is always answered: a body that is not JSON and an empty batch with status
  400, anything else with status 200 and one reply per item, in order, each the reply the item
  would get on its own; no item fails or stops the batch. A reply carries the id of its request.\<close>

theorem every_request_answered:
  assumes "app_token app = None"
  shows "handle_rpc S B E H b64 M ct app headers body =
    Inr (case from_slice S body of
        None \<Rightarrow> SingleResponse 400 (rpc_error None (ParseError ''body''))
      | Some v \<Rightarrow>
          (case as_array S v of
             Some items \<Rightarrow>
               if items = [] then SingleResponse 400 (rpc_error None (InvalidRequest ''empty batch''))
               else BatchResponse 200 (map (\<lambda>i. single_reply (handle_single S B E H b64 app i)) items)
           | None \<Rightarrow> SingleResponse 200 (single_reply (handle_single S B E H b64 app v)))) \<and>
   (case single_reply (handle_single S B E H b64 app item) of
      ErrorReply rid code msg data \<Rightarrow> rid = Option.bind (p_request S item) rq_id \<and>
        (\<exists>e. code = rpc_code e \<and> msg = display e \<and> data = rpc_data e)
    | ResultReply v rid \<Rightarrow> rid = Option.bind (p_request S item) rq_id)"
proof
  have single: "handle_single S B E H b64 app i = Inr (single_reply (handle_single S B E H b64 app i))" for i
    using handle_single_total [of S B E H b64 app i] by (auto simp: single_reply_def)
  have batch: "map_res (handle_single S B E H b64 app) items = Inr (map (\<lambda>i. single_reply (handle_single S B E H b64 app i)) items)" for items
    by (rule map_res_total) (rule single)
  have one: "bind_res (handle_single S B E H b64 app v) (\<lambda>r. Inr (SingleResponse 200 r)) =
      Inr (SingleResponse 200 (single_reply (handle_single S B E H b64 app v)))" for v
    by (subst single) simp
  show "handle_rpc S B E H b64 M ct app headers body =
    Inr (case from_slice S body of
        None \<Rightarrow> SingleResponse 400 (rpc_error None (ParseError ''body''))
      | Some v \<Rightarrow>
          (case as_array S v of
             Some items \<Rightarrow>
               if items = [] then SingleResponse 400 (rpc_error None (InvalidRequest ''empty batch''))
               else BatchResponse 200 (map (\<lambda>i. single_reply (handle_single S B E H b64 app i)) items)
           | None \<Rightarrow> SingleResponse 200 (single_reply (handle_single S B E H b64 app v))))"
    by (simp add: handle_rpc_def assms batch one split: option.splits)
next
  show "case single_reply (handle_single S B E H b64 app item) of
      ErrorReply rid code msg data \<Rightarrow> rid = Option.bind (p_request S item) rq_id \<and>
        (\<exists>e. code = rpc_code e \<and> msg = display e \<and> data = rpc_data e)
    | ResultReply v rid \<Rightarrow> rid = Option.bind (p_request S item) rq_id"
  proof (cases "p_request S item")
    case (Some req)
    then show ?thesis
      using dispatch_calm [of S B E H b64 "app_api app" req]
      by (auto simp: single_reply_def handle_single_def split: sum.splits failure.splits if_splits)
  qed (simp add: single_reply_def handle_single_def)
qed

theorem every_request_answered_witness:
  "handle_rpc sample_serde sample_bincode sample_exfer sample_hex sample_base64 sample_headers (=)
     ((sample_app [])\<lparr>app_token := None\<rparr>) [] [2] =
   Inr (BatchResponse 200 [ResultReply (SLiteral JPong) (Some SOther), rpc_error None (InvalidRequest ''request'')])"
proof -
  have "app_token ((sample_app [])\<lparr>app_token := None\<rparr>) = None" by simp
  then show ?thesis
    by (subst every_request_answered [THEN conjunct1])
      (simp_all add: sample_serde_def handle_single_def dispatch_def single_reply_def)
qed


subsection \<open>Start-up\<close>

text \<open>C38: set-up succeeds exactly when the bind address passes its check and some entry of the comma-separated
  node URLs is not blank, with a fresh data directory as well as over any database file with
  valid rows, whatever its checkpoint. The server then serves the opened (created or migrated)
  database, its checkpoint at the current schema version or above, asks the non-blank URLs
  starting at the first, checks the configured token and watches a tip that starts at the
  checkpoint's height; the follower runs on the same database unless it is disabled.\<close>

theorem setup_exact:
  assumes "bincode_ok B"
    and "case file of None \<Rightarrow> True | Some d \<Rightarrow> rows_ok B d \<and> keyed (\<lambda>_ :: unit. CHAIN_TIP_KEY) (CHAIN_TIP d)"
  shows "case run_setup B node_view cfg file of
      Inr (app, fol) \<Rightarrow>
        check_bind_safe cfg = Inr () \<and> \<not> list_all (\<lambda>u. trim u = []) (split_comma (cfg_node_rpc cfg)) \<and>
        db_open B file = Inr (api_db (app_api app)) \<and> app_token app = cfg_auth_token cfg \<and>
        api_node (app_api app) = node_view \<lparr>nc_urls = filter (\<lambda>u. u \<noteq> []) (map trim (split_comma (cfg_node_rpc cfg))),
          nc_next = 0, nc_attempts = 4, nc_backoff_ms = 500\<rparr> \<and>
        fol = (if cfg_no_follower cfg then None
          else Some \<lparr>fs_db = api_db (app_api app), fs_tip = api_tip (app_api app)\<rparr>) \<and>
        (\<exists>m. load_meta B (api_db (app_api app)) = Inr m \<and> SCHEMA_VERSION \<le> m_schema_version m \<and>
           api_tip (app_api app) = m_last_indexed_height m)
    | Inl _ \<Rightarrow> check_bind_safe cfg \<noteq> Inr () \<or> list_all (\<lambda>u. trim u = []) (split_comma (cfg_node_rpc cfg))"
proof -
  define d where "d = (case file of None \<Rightarrow> open_all_tables | Some d \<Rightarrow> d)"
  have d: "rows_ok B d" "keyed (\<lambda>_ :: unit. CHAIN_TIP_KEY) (CHAIN_TIP d)"
    using assms(2) db_ok_open_all_tables [of B] by (auto simp: d_def db_ok_def stored_def split: option.splits)
  have same: "db_open B file = db_open B (Some d)" by (simp add: db_open_def d_def)
  obtain d' m where d': "db_open B file = Inr d'" "load_meta B d' = Inr m" "SCHEMA_VERSION \<le> m_schema_version m"
    unfolding same by (rule db_open_migrated [OF assms(1) d])
  show ?thesis
  proof (cases "check_bind_safe cfg")
    case (Inr u)
    with d' node_client_new_exact [of "cfg_node_rpc cfg"] show ?thesis
      by (simp add: run_setup_def Let_def follower_new_def)
  qed (simp add: run_setup_def)
qed

theorem setup_exact_witness:
  "(\<exists>app fol. run_setup sample_bincode (\<lambda>_. sample_node) default_config (Some legacy_db) = Inr (app, Some fol) \<and>
     (\<exists>m. load_meta sample_bincode (api_db (app_api app)) = Inr m \<and> 1 \<le> m_schema_version m)) \<and>
   (\<exists>app fol. run_setup sample_bincode (\<lambda>_. sample_node) default_config None = Inr (app, Some fol)) \<and>
   (\<exists>e. run_setup sample_bincode (\<lambda>_. sample_node) (default_config\<lparr>cfg_node_rpc := '' , ''\<rparr>) None = Inl e)"
proof (intro conjI)
  have bind: "check_bind_safe default_config = Inr ()" by (simp add: check_bind_safe_def default_config_def)
  have url: "\<not> list_all (\<lambda>u. trim u = []) (split_comma (cfg_node_rpc default_config))"
    by (simp add: default_config_def trim_def is_space_def)
  have fol: "\<not> cfg_no_follower default_config" by (simp add: default_config_def)
  show "\<exists>app fol. run_setup sample_bincode (\<lambda>_. sample_node) default_config (Some legacy_db) = Inr (app, Some fol) \<and>
     (\<exists>m. load_meta sample_bincode (api_db (app_api app)) = Inr m \<and> 1 \<le> m_schema_version m)"
    using setup_exact [OF sample_bincode_ok, of "Some legacy_db" default_config "\<lambda>_. sample_node"]
      legacy_db_facts(1,2) bind url fol
    by (auto simp: SCHEMA_VERSION_def split: sum.splits prod.splits)
  note fresh = setup_exact [OF sample_bincode_ok, of None _ "\<lambda>_. sample_node"]
  show "\<exists>app fol. run_setup sample_bincode (\<lambda>_. sample_node) default_config None = Inr (app, Some fol)"
    using fresh [of default_config] bind url fol by (auto split: sum.splits prod.splits)
  show "\<exists>e. run_setup sample_bincode (\<lambda>_. sample_node) (default_config\<lparr>cfg_node_rpc := '' , ''\<rparr>) None = Inl e"
    using fresh [of "default_config\<lparr>cfg_node_rpc := '' , ''\<rparr>"]
    by (auto simp: trim_def is_space_def split: sum.splits prod.splits)
qed

end
