(* ===== verification/Routes.thy ===== *)
theory Routes
  imports Server ChainIndex
begin

section \<open>The routes of the server (\<^verbatim>\<open>src/server.rs\<close>)\<close>

text \<open>
  The table of routes and what answers each, under a framework that sees only the table and
  the request when it chooses a handler; and what a caller can learn without the token: the
  checkpoint, and nothing else of the database.
\<close>

subsection \<open>The application\<close>

datatype handler = HandleRpc | HandleHealthz

type_synonym route = "string \<times> string \<times> handler"

definition app_routes :: "route list" where
  "app_routes = [(''/'', ''POST'', HandleRpc), (''/healthz'', ''GET'', HandleHealthz)]"

text \<open>A request; the body is absent when the framework's extractor rejects it (too large, cut off).\<close>

record 'm http_request =
  hq_verb :: string
  hq_path :: string
  hq_headers :: 'm
  hq_body :: "u8 list option"

text \<open>
  The framework, a parameter: which handler of a table a request reaches, its own answers (no
  such route or method, a rejected body), and what is sent for a handler's response.
\<close>

record ('m, 'j, 'w) framework =
  fw_route :: "route list \<Rightarrow> 'm http_request \<Rightarrow> handler option"
  fw_reject :: "route list \<Rightarrow> 'm http_request \<Rightarrow> 'w"
  fw_send :: "'m http_request \<Rightarrow> 'j http_response res \<Rightarrow> 'w"

definition serve ::
  "('m, 'j, 'w) framework \<Rightarrow> 'j serde \<Rightarrow> 'b bincode \<Rightarrow> 'p exfer \<Rightarrow> hex \<Rightarrow> base64 \<Rightarrow> ('m, 'v) header_ops \<Rightarrow>
   (string \<Rightarrow> string \<Rightarrow> bool) \<Rightarrow> 'b AppState \<Rightarrow> 'm http_request \<Rightarrow> 'w" where
  "serve F S B E H b64 M ct app req =
     (case fw_route F app_routes req of
        None \<Rightarrow> fw_reject F app_routes req
      | Some HandleHealthz \<Rightarrow> fw_send F req (Inr (handle_healthz B app))
      | Some HandleRpc \<Rightarrow>
          (case hq_body req of
             None \<Rightarrow> fw_reject F app_routes req
           | Some body \<Rightarrow> fw_send F req (handle_rpc S B E H b64 M ct app (hq_headers req) body)))"

text \<open>The builder the integration tests use: the same routes over a given state and token.\<close>

definition build_test_app ::
  "('m, 'j, 'w) framework \<Rightarrow> 'j serde \<Rightarrow> 'b bincode \<Rightarrow> 'p exfer \<Rightarrow> hex \<Rightarrow> base64 \<Rightarrow> ('m, 'v) header_ops \<Rightarrow>
   (string \<Rightarrow> string \<Rightarrow> bool) \<Rightarrow> 'b ApiState \<Rightarrow> string option \<Rightarrow> 'm http_request \<Rightarrow> 'w" where
  "build_test_app F S B E H b64 M ct api token =
     serve F S B E H b64 M ct \<lparr>app_api = api, app_token = token\<rparr>"


subsection \<open>What a caller without the token learns\<close>

lemma handle_rpc_refused:
  assumes "compares ct" "app_token app = Some token" "extract_bearer M headers \<noteq> token"
  shows "handle_rpc S B E H b64 M ct app headers body = Inr (SingleResponse 401 (rpc_error None Unauthorized))"
  using assms by (simp add: handle_rpc_def compares_def)

text \<open>C13: a caller without the token sees the checkpoint only: let two servers with the same token hold any two
  databases, nodes and tips whose checkpoints agree in height and in the scan's completion;
  then every request without the token, to any path, with any verb and body, gets the same
  response from both. So no row, block id, node answer or HTLC count can be learnt without
  the token, and \<open>/healthz\<close> tells exactly these two fields.\<close>

theorem outsiders_see_checkpoint_only:
  assumes "compares ct" "app_token app = Some token" "app_token app' = Some token"
    and "load_meta B (api_db (app_api app)) = Inr m" "load_meta B (api_db (app_api app')) = Inr m'"
    and "m_last_indexed_height m = m_last_indexed_height m'" "m_full_scan_complete m = m_full_scan_complete m'"
    and "extract_bearer M (hq_headers req) \<noteq> token"
  shows "serve F S B E H b64 M ct app req = serve F S B E H b64 M ct app' req"
  using assms by (simp add: serve_def handle_rpc_refused handle_healthz_def split: option.split handler.split)

text \<open>A framework that finds the route and sends the response as it is.\<close>

definition sample_framework :: "(string list, sample_json, sample_json http_response res + nat) framework" where
  "sample_framework =
     \<lparr>fw_route = (\<lambda>rts q. map_of (map (\<lambda>(p, v, h). ((p, v), h)) rts) (hq_path q, hq_verb q)),
      fw_reject = (\<lambda>_ _. Inr 404), fw_send = (\<lambda>_ r. Inl r)\<rparr>"

text \<open>A server with the whole sample chain, and one with its checkpoint but no rows, on another node.\<close>

theorem outsiders_see_checkpoint_only_witness:
  "\<exists>d. d = fs_db (snd (tick sample_bincode sample_exfer sample_hex (steady sample_node) no_faults 7
       \<lparr>fs_db = open_all_tables, fs_tip = 0\<rparr>)) \<and>
     serve sample_framework sample_serde sample_bincode sample_exfer sample_hex sample_base64 sample_headers (=)
       \<lparr>app_api = sample_api d, app_token = Some ''secret''\<rparr>
       \<lparr>hq_verb = ''POST'', hq_path = ''/'', hq_headers = [''Bearer guess''], hq_body = Some [1]\<rparr> =
     serve sample_framework sample_serde sample_bincode sample_exfer sample_hex sample_base64 sample_headers (=)
       \<lparr>app_api = \<lparr>api_db = open_all_tables\<lparr>CHAIN_TIP := CHAIN_TIP d\<rparr>, api_node = fork_node, api_tip = 9\<rparr>,
        app_token = Some ''secret''\<rparr>
       \<lparr>hq_verb = ''POST'', hq_path = ''/'', hq_headers = [''Bearer guess''], hq_body = Some [1]\<rparr>"
proof -
  let ?s = "\<lparr>fs_db = open_all_tables, fs_tip = 0\<rparr> :: blob FollowerState"
  obtain s' m where s': "tick sample_bincode sample_exfer sample_hex (steady sample_node) no_faults 7 ?s = (Inr (), s')"
    "load_meta sample_bincode (fs_db s') = Inr m" by (rule sample_run)
  have "load_meta sample_bincode (open_all_tables\<lparr>CHAIN_TIP := CHAIN_TIP (fs_db s')\<rparr>) = Inr m"
    using s'(2) by (simp add: load_meta_def)
  then show ?thesis
    using s' by (intro exI conjI refl outsiders_see_checkpoint_only [where token = "''secret''" and m = m and m' = m])
      (simp_all add: sample_api_def compares_def extract_bearer_def sample_headers_def strip_bearer)
qed

end
