(* ===== verification/Spec2Isabelle.thy ===== *)
theory Spec2Isabelle
  imports StoreProps FollowerReads SettlementKeys ChainReorg ChainMigration ChainAnswers LivePaging Schema Routes
begin

text \<open>
  Verification development for \<^verbatim>\<open>exfer-indexer\<close>, a read-only chain indexer: a
  follower polls an upstream node, turns each block into typed events and applies them
  atomically to a local store with secondary indices; JSON-RPC methods answer queries about
  any address from that store.

  \<^bold>\<open>Parts and theories\<close> (Rust files are under \<^verbatim>\<open>src/src/\<close>).

  \<^item> \<open>Prelude\<close>: byte arrays of a fixed length with their order, big- and little-endian
    words, slices, prefix bounds.
  \<^item> \<open>Errors\<close> (\<^verbatim>\<open>error.rs\<close>): the error type, its JSON-RPC codes and messages, and the
    results of fallible code; a panic is a failure of its own, so that its absence can be proved:
    slices, array copies and integer conversions of decoded strings and of keys read by a query
    panic on a wrong length. The copies next to their length check in \<open>Extract\<close> and in
    the wipes of \<open>Store\<close>, but for the HTLC key of the latter, are written as total.
  \<^item> \<open>Tables\<close> (the redb tables of \<^verbatim>\<open>db/schema.rs\<close>): finite maps read in key order, with the
    table interface as locales that are interpreted on them; record codecs; tables with typed
    keys; the relation between a table and its secondary index.
  \<^item> \<open>Keys\<close> (the key functions at the end of \<^verbatim>\<open>db/mod.rs\<close>) and \<open>Extract\<close> (\<^verbatim>\<open>extract.rs\<close>): a
    transaction's locks, spends, activity rows and datum signals.
  \<^item> \<open>Store\<close> (\<^verbatim>\<open>db/mod.rs\<close>, write side): one function per within-transaction writer and wipe,
    \<open>apply_block_events\<close>, \<open>wipe_above\<close>, the checkpoint and the schema migration.
  \<^item> \<open>StoreSpec\<close>, \<open>StoreRefine\<close>, \<open>StoreApply\<close>, \<open>Reorg\<close>, \<open>Migration\<close>, \<open>StoreProps\<close>: the store
    as abstract rows (\<open>StoreView\<close>), the invariant \<open>db_ok\<close> (every row decodes under its own
    key, every index is exactly the one its rows determine), the refinement of every write by
    a closed-form update of the rows, and what follows for reorgs, blocks applied again and the opening of an old database.
  \<^item> \<open>Paging\<close>, \<open>HtlcQueries\<close>, \<open>SwapGroups\<close>, \<open>SettlementQueries\<close>, \<open>HistoryQueries\<close>,
    \<open>DatumQueries\<close> (\<^verbatim>\<open>db/mod.rs\<close>, read side): cursors and page cutting, with the
    argument that following cursors is complete in the locale \<open>pager\<close>, and each query with
    its answer stated on the abstract rows.
  \<^item> \<open>Upstream\<close> (\<^verbatim>\<open>upstream.rs\<close>): the node client, its round robin, retries and backoff.
  \<^item> \<open>Follower\<close>, \<open>FollowerBlocks\<close>, \<open>FollowerTick\<close>, \<open>FollowerRewalk\<close>, \<open>FollowerHistory\<close>,
    \<open>FollowerTorn\<close>, \<open>FollowerReads\<close> (\<^verbatim>\<open>follower.rs\<close>): the events of a block, the reorg check and the forward
    walk, against a node whose answers may change between the requests of one tick; a tick
    as a sequence of atomic commits (the inductive relation \<open>commit\<close>), over which the
    store's invariant is proved; what a second walk adds, what a received row shows of a transaction, what a walk over
    a chain that changes under it leaves in the store, and what a failing read of an HTLC loses.
  \<^item> \<open>SettlementKeys\<close> (\<^verbatim>\<open>follower.rs\<close> with \<^verbatim>\<open>db/mod.rs\<close>): settlements of one block that
    share a key.
  \<^item> \<open>Schema\<close> (\<^verbatim>\<open>db/schema.rs\<close>): the declared widths, records and references of the tables,
    kept by every run of the follower.
  \<^item> \<open>ChainIndex\<close>, \<open>ChainHtlcs\<close>, \<open>ChainReorg\<close>, \<open>ChainMigration\<close>, \<open>ChainAnswers\<close> (\<^verbatim>\<open>follower.rs\<close> with \<^verbatim>\<open>db/mod.rs\<close> and
    \<^verbatim>\<open>api/mod.rs\<close>): the whole program against a node that never contradicts one chain.
    \<open>chain_rows\<close> is the specification, the rows a chain determines block by block; whatever
    fails on the way, the store holds these rows up to its checkpoint, the settlements provided
    that no read of a spent HTLC failed. From it follow the life
    of an HTLC as the methods answer it, the reorgs that one tick recovers from, what the walk
    from genesis after a schema migration makes of the old rows, and that replicas answer alike.
  \<^item> \<open>Templates\<close> (\<^verbatim>\<open>templates.rs\<close>), \<open>Api\<close>, \<open>ApiProps\<close>, \<open>ApiAnswers\<close> (\<^verbatim>\<open>api/mod.rs\<close>): the
    registry, one handler per method and the dispatch, with what a client can rely on.
  \<^item> \<open>LivePaging\<close>: a client that follows cursors while blocks are indexed between its
    requests, each page read from another database (locale \<open>live_pages\<close>).
  \<^item> \<open>Server\<close> (\<^verbatim>\<open>server.rs\<close>, \<^verbatim>\<open>config.rs\<close>): start-up with its bind check, the probe,
    authentication, single requests and batches. \<open>Routes\<close>: the table of routes under a
    framework given as a parameter, and what a caller without the token can learn.
  \<^item> \<open>Sample\<close>, \<open>FollowerWitness\<close>: the concrete codecs, transactions, chains and requests that
    the witnesses are evaluated on.

  \<^bold>\<open>How the code maps\<close>. Structs are records with prefixed fields, enums datatypes, u8/u32/u64
  words that wrap around as in a release build (an i32 or i64 is stored as its bits and read
  with \<open>sint\<close>), strings char lists. A redb write transaction is \<open>write_txn\<close>: the body's result
  is committed whole or dropped, and \<open>fault\<close> is an error redb may report, converted as
  \<^verbatim>\<open>From\<close> does; the follower's own reads are \<open>read_txn\<close>, with a fault of the same kind. A follower step
  returns its result with the state it left, so what was committed before an error stays.
  Messages are those of the code; where a format string ends in a third-party error, its text is
  left out.

  \<^bold>\<open>Parameters for third-party code\<close>. \<open>bincode\<close> (record codecs, assumed to round-trip in
  \<open>bincode_ok\<close>), \<open>exfer\<close> (transaction id, parsers, script hash; \<open>exfer_ok\<close>: an id commits to the
  outputs; \<open>structural\<close>: the script hash ignores constants), \<open>hex\<close> and \<open>base64\<close> (decoding undoes
  encoding), JSON access and the derived decoders of parameter structs (\<open>serde\<close>), the HTTP
  exchange with a node, header access and the constant-time comparison, the HTTP framework
  (\<open>framework\<close>: it chooses a handler by the routes and the request alone). The witnesses
  instantiate each of them.

  \<^bold>\<open>Bounds and fuel\<close>. \<open>walk_pages\<close> takes the number of requests a client may send; the
  completeness theorems show that one more than the number of matching rows is enough.
  \<open>walk_live\<close> has the same fuel; one more than the number of positions that any of the
  databases it reads can hold is enough. No
  other recursion needs fuel: the retry loop, the forward walk and the scans are structural.

  \<^bold>\<open>Not modelled\<close>. Logging, timers and the sleep between polls, task spawning, TLS set-up, the listener and
  graceful shutdown; the file system (a database file is an optional table set); a change of
  the node's answers while one block is processed; the text third-party errors add to messages; a failing
  read behind a query of the API (a query reads one consistent database); command-line
  parsing, but for the defaults; \<^verbatim>\<open>main.rs\<close> and the test modules.
\<close>

end
